(* ===== verification/GoStrings.thy ===== *)
theory GoStrings
  imports GoPrelude
begin

text \<open>
  The functions of Go's \<open>strings\<close> and \<open>strconv\<close> packages that the modelled code calls,
  over byte strings, with the facts the components share: searching
  (\<open>has_prefix\<close>, \<open>index_str\<close>, \<open>str_contains\<close>), case (\<open>to_lower\<close>, \<open>to_upper\<close>,
  \<open>equal_fold\<close>), trimming (\<open>trim_space\<close>, \<open>trim_chars\<close>), splitting and joining on a byte,
  replacement, and decimal conversion (\<open>atoi\<close>, \<open>itoa\<close>, \<open>parse_bool\<close>).
\<close>

section \<open>Searching\<close>

fun has_prefix :: "string \<Rightarrow> string \<Rightarrow> bool" where
  "has_prefix s [] = True"
| "has_prefix [] (p # ps) = False"
| "has_prefix (c # s) (p # ps) = (c = p \<and> has_prefix s ps)"

lemma has_prefix_iff: "has_prefix s p \<longleftrightarrow> (\<exists>t. s = p @ t)"
  by (induction s p rule: has_prefix.induct) auto

lemma has_prefix_append [simp]: "has_prefix (p @ s) p"
  by (auto simp: has_prefix_iff)

fun index_str :: "string \<Rightarrow> string \<Rightarrow> nat option" where
  "index_str [] sub = (if sub = [] then Some 0 else None)"
| "index_str (c # s) sub =
     (if has_prefix (c # s) sub then Some 0 else map_option Suc (index_str s sub))"

lemma index_str_Some:
  "index_str s sub = Some i \<Longrightarrow> \<exists>post. s = take i s @ sub @ post \<and> i + length sub \<le> length s"
proof (induction s sub arbitrary: i rule: index_str.induct)
  case (1 sub)
  then show ?case by (auto split: if_splits)
next
  case (2 c s sub)
  show ?case
  proof (cases "has_prefix (c # s) sub")
    case True
    with "2.prems" show ?thesis by (auto simp: has_prefix_iff) (metis le_add1 length_Cons length_append)
  next
    case False
    with "2.prems" obtain j where "index_str s sub = Some j" "i = Suc j" by auto
    with "2.IH" [OF False] show ?thesis by auto
  qed
qed

lemma index_str_None: "index_str s sub = None \<longleftrightarrow> \<not> (\<exists>pre post. s = pre @ sub @ post)"
proof (induction s sub rule: index_str.induct)
  case (1 sub)
  then show ?case by auto
next
  case (2 c s sub)
  show ?case
  proof (cases "has_prefix (c # s) sub")
    case True
    then have "\<exists>pre post. c # s = pre @ sub @ post"
      by (metis append_Nil has_prefix_iff)
    with True show ?thesis by simp
  next
    case False
    then have "\<And>t. c # s \<noteq> sub @ t" by (auto simp: has_prefix_iff)
    then have "(\<exists>pre post. c # s = pre @ sub @ post) \<longleftrightarrow> (\<exists>pre post. s = pre @ sub @ post)"
      by (metis append_Cons append_Nil list.inject neq_Nil_conv)
    with False "2.IH" [OF False] show ?thesis by simp
  qed
qed

definition str_contains :: "string \<Rightarrow> string \<Rightarrow> bool" where
  "str_contains s sub \<longleftrightarrow> index_str s sub \<noteq> None"

lemma str_contains_iff: "str_contains s sub \<longleftrightarrow> (\<exists>pre post. s = pre @ sub @ post)"
  using index_str_None [of s sub] by (auto simp: str_contains_def)

lemma str_contains_append: "str_contains s sub \<Longrightarrow> str_contains (a @ s @ b) sub"
  unfolding str_contains_iff by (metis append.assoc)

definition contains_any :: "string \<Rightarrow> string \<Rightarrow> bool" where
  "contains_any s chars \<longleftrightarrow> list_ex (\<lambda>c. c \<in> set chars) s"

lemma contains_any_iff: "contains_any s chars \<longleftrightarrow> set s \<inter> set chars \<noteq> {}"
  by (auto simp: contains_any_def list_ex_iff)

text \<open>\<open>strings.IndexByte\<close> and \<open>strings.LastIndexByte\<close>.\<close>

fun index_byte :: "char \<Rightarrow> string \<Rightarrow> nat option" where
  "index_byte c [] = None"
| "index_byte c (x # xs) = (if x = c then Some 0 else map_option Suc (index_byte c xs))"

fun last_index_byte :: "char \<Rightarrow> string \<Rightarrow> nat option" where
  "last_index_byte c [] = None"
| "last_index_byte c (x # xs) =
     (case last_index_byte c xs of
        Some i \<Rightarrow> Some (Suc i)
      | None \<Rightarrow> (if x = c then Some 0 else None))"

lemma index_byte_None: "index_byte c s = None \<longleftrightarrow> c \<notin> set s"
  by (induction s) auto

text \<open>\<open>strings.Cut\<close> at a byte: what precedes and what follows its first occurrence.\<close>

fun cut_byte :: "char \<Rightarrow> string \<Rightarrow> (string \<times> string) option" where
  "cut_byte c [] = None"
| "cut_byte c (x # xs) =
     (if x = c then Some ([], xs)
      else map_option (\<lambda>(a, b). (x # a, b)) (cut_byte c xs))"

lemma cut_byte_Some: "cut_byte c s = Some (a, b) \<longleftrightarrow> s = a @ c # b \<and> c \<notin> set a"
  by (induction s arbitrary: a b) (auto simp: Cons_eq_append_conv split: prod.splits)

lemma cut_byte_None: "cut_byte c s = None \<longleftrightarrow> c \<notin> set s"
  by (induction s) auto

section \<open>Case\<close>

definition lower_char :: "char \<Rightarrow> char" where
  "lower_char c = (let n = of_char c :: nat in if 65 \<le> n \<and> n \<le> 90 then char_of (n + 32) else c)"

definition upper_char :: "char \<Rightarrow> char" where
  "upper_char c = (let n = of_char c :: nat in if 97 \<le> n \<and> n \<le> 122 then char_of (n - 32) else c)"

definition to_lower :: "string \<Rightarrow> string" where
  "to_lower s = map lower_char s"

definition to_upper :: "string \<Rightarrow> string" where
  "to_upper s = map upper_char s"

definition equal_fold :: "string \<Rightarrow> string \<Rightarrow> bool" where
  "equal_fold s t \<longleftrightarrow> to_lower s = to_lower t"

lemma equal_fold_refl [simp]: "equal_fold s s"
  by (simp add: equal_fold_def)

lemma lower_char_idem [simp]: "lower_char (lower_char c) = lower_char c"
proof (cases "65 \<le> (of_char c :: nat) \<and> of_char c \<le> (90 :: nat)")
  case True
  then have "of_char (lower_char c) = (of_char c + 32 :: nat)"
    by (simp add: lower_char_def Let_def of_char_of)
  with True show ?thesis by (subst lower_char_def) (simp add: Let_def)
next
  case False
  then have "lower_char c = c" by (auto simp: lower_char_def Let_def)
  then show ?thesis by simp
qed

lemma to_lower_idem [simp]: "to_lower (to_lower s) = to_lower s"
  by (simp add: to_lower_def)

lemma length_to_lower [simp]: "length (to_lower s) = length s"
  by (simp add: to_lower_def)

lemma to_lower_append: "to_lower (s @ t) = to_lower s @ to_lower t"
  by (simp add: to_lower_def)

section \<open>Trimming\<close>

text \<open>The code points that Go's \<open>unicode.IsSpace\<close> accepts, in UTF-8.\<close>

definition go_spaces :: "string list" where
  "go_spaces =
     [[CHR 0x20], [CHR 0x09], [CHR 0x0A], [CHR 0x0B], [CHR 0x0C], [CHR 0x0D],
      [CHR 0xC2, CHR 0x85], [CHR 0xC2, CHR 0xA0], [CHR 0xE1, CHR 0x9A, CHR 0x80]]
     @ map (\<lambda>n. [CHR 0xE2, CHR 0x80, char_of (n :: nat)])
         [128, 129, 130, 131, 132, 133, 134, 135, 136, 137, 138, 168, 169, 175]
     @ [[CHR 0xE2, CHR 0x81, CHR 0x9F], [CHR 0xE3, CHR 0x80, CHR 0x80]]"

text \<open>Removes leading occurrences of any of the given byte sequences.\<close>

function strip_by :: "string list \<Rightarrow> string \<Rightarrow> string" where
  "strip_by es s =
     (case find (\<lambda>e. e \<noteq> [] \<and> has_prefix s e) es of
        None \<Rightarrow> s
      | Some e \<Rightarrow> strip_by es (drop (length e) s))"
  by pat_completeness auto
termination
  by (relation "measure (\<lambda>(es, s). length s)")
    (auto simp: find_Some_iff has_prefix_iff)

declare strip_by.simps [simp del]

definition trim_space :: "string \<Rightarrow> string" where
  "trim_space s = rev (strip_by (map rev go_spaces) (rev (strip_by go_spaces s)))"

lemma strip_by_suffix: "\<exists>p. s = p @ strip_by es s"
proof (induction es s rule: strip_by.induct)
  case (1 es s)
  show ?case
  proof (cases "find (\<lambda>e. e \<noteq> [] \<and> has_prefix s e) es")
    case None
    then show ?thesis by (simp add: strip_by.simps [of es s])
  next
    case (Some e)
    from 1 [OF Some] obtain p where "drop (length e) s = p @ strip_by es (drop (length e) s)" ..
    moreover from Some have "strip_by es s = strip_by es (drop (length e) s)"
      by (simp add: strip_by.simps [of es s])
    ultimately have "s = (take (length e) s @ p) @ strip_by es s"
      by (metis append.assoc append_take_drop_id)
    then show ?thesis ..
  qed
qed

lemma strip_by_Nil [simp]: "strip_by es [] = []"
  using strip_by_suffix [of "[]" es] by simp

lemma trim_space_Nil [simp]: "trim_space [] = []"
  by (simp only: trim_space_def strip_by_Nil rev.simps)

text \<open>A text that begins and ends with a printing ASCII character is trimmed already, which is how the
  executable form decides most texts.\<close>

definition graphic_char :: "char \<Rightarrow> bool" where
  "graphic_char c \<longleftrightarrow> (let n = of_char c :: nat in 32 < n \<and> n < 127)"

lemma strip_by_graphic:
  assumes "graphic_char c" and "es = go_spaces \<or> es = map rev go_spaces"
  shows "strip_by es (c # s) = c # s"
proof -
  have "\<not> has_prefix (c # s) e" if "e \<in> set es" for e
    using assms that by (auto simp: go_spaces_def graphic_char_def Let_def of_char_of)
  then have "find (\<lambda>e. e \<noteq> [] \<and> has_prefix (c # s) e) es = None" by (simp add: find_None_iff)
  then show ?thesis by (simp add: strip_by.simps [of es "c # s"])
qed

lemma trim_space_graphic:
  assumes "s \<noteq> []" and "graphic_char (hd s)" and "graphic_char (last s)"
  shows "trim_space s = s"
proof -
  obtain c t where s: "s = c # t" using assms(1) by (cases s) auto
  have "strip_by (map rev go_spaces) (rev s) = rev s"
  proof -
    obtain t where "rev s = last s # t" using assms(1) by (metis hd_rev list.collapse rev_is_Nil_conv)
    then show ?thesis using strip_by_graphic [OF assms(3), of "map rev go_spaces" t] by (simp only: simp_thms)
  qed
  with assms(2) s show ?thesis by (simp add: trim_space_def strip_by_graphic)
qed

lemma trim_space_code [code]:
  "trim_space s =
     (if s \<noteq> [] \<and> graphic_char (hd s) \<and> graphic_char (last s) then s
      else rev (strip_by (map rev go_spaces) (rev (strip_by go_spaces s))))"
proof (cases "s \<noteq> [] \<and> graphic_char (hd s) \<and> graphic_char (last s)")
  case True
  then show ?thesis by (simp add: trim_space_graphic)
next
  case False
  then show ?thesis unfolding trim_space_def by (rule if_not_P [symmetric])
qed

lemma set_trim_space: "set (trim_space s) \<subseteq> set s"
proof -
  obtain p where p: "s = p @ strip_by go_spaces s" using strip_by_suffix by blast
  obtain q where q: "rev (strip_by go_spaces s) =
      q @ strip_by (map rev go_spaces) (rev (strip_by go_spaces s))"
    using strip_by_suffix by blast
  have "set (trim_space s) \<subseteq> set (strip_by go_spaces s)"
    unfolding trim_space_def by (metis q set_append set_rev Un_upper2)
  moreover have "set (strip_by go_spaces s) \<subseteq> set s"
    by (metis p set_append Un_upper2)
  ultimately show ?thesis by blast
qed

lemma trim_space_nonempty: "trim_space s \<noteq> [] \<Longrightarrow> s \<noteq> []"
  by auto

text \<open>\<open>strings.TrimLeft\<close>, \<open>strings.TrimRight\<close> and \<open>strings.Trim\<close> with a one-byte cutset.\<close>

definition trim_left_char :: "char \<Rightarrow> string \<Rightarrow> string" where
  "trim_left_char c s = dropWhile (\<lambda>x. x = c) s"

definition trim_right_char :: "char \<Rightarrow> string \<Rightarrow> string" where
  "trim_right_char c s = rev (dropWhile (\<lambda>x. x = c) (rev s))"

definition trim_char :: "char \<Rightarrow> string \<Rightarrow> string" where
  "trim_char c s = trim_right_char c (trim_left_char c s)"

section \<open>Splitting, joining, replacing\<close>

fun split_on :: "char \<Rightarrow> string \<Rightarrow> string list" where
  "split_on c [] = [[]]"
| "split_on c (x # xs) =
     (if x = c then [] # split_on c xs
      else (case split_on c xs of [] \<Rightarrow> [[x]] | y # ys \<Rightarrow> (x # y) # ys))"

fun join_with :: "string \<Rightarrow> string list \<Rightarrow> string" where
  "join_with sep [] = []"
| "join_with sep [x] = x"
| "join_with sep (x # y # ys) = x @ sep @ join_with sep (y # ys)"

lemma split_on_not_Nil [simp]: "split_on c s \<noteq> []"
  by (cases s) (auto split: list.splits)

lemma join_split: "join_with [c] (split_on c s) = s"
proof (induction s)
  case Nil
  then show ?case by simp
next
  case (Cons x xs)
  then show ?case
    by (cases "split_on c xs") (auto, metis append_Cons join_with.simps(2,3) list.exhaust)
qed

lemma split_on_pieces: "p \<in> set (split_on c s) \<Longrightarrow> c \<notin> set p"
proof (induction s arbitrary: p)
  case Nil
  then show ?case by simp
next
  case (Cons x xs)
  show ?case
  proof (cases "x = c")
    case True
    with Cons show ?thesis by auto
  next
    case False
    obtain y ys where "split_on c xs = y # ys" by (cases "split_on c xs") auto
    with Cons False show ?thesis by auto
  qed
qed

lemma length_split_on: "length (split_on c s) = Suc (count_list s c)"
proof (induction s)
  case (Cons x xs)
  then show ?case by (cases "split_on c xs") auto
qed simp

text \<open>\<open>strings.ReplaceAll\<close> for a non-empty pattern (the only use in the program).\<close>

function replace_all :: "string \<Rightarrow> string \<Rightarrow> string \<Rightarrow> string" where
  "replace_all s old new =
     (if old = [] then s
      else (case index_str s old of
              None \<Rightarrow> s
            | Some i \<Rightarrow> take i s @ new @ replace_all (drop (i + length old) s) old new))"
  by pat_completeness auto
termination
proof (relation "measure (\<lambda>(s, old, new). length s)")
  fix s old new :: string and i
  assume old: "old \<noteq> []" and i: "index_str s old = Some i"
  from i have "i + length old \<le> length s" by (auto dest: index_str_Some)
  moreover from old have "0 < length old" by simp
  ultimately have "length s - (i + length old) < length s" by linarith
  then show "((drop (i + length old) s, old, new), (s, old, new)) \<in> measure (\<lambda>(s, old, new). length s)"
    by simp
qed simp

declare replace_all.simps [simp del]

section \<open>Decimal numbers and booleans\<close>

definition is_digit :: "char \<Rightarrow> bool" where
  "is_digit c \<longleftrightarrow> (48 :: nat) \<le> of_char c \<and> of_char c \<le> (57 :: nat)"

definition digit_val :: "char \<Rightarrow> int" where
  "digit_val c = int (of_char c) - 48"

definition digits_val :: "string \<Rightarrow> int" where
  "digits_val s = foldl (\<lambda>acc c. acc * 10 + digit_val c) 0 s"

text \<open>\<open>strconv.Atoi\<close> (and \<open>ParseInt(s, 10, 64)\<close>): an optional sign, at least one digit,
  and a value in the \<open>int64\<close> range; \<open>None\<close> is the error.\<close>

definition atoi_unsigned :: "string \<Rightarrow> int option" where
  "atoi_unsigned s = (if s \<noteq> [] \<and> list_all is_digit s then Some (digits_val s) else None)"

definition atoi :: "string \<Rightarrow> int option" where
  "atoi s =
     (let v = (case s of
                 [] \<Rightarrow> None
               | c # cs \<Rightarrow>
                   if c = CHR ''-'' then map_option uminus (atoi_unsigned cs)
                   else if c = CHR ''+'' then atoi_unsigned cs
                   else atoi_unsigned s)
      in case v of None \<Rightarrow> None | Some n \<Rightarrow> if is_int64 n then Some n else None)"

fun nat_dec :: "nat \<Rightarrow> string" where
  "nat_dec n = (if n < 10 then [char_of (48 + n)] else nat_dec (n div 10) @ [char_of (48 + n mod 10)])"

declare nat_dec.simps [simp del]

definition itoa :: "int \<Rightarrow> string" where
  "itoa n = (if n < 0 then CHR ''-'' # nat_dec (nat (- n)) else nat_dec (nat n))"

lemma digits_val_snoc [simp]: "digits_val (s @ [c]) = digits_val s * 10 + digit_val c"
  by (simp add: digits_val_def)

lemma digit_char_facts:
  assumes "n < 10"
  shows "is_digit (char_of (48 + n))" "digit_val (char_of (48 + n)) = int n"
proof -
  have "(48 + n) mod 256 = 48 + n" using assms by simp
  then show "is_digit (char_of (48 + n))" "digit_val (char_of (48 + n)) = int n"
    using assms by (simp_all add: is_digit_def digit_val_def)
qed

lemma nat_dec_correct:
  "nat_dec n \<noteq> [] \<and> list_all is_digit (nat_dec n) \<and> digits_val (nat_dec n) = int n"
proof (induction n rule: nat_dec.induct)
  case (1 n)
  show ?case
  proof (cases "n < 10")
    case True
    then show ?thesis
      using digit_char_facts [OF True] by (simp add: nat_dec.simps [of n] digits_val_def)
  next
    case False
    have "int (n div 10) * 10 + int (n mod 10) = int n" by presburger
    with False show ?thesis
      using "1.IH" digit_char_facts [of "n mod 10"] by (simp add: nat_dec.simps [of n])
  qed
qed

lemma is_digit_not_sign: "is_digit c \<Longrightarrow> c \<noteq> CHR ''-'' \<and> c \<noteq> CHR ''+''"
  by (auto simp: is_digit_def)

lemma atoi_itoa [simp]: "is_int64 n \<Longrightarrow> atoi (itoa n) = Some n"
proof -
  assume n: "is_int64 n"
  have dec: "atoi_unsigned (nat_dec m) = Some (int m)" for m
    using nat_dec_correct [of m] by (simp add: atoi_unsigned_def)
  have hd: "\<exists>c cs. nat_dec m = c # cs \<and> c \<noteq> CHR ''-'' \<and> c \<noteq> CHR ''+''" for m
    using nat_dec_correct [of m] is_digit_not_sign by (cases "nat_dec m") auto
  show ?thesis
  proof (cases "n < 0")
    case True
    with n dec show ?thesis by (simp add: atoi_def itoa_def)
  next
    case False
    with hd [of "nat n"] obtain c cs where c: "nat_dec (nat n) = c # cs"
      "c \<noteq> CHR ''-''" "c \<noteq> CHR ''+''" by auto
    with dec [of "nat n"] False have "atoi_unsigned (c # cs) = Some n" by simp
    with c n False show ?thesis by (simp add: atoi_def itoa_def)
  qed
qed

lemma atoi_is_int64: "atoi s = Some n \<Longrightarrow> is_int64 n"
  by (auto simp: atoi_def Let_def split: list.splits option.splits if_splits)

text \<open>\<open>strconv.ParseBool\<close>.\<close>

definition parse_bool :: "string \<Rightarrow> bool option" where
  "parse_bool s =
     (if s \<in> set [''1'', ''t'', ''T'', ''TRUE'', ''true'', ''True''] then Some True
      else if s \<in> set [''0'', ''f'', ''F'', ''FALSE'', ''false'', ''False''] then Some False
      else None)"

text \<open>Decimal numbers have no surrounding white space.\<close>

lemma strip_by_id: "(\<And>e. e \<in> set es \<Longrightarrow> e = [] \<or> \<not> has_prefix s e) \<Longrightarrow> strip_by es s = s"
proof -
  assume "\<And>e. e \<in> set es \<Longrightarrow> e = [] \<or> \<not> has_prefix s e"
  then have "find (\<lambda>e. e \<noteq> [] \<and> has_prefix s e) es = None" by (auto simp: find_None_all)
  then show ?thesis by (simp add: strip_by.simps [of es s])
qed

text \<open>Trimming is idempotent.\<close>

lemma strip_by_stripped: "e \<in> set es \<Longrightarrow> e = [] \<or> \<not> has_prefix (strip_by es s) e"
proof (induction es s rule: strip_by.induct)
  case (1 es s)
  show ?case
  proof (cases "find (\<lambda>e. e \<noteq> [] \<and> has_prefix s e) es")
    case None
    then have "strip_by es s = s" by (simp add: strip_by.simps [of es s])
    with None 1(2) show ?thesis by (auto simp: find_None_all)
  next
    case (Some f)
    then have "strip_by es s = strip_by es (drop (length f) s)" by (simp add: strip_by.simps [of es s])
    with 1(1) [OF Some 1(2)] show ?thesis by simp
  qed
qed

lemma trim_space_twice: "trim_space (trim_space s) = trim_space s"
proof -
  define t where "t = strip_by go_spaces s"
  define u where "u = strip_by (map rev go_spaces) (rev t)"
  obtain p where "rev t = p @ u" using strip_by_suffix unfolding u_def by blast
  then have t: "t = rev u @ rev p" by (metis rev_append rev_rev_ident)
  have "strip_by go_spaces (rev u) = rev u"
  proof (rule strip_by_id)
    fix e assume "e \<in> set go_spaces"
    then have "e = [] \<or> \<not> has_prefix t e" unfolding t_def by (rule strip_by_stripped)
    then show "e = [] \<or> \<not> has_prefix (rev u) e" unfolding t by (auto simp: has_prefix_iff)
  qed
  moreover have "strip_by (map rev go_spaces) u = u"
    by (rule strip_by_id) (unfold u_def, rule strip_by_stripped)
  ultimately show ?thesis by (simp add: trim_space_def flip: t_def u_def)
qed

lemma go_spaces_ends:
  "list_all (\<lambda>e. e \<noteq> [] \<and> \<not> is_digit (hd e) \<and> hd e \<noteq> CHR ''-'' \<and> \<not> is_digit (last e)) go_spaces"
  by code_simp

lemma trim_space_id:
  assumes "s \<noteq> []" and "is_digit (hd s) \<or> hd s = CHR ''-''" and "is_digit (last s)"
  shows "trim_space s = s"
proof -
  have "\<not> has_prefix s e" if "e \<in> set go_spaces" for e
  proof -
    have "e \<noteq> []" "\<not> is_digit (hd e)" "hd e \<noteq> CHR ''-''"
      using that go_spaces_ends by (auto simp: list_all_iff)
    then show ?thesis using assms by (metis has_prefix_iff hd_append2)
  qed
  then have 1: "strip_by go_spaces s = s" by (intro strip_by_id) auto
  have "\<not> has_prefix (rev s) (rev e)" if "e \<in> set go_spaces" for e
  proof -
    have "e \<noteq> []" "\<not> is_digit (last e)"
      using that go_spaces_ends by (auto simp: list_all_iff)
    then show ?thesis using assms by (metis has_prefix_iff hd_append2 hd_rev rev_is_Nil_conv)
  qed
  then have "strip_by (map rev go_spaces) (rev s) = rev s" by (intro strip_by_id) auto
  with 1 show ?thesis by (simp add: trim_space_def)
qed

lemma trim_space_itoa: "trim_space (itoa n) = itoa n"
proof -
  have "nat_dec m \<noteq> []" "is_digit (hd (nat_dec m))" "is_digit (last (nat_dec m))" for m
    using nat_dec_correct [of m] by (auto simp: list_all_iff)
  then show ?thesis by (intro trim_space_id) (auto simp: itoa_def)
qed

end
