(* ===== verification/GoFloat.thy ===== *)
theory GoFloat
  imports Complex_Main GoStrings
begin

text \<open>
  Go's \<open>float64\<close>: a finite value is the rational it stands for, and every operation of the
  source that rounds applies \<open>fl64\<close>, IEEE 754 binary64 rounding to nearest, ties to even,
  with gradual underflow. Infinities, NaN and the sign of zero are not represented. The
  conversion \<open>int64(f)\<close> is the amd64 one: out of range gives the minimum \<open>int64\<close>.
\<close>

section \<open>Rounding\<close>

definition pow2 :: "int \<Rightarrow> rat" where
  "pow2 e = (if 0 \<le> e then 2 ^ nat e else 1 / 2 ^ nat (- e))"

fun nat_log2 :: "nat \<Rightarrow> nat" where
  "nat_log2 n = (if n < 2 then 0 else Suc (nat_log2 (n div 2)))"

declare nat_log2.simps [simp del]

definition rat_log2 :: "rat \<Rightarrow> int" where
  "rat_log2 x =
     (let (p, q) = quotient_of x;
          e = int (nat_log2 (nat p)) - int (nat_log2 (nat q))
      in if x < pow2 e then e - 1 else e)"

definition round_half_even :: "rat \<Rightarrow> int" where
  "round_half_even x =
     (let f = \<lfloor>x\<rfloor>; d = x - of_int f
      in if d < 1 / 2 then f else if 1 / 2 < d then f + 1 else if even f then f else f + 1)"

definition fl64 :: "rat \<Rightarrow> rat" where
  "fl64 x =
     (if x = 0 then 0
      else let e = max (rat_log2 \<bar>x\<bar> - 52) (- 1074)
           in sgn x * of_int (round_half_even (\<bar>x\<bar> / pow2 e)) * pow2 e)"

definition f64_finite :: "rat \<Rightarrow> bool" where
  "f64_finite x \<longleftrightarrow> \<bar>x\<bar> < 2 ^ 1024"

text \<open>\<open>math.Round\<close> (half away from zero), \<open>math.Ceil\<close> and the conversion to \<open>int64\<close>.\<close>

definition go_round :: "rat \<Rightarrow> int" where
  "go_round x = (if x < 0 then - \<lfloor>- x + 1 / 2\<rfloor> else \<lfloor>x + 1 / 2\<rfloor>)"

definition trunc_rat :: "rat \<Rightarrow> int" where
  "trunc_rat x = (if x < 0 then - \<lfloor>- x\<rfloor> else \<lfloor>x\<rfloor>)"

definition int64_of_float :: "rat \<Rightarrow> int" where
  "int64_of_float x = (let n = trunc_rat x in if is_int64 n then n else min_int64)"

lemma nat_log2_bounds: "0 < n \<Longrightarrow> 2 ^ nat_log2 n \<le> n \<and> n < 2 ^ Suc (nat_log2 n)"
proof (induction n rule: nat_log2.induct)
  case (1 n)
  show ?case
  proof (cases "n < 2")
    case True
    with "1.prems" show ?thesis by (simp add: nat_log2.simps [of n])
  next
    case False
    then have "0 < n div 2" by simp
    with "1.IH" False have "2 ^ nat_log2 (n div 2) \<le> n div 2 \<and> n div 2 < 2 ^ Suc (nat_log2 (n div 2))"
      by blast
    with False show ?thesis by (simp add: nat_log2.simps [of n]) linarith
  qed
qed

lemma round_half_even_int [simp]: "round_half_even (of_int n) = n"
  by (simp add: round_half_even_def)

lemma pow2_pos [simp]: "0 < pow2 e"
  by (simp add: pow2_def)

lemma pow2_neq_0 [simp]: "pow2 e \<noteq> 0"
  using pow2_pos [of e] by linarith

lemma rat_log2_of_nat: "0 < n \<Longrightarrow> rat_log2 (of_nat n) = int (nat_log2 n)"
proof -
  assume n: "0 < n"
  have "(2 :: rat) ^ nat_log2 n \<le> of_nat n"
    using nat_log2_bounds [OF n] by (metis of_nat_le_iff of_nat_numeral of_nat_power)
  moreover have "quotient_of (of_nat n) = (int n, 1)"
    using quotient_of_int [of "int n"] by (simp add: of_int_def)
  moreover have "nat_log2 1 = 0" by (simp add: nat_log2.simps)
  ultimately show ?thesis by (simp add: rat_log2_def pow2_def)
qed

text \<open>Integers of magnitude at most \<open>2 ^ 53\<close> are exactly representable.\<close>

lemma fl64_of_nat:
  assumes "n \<le> 2 ^ 53"
  shows "fl64 (of_nat n) = of_nat n"
proof (cases "n = 0")
  case True
  then show ?thesis by (simp add: fl64_def)
next
  case False
  then have n: "0 < n" by simp
  define e where "e = max (int (nat_log2 n) - 52) (- 1074)"
  have "\<exists>m. of_nat n / pow2 e = of_int m"
  proof (cases "e \<le> 0")
    case True
    then have "of_nat n / pow2 e = (of_int (int n * 2 ^ nat (- e)) :: rat)"
      by (auto simp: pow2_def)
    then show ?thesis ..
  next
    case pos: False
    have "2 ^ nat_log2 n \<le> (2 :: nat) ^ 53"
      using nat_log2_bounds [OF n] assms by linarith
    then have "nat_log2 n \<le> 53" by (rule power_le_imp_le_exp [rotated]) simp
    with pos have l: "nat_log2 n = 53" and e: "e = 1" by (auto simp: e_def)
    from l nat_log2_bounds [OF n] assms have "n = 2 ^ 53" by simp
    with e have "of_nat n / pow2 e = (of_int (2 ^ 52) :: rat)" by (simp add: pow2_def)
    then show ?thesis ..
  qed
  then obtain m where m: "of_nat n / pow2 e = of_int m" ..
  then have "of_int m * pow2 e = of_nat n" by (simp add: field_simps)
  with n m show ?thesis
    by (simp add: fl64_def rat_log2_of_nat Let_def flip: e_def)
qed

lemma fl64_minus: "fl64 (- x) = - fl64 x"
  by (simp add: fl64_def sgn_minus Let_def)

lemma fl64_of_int: "\<bar>n\<bar> \<le> 2 ^ 53 \<Longrightarrow> fl64 (of_int n) = of_int n"
proof (cases "0 \<le> n")
  case True
  moreover assume "\<bar>n\<bar> \<le> 2 ^ 53"
  ultimately show ?thesis using fl64_of_nat [of "nat n"] by (simp add: nat_le_iff)
next
  case False
  moreover assume "\<bar>n\<bar> \<le> 2 ^ 53"
  ultimately show ?thesis
    using fl64_of_nat [of "nat (- n)"] fl64_minus [of "of_int (- n)"] by (simp add: nat_le_iff)
qed

lemma trunc_rat_of_int [simp]: "trunc_rat (of_int n) = n"
  by (simp add: trunc_rat_def flip: of_int_minus)

lemma int64_of_float_of_int: "is_int64 n \<Longrightarrow> int64_of_float (of_int n) = n"
  by (simp add: int64_of_float_def)

lemma go_round_error: "\<bar>of_int (go_round x) - x\<bar> \<le> 1 / 2"
proof -
  define y where "y = (if x < 0 then - x + 1 / 2 else x + 1 / 2)"
  define k where "k = \<lfloor>y\<rfloor>"
  have "of_int k \<le> y" "y < of_int k + 1" unfolding k_def by linarith+
  moreover have "go_round x = (if x < 0 then - k else k)"
    by (simp add: go_round_def y_def k_def)
  ultimately show ?thesis unfolding y_def
    by (cases "x < 0") (simp_all add: abs_if field_simps)
qed

section \<open>Decimal literals\<close>

text \<open>
  The value of a literal of JSON's number grammar, and \<open>strconv.ParseFloat(s, 64)\<close> on it:
  the literal's value rounded, an error (\<open>None\<close>) when it is out of the finite range.
\<close>

definition signed_digits :: "string \<Rightarrow> int option" where
  "signed_digits s =
     (case s of
        [] \<Rightarrow> None
      | c # cs \<Rightarrow>
          if c = CHR ''-'' then map_option uminus (atoi_unsigned cs)
          else if c = CHR ''+'' then atoi_unsigned cs
          else atoi_unsigned s)"

definition split_number :: "string \<Rightarrow> string \<times> string \<times> string" where
  "split_number s =
     (let ip = takeWhile is_digit s; r = dropWhile is_digit s;
          fp = (case r of [] \<Rightarrow> [] | c # t \<Rightarrow> if c = CHR ''.'' then takeWhile is_digit t else []);
          r' = (case r of [] \<Rightarrow> [] | c # t \<Rightarrow> if c = CHR ''.'' then dropWhile is_digit t else r)
      in (ip, fp, r'))"

definition parse_number :: "string \<Rightarrow> rat option" where
  "parse_number s =
     (let neg = (s \<noteq> [] \<and> hd s = CHR ''-'');
          (ip, fp, r) = split_number (if neg then tl s else s);
          ex = (case r of [] \<Rightarrow> Some 0
                | c # t \<Rightarrow> if c \<in> {CHR ''e'', CHR ''E''} then signed_digits t else None)
      in case ex of
           None \<Rightarrow> None
         | Some e \<Rightarrow>
             if ip = [] then None
             else Some ((if neg then -1 else 1) * of_int (digits_val (ip @ fp))
                        * (let k = e - int (length fp)
                           in if 0 \<le> k then 10 ^ nat k else 1 / 10 ^ nat (- k))))"

definition parse_float64 :: "string \<Rightarrow> rat option" where
  "parse_float64 s =
     (case parse_number s of
        None \<Rightarrow> None
      | Some x \<Rightarrow> let f = fl64 x in if f64_finite f then Some f else None)"

end
