(* ===== verification/Json.thy ===== *)
theory Json
  imports GoFloat "HOL-Library.Countable" "HOL-Library.Char_ord" "HOL-Library.List_Lexorder"
begin

text \<open>
  The Go values of type \<open>any\<close> that hold JSON-shaped data. A \<open>map[string]any\<close> is
  \<open>JObj kvs\<close> with distinct keys (\<open>json_wf\<close>); the list order is the order in which
  \<open>range\<close> visits the map in the run at hand, so a theorem that holds for every list holds
  for every iteration order. Numbers keep Go's dynamic type: \<open>JNum\<close> is a \<open>json.Number\<close>
  literal (requests are decoded with \<open>UseNumber\<close>), \<open>JFlt\<close> a \<open>float64\<close>, \<open>JInt\<close> an
  integer of the code; \<open>JStrs\<close> is a \<open>[]string\<close>. \<open>canon\<close> sorts the members of every
  object, as \<open>json.Marshal\<close> does: two values marshal to the same bytes iff their canonical
  forms agree.
\<close>

datatype json =
    JNull
  | JBool bool
  | JNum string
  | JFlt rat
  | JInt int
  | JStr string
  | JStrs "string list"
  | JArr "json list"
  | JObj "(string \<times> json) list"

instance json :: countable
  by countable_datatype

type_synonym members = "(string \<times> json) list"

lemma size_member [termination_simp]: "(k, v) \<in> set kvs \<Longrightarrow> size v < size (JObj kvs)"
  by (induction kvs) auto

lemma size_element [termination_simp]: "v \<in> set xs \<Longrightarrow> size v < size (JArr xs)"
  by (induction xs) auto

lemma size_member_list [termination_simp]:
  "(k, v) \<in> set kvs \<Longrightarrow> size v < Suc (size_list (size_prod (\<lambda>_. 0) size) kvs)"
  by (induction kvs) auto

section \<open>Go's type assertions\<close>

fun as_obj :: "json \<Rightarrow> members option" where
  "as_obj (JObj kvs) = Some kvs"
| "as_obj _ = None"

fun as_str :: "json \<Rightarrow> string option" where
  "as_str (JStr s) = Some s"
| "as_str _ = None"

fun as_bool :: "json \<Rightarrow> bool option" where
  "as_bool (JBool b) = Some b"
| "as_bool _ = None"

fun as_arr :: "json \<Rightarrow> json list option" where
  "as_arr (JArr xs) = Some xs"
| "as_arr _ = None"

text \<open>\<open>v, _ := m[k].(string)\<close> and \<open>.(bool)\<close>: the zero value on a missing key or another type.\<close>

definition str_member :: "members \<Rightarrow> string \<Rightarrow> string" where
  "str_member m k = (case map_of m k of Some (JStr s) \<Rightarrow> s | _ \<Rightarrow> [])"

definition bool_member :: "members \<Rightarrow> string \<Rightarrow> bool" where
  "bool_member m k = (case map_of m k of Some (JBool b) \<Rightarrow> b | _ \<Rightarrow> False)"

lemma as_obj_Some [simp]: "as_obj v = Some m \<longleftrightarrow> v = JObj m"
  by (cases v) auto

lemma as_str_Some [simp]: "as_str v = Some s \<longleftrightarrow> v = JStr s"
  by (cases v) auto

lemma as_arr_Some [simp]: "as_arr v = Some xs \<longleftrightarrow> v = JArr xs"
  by (cases v) auto

lemma as_bool_Some [simp]: "as_bool v = Some b \<longleftrightarrow> v = JBool b"
  by (cases v) auto

section \<open>Well-formed values\<close>

fun json_wf :: "json \<Rightarrow> bool" where
  "json_wf (JArr xs) = list_all json_wf xs"
| "json_wf (JObj kvs) = (distinct (map fst kvs) \<and> list_all (\<lambda>(k, v). json_wf v) kvs)"
| "json_wf _ = True"

definition members_wf :: "members \<Rightarrow> bool" where
  "members_wf kvs \<longleftrightarrow> json_wf (JObj kvs)"

lemma members_wfD:
  assumes "members_wf kvs"
  shows "distinct (map fst kvs)" and "(k, v) \<in> set kvs \<Longrightarrow> json_wf v"
  using assms by (auto simp: members_wf_def list_all_iff)

lemma json_wf_lookup: "json_wf (JObj kvs) \<Longrightarrow> map_of kvs k = Some v \<Longrightarrow> json_wf v"
  by (auto simp: list_all_iff dest: map_of_SomeD)

section \<open>Canonical form and equality\<close>

fun canon :: "json \<Rightarrow> json" where
  "canon (JArr xs) = JArr (map canon xs)"
| "canon (JObj kvs) = JObj (sort_key fst (map (\<lambda>(k, v). (k, canon v)) kvs))"
| "canon v = v"

definition deep_equal :: "json \<Rightarrow> json \<Rightarrow> bool" where
  "deep_equal a b \<longleftrightarrow> canon a = canon b"

lemma deep_equal_refl [simp]: "deep_equal a a"
  by (simp add: deep_equal_def)

lemma deep_equal_sym: "deep_equal a b \<Longrightarrow> deep_equal b a"
  by (simp add: deep_equal_def)

lemma deep_equal_trans [trans]: "deep_equal a b \<Longrightarrow> deep_equal b c \<Longrightarrow> deep_equal a c"
  by (simp add: deep_equal_def)

lemma map_of_canon_members:
  "map_of (map (\<lambda>(k, v). (k, f v)) kvs) k = map_option f (map_of kvs k)"
  by (induction kvs) auto

lemma sort_members_eq_iff:
  fixes xs ys :: "(string \<times> 'a) list"
  assumes "distinct (map fst xs)" and "distinct (map fst ys)"
  shows "sort_key fst xs = sort_key fst ys \<longleftrightarrow> map_of xs = map_of ys"
proof
  assume "sort_key fst xs = sort_key fst ys"
  then have "set xs = set ys" by (metis set_sort)
  with assms show "map_of xs = map_of ys" by (simp add: map_of_inject_set)
next
  assume "map_of xs = map_of ys"
  with assms have eq: "set xs = set ys" by (simp add: map_of_inject_set)
  have inj: "inj_on fst (set (sort_key fst xs) \<union> set (sort_key fst ys))"
    using assms eq by (simp add: distinct_map)
  have d: "distinct (map fst (sort_key fst xs))" "distinct (map fst (sort_key fst ys))"
    using assms by (simp_all add: distinct_map)
  show "sort_key fst xs = sort_key fst ys"
    by (rule map_sorted_distinct_set_unique [OF inj]) (use eq d in simp_all)
qed

text \<open>Two well-formed objects are equal iff they map the same keys to equal values.\<close>

lemma deep_equal_obj:
  assumes "distinct (map fst a)" and "distinct (map fst b)"
  shows "deep_equal (JObj a) (JObj b) \<longleftrightarrow>
           (\<forall>k. map_option canon (map_of a k) = map_option canon (map_of b k))"
proof -
  have "distinct (map fst (map (\<lambda>(k, v). (k, canon v)) a))"
    and "distinct (map fst (map (\<lambda>(k, v). (k, canon v)) b))"
    using assms by (simp_all add: comp_def case_prod_beta)
  then show ?thesis
    by (simp add: deep_equal_def sort_members_eq_iff fun_eq_iff map_of_canon_members)
qed

lemma deep_equal_objD: "deep_equal (JObj a) v \<Longrightarrow> \<exists>b. v = JObj b"
  by (cases v) (auto simp: deep_equal_def)

section \<open>Nulls\<close>

fun has_null :: "json \<Rightarrow> bool" where
  "has_null JNull = True"
| "has_null (JObj kvs) = list_ex (\<lambda>(k, v). has_null v) kvs"
| "has_null (JArr xs) = list_ex has_null xs"
| "has_null _ = False"

lemma has_null_member: "\<not> has_null (JObj kvs) \<Longrightarrow> (k, v) \<in> set kvs \<Longrightarrow> \<not> has_null v"
  by (auto simp: list_ex_iff)

end
