(* ===== verification/MergePatch.thy ===== *)
theory MergePatch
  imports Json
begin

text \<open>
  \<open>internal/jsonmergepatch\<close>: RFC 7396 deltas between decoded documents. \<open>diff_objects\<close>,
  \<open>apply_any\<close>, \<open>has_null\<close> and \<open>deep_equal\<close> follow the functions of the same name;
  \<open>diff_doc\<close>, \<open>diff_or_full\<close> and \<open>apply_doc\<close> are \<open>Diff\<close>, \<open>DiffOrFull\<close> and \<open>Apply\<close> on bytes,
  where the parameters \<open>dec\<close>, \<open>enc\<close> and \<open>cmpct\<close> stand for \<open>json.Unmarshal\<close>,
  \<open>json.Marshal\<close> and \<open>json.Compact\<close>. A Go map that is \<open>nil\<close> or empty is the empty list.
\<close>

section \<open>The algorithms\<close>

fun diff_objects :: "members \<Rightarrow> members \<Rightarrow> members" where
  "diff_objects prev cur =
     concat (map (\<lambda>(k, cv).
        case map_of prev k of
          None \<Rightarrow> [(k, cv)]
        | Some pv \<Rightarrow>
            if deep_equal pv cv then []
            else (case pv of
                    JObj pm \<Rightarrow>
                      (case cv of
                         JObj cm \<Rightarrow>
                           (let sub = diff_objects pm cm
                            in if sub = [] then [] else [(k, JObj sub)])
                       | _ \<Rightarrow> [(k, cv)])
                  | _ \<Rightarrow> [(k, cv)])) cur)
     @ map (\<lambda>(k, _). (k, JNull)) (filter (\<lambda>(k, _). map_of cur k = None) prev)"

declare diff_objects.simps [simp del]

text \<open>The document-level patch: \<open>Diff\<close> after decoding.\<close>

definition diff_any :: "json \<Rightarrow> json \<Rightarrow> json" where
  "diff_any prev cur =
     (case (prev, cur) of
        (JObj p, JObj c) \<Rightarrow> JObj (diff_objects p c)
      | _ \<Rightarrow> cur)"

definition obj_or_empty :: "json \<Rightarrow> members" where
  "obj_or_empty v = (case v of JObj m \<Rightarrow> m | _ \<Rightarrow> [])"

fun apply_any :: "json \<Rightarrow> json \<Rightarrow> json" where
  "apply_any prev (JObj patch) =
     JObj (foldl (\<lambda>out (k, v).
        if v = JNull then AList.delete k out
        else AList.update k
          (apply_any (case map_of out k of Some existing \<Rightarrow> existing | None \<Rightarrow> JNull) v) out)
        (obj_or_empty prev) patch)"
| "apply_any prev patch = patch"

declare apply_any.simps(1) [simp del]

datatype patch_format = FormatNone | FormatMerge | FormatFull | FormatDeleted

datatype patch_error = DecodePrev | DecodeCurr | DecodePatch | CompactFailed

type_synonym bytes = string

definition compact_json :: "(bytes \<Rightarrow> bytes option) \<Rightarrow> bytes \<Rightarrow> (patch_error, bytes) result" where
  "compact_json cmpct raw =
     (case cmpct raw of
        None \<Rightarrow> Inl CompactFailed
      | Some b \<Rightarrow> if b = [] then Inl CompactFailed else Inr b)"

definition diff_doc ::
  "(bytes \<Rightarrow> json option) \<Rightarrow> (json \<Rightarrow> bytes) \<Rightarrow> (bytes \<Rightarrow> bytes option) \<Rightarrow>
   bytes \<Rightarrow> bytes \<Rightarrow> (patch_error, bytes) result" where
  "diff_doc dec enc cmpct prev cur =
     (case dec prev of
        None \<Rightarrow> Inl DecodePrev
      | Some p \<Rightarrow>
          (case dec cur of
             None \<Rightarrow> Inl DecodeCurr
           | Some c \<Rightarrow>
               (case (p, c) of
                  (JObj pm, JObj cm) \<Rightarrow>
                    (let patch = diff_objects pm cm
                     in if patch = [] then Inr ''{}'' else Inr (enc (JObj patch)))
                | _ \<Rightarrow> compact_json cmpct cur)))"

definition contains_null :: "(bytes \<Rightarrow> json option) \<Rightarrow> bytes \<Rightarrow> bool" where
  "contains_null dec raw = (case dec raw of None \<Rightarrow> False | Some v \<Rightarrow> has_null v)"

definition diff_or_full ::
  "(bytes \<Rightarrow> json option) \<Rightarrow> (json \<Rightarrow> bytes) \<Rightarrow> (bytes \<Rightarrow> bytes option) \<Rightarrow>
   bytes \<Rightarrow> bytes \<Rightarrow> (patch_error, bytes \<times> patch_format) result" where
  "diff_or_full dec enc cmpct prev cur =
     (if contains_null dec cur
      then bind_result (compact_json cmpct cur) (\<lambda>b. Inr (b, FormatFull))
      else bind_result (diff_doc dec enc cmpct prev cur) (\<lambda>p. Inr (p, FormatMerge)))"

definition apply_doc ::
  "(bytes \<Rightarrow> json option) \<Rightarrow> (json \<Rightarrow> bytes) \<Rightarrow> bytes \<Rightarrow> bytes \<Rightarrow> (patch_error, bytes) result" where
  "apply_doc dec enc prev patch =
     (case dec prev of
        None \<Rightarrow> Inl DecodePrev
      | Some p \<Rightarrow>
          (case dec patch of
             None \<Rightarrow> Inl DecodePatch
           | Some d \<Rightarrow> Inr (enc (apply_any p d))))"

section \<open>What applying a patch does to one key\<close>

text \<open>Abstractly, a patch acts pointwise on the finite map of members.\<close>

definition patch_key :: "json option \<Rightarrow> json option \<Rightarrow> json option" where
  "patch_key old p =
     (case p of
        None \<Rightarrow> old
      | Some JNull \<Rightarrow> None
      | Some v \<Rightarrow> Some (apply_any (case old of Some e \<Rightarrow> e | None \<Rightarrow> JNull) v))"

lemma patch_key_Some: "v \<noteq> JNull \<Longrightarrow>
    patch_key old (Some v) = Some (apply_any (case old of Some e \<Rightarrow> e | None \<Rightarrow> JNull) v)"
  by (cases v) (simp_all add: patch_key_def)

lemma patch_key_simps [simp]:
  "patch_key old None = old"
  "patch_key old (Some JNull) = None"
  by (simp_all add: patch_key_def)

definition apply_step :: "members \<Rightarrow> string \<times> json \<Rightarrow> members" where
  "apply_step out = (\<lambda>(k, v).
     if v = JNull then AList.delete k out
     else AList.update k
       (apply_any (case map_of out k of Some existing \<Rightarrow> existing | None \<Rightarrow> JNull) v) out)"

lemma apply_any_obj: "apply_any prev (JObj patch) = JObj (foldl apply_step (obj_or_empty prev) patch)"
  unfolding apply_step_def apply_any.simps(1) ..

lemma map_of_apply_step:
  "map_of (apply_step out (k, v)) k' = (if k' = k then patch_key (map_of out k) (Some v) else map_of out k')"
  by (auto simp: apply_step_def AList.delete_conv' AList.update_conv' patch_key_Some)

lemma map_of_apply:
  "distinct (map fst patch) \<Longrightarrow>
   map_of (foldl apply_step out patch) k = patch_key (map_of out k) (map_of patch k)"
proof (induction patch arbitrary: out)
  case Nil
  then show ?case by simp
next
  case (Cons kv patch)
  obtain k0 v0 where kv: "kv = (k0, v0)" by (cases kv)
  from Cons.prems kv have "map_of patch k0 = None" by (simp add: map_of_eq_None_iff)
  with Cons kv show ?case by (simp add: map_of_apply_step)
qed

lemma distinct_apply_step: "distinct (map fst out) \<Longrightarrow> distinct (map fst (apply_step out kv))"
  by (cases kv) (simp add: apply_step_def distinct_delete AList.distinct_update)

lemma distinct_apply:
  "distinct (map fst out) \<Longrightarrow> distinct (map fst (foldl apply_step out patch))"
  by (induction patch arbitrary: out) (auto intro: distinct_apply_step)

section \<open>What a diff says about one key\<close>

definition diff_key :: "json option \<Rightarrow> json option \<Rightarrow> json option" where
  "diff_key p c =
     (case c of
        None \<Rightarrow> (case p of None \<Rightarrow> None | Some _ \<Rightarrow> Some JNull)
      | Some cv \<Rightarrow>
          (case p of
             None \<Rightarrow> Some cv
           | Some pv \<Rightarrow>
               if deep_equal pv cv then None
               else (case pv of
                       JObj pm \<Rightarrow>
                         (case cv of
                            JObj cm \<Rightarrow>
                              (let sub = diff_objects pm cm
                               in if sub = [] then None else Some (JObj sub))
                          | _ \<Rightarrow> Some cv)
                     | _ \<Rightarrow> Some cv)))"

definition opt_member :: "string \<Rightarrow> json option \<Rightarrow> members" where
  "opt_member k v = (case v of None \<Rightarrow> [] | Some x \<Rightarrow> [(k, x)])"

definition opt_members :: "(string \<Rightarrow> json \<Rightarrow> json option) \<Rightarrow> members \<Rightarrow> members" where
  "opt_members f kvs = concat (map (\<lambda>(k, v). opt_member k (f k v)) kvs)"

lemma opt_members_simps [simp]:
  "opt_members f [] = []"
  "opt_members f ((k, v) # kvs) = opt_member k (f k v) @ opt_members f kvs"
  by (simp_all add: opt_members_def)

lemma opt_members_key: "kx \<in> set (opt_members f kvs) \<Longrightarrow> fst kx \<in> fst ` set kvs"
  by (induction kvs) (auto simp: opt_member_def split: option.splits)

lemma map_of_opt_members:
  "distinct (map fst kvs) \<Longrightarrow> map_of (opt_members f kvs) k = Option.bind (map_of kvs k) (f k)"
proof (induction kvs)
  case Nil
  then show ?case by simp
next
  case (Cons kv kvs)
  obtain k0 v0 where kv: "kv = (k0, v0)" by (cases kv)
  with Cons.prems have "map_of kvs k0 = None" by (simp add: map_of_eq_None_iff)
  with Cons kv show ?case
    by (cases "f k0 v0") (auto simp: opt_member_def map_add_def split: option.splits)
qed

lemma distinct_opt_members: "distinct (map fst kvs) \<Longrightarrow> distinct (map fst (opt_members f kvs))"
proof (induction kvs)
  case (Cons kv kvs)
  obtain k0 v0 where kv: "kv = (k0, v0)" by (cases kv)
  with Cons.prems have "k0 \<notin> fst ` set (opt_members f kvs)"
    by (auto dest: opt_members_key)
  with Cons kv show ?case by (cases "f k0 v0") (simp_all add: opt_member_def)
qed simp

lemma diff_objects_keys:
  "diff_objects prev cur =
     opt_members (\<lambda>k cv. diff_key (map_of prev k) (Some cv)) cur
     @ map (\<lambda>(k, _). (k, JNull)) (filter (\<lambda>(k, _). map_of cur k = None) prev)"
proof -
  have "(\<lambda>(k, cv).
        case map_of prev k of
          None \<Rightarrow> [(k, cv)]
        | Some pv \<Rightarrow>
            if deep_equal pv cv then []
            else (case pv of
                    JObj pm \<Rightarrow>
                      (case cv of
                         JObj cm \<Rightarrow>
                           (let sub = diff_objects pm cm
                            in if sub = [] then [] else [(k, JObj sub)])
                       | _ \<Rightarrow> [(k, cv)])
                  | _ \<Rightarrow> [(k, cv)])) =
      (\<lambda>(k, cv). opt_member k (diff_key (map_of prev k) (Some cv)))"
    by (auto simp: fun_eq_iff opt_member_def diff_key_def Let_def split: option.splits json.splits)
  then show ?thesis by (subst diff_objects.simps) (simp only: opt_members_def)
qed

lemma map_of_removed:
  "map_of (map (\<lambda>(k, _). (k, JNull)) (filter (\<lambda>(k, _). P k) kvs)) k =
     (if P k \<and> map_of kvs k \<noteq> None then Some JNull else None)"
  by (induction kvs) auto

lemma map_of_diff:
  assumes "distinct (map fst cur)"
  shows "map_of (diff_objects prev cur) k = diff_key (map_of prev k) (map_of cur k)"
  using map_of_opt_members [OF assms, where f = "\<lambda>k cv. diff_key (map_of prev k) (Some cv)"]
  by (auto simp: diff_objects_keys map_of_removed map_add_def diff_key_def split: option.splits)

lemma distinct_diff:
  assumes "distinct (map fst prev)" and "distinct (map fst cur)"
  shows "distinct (map fst (diff_objects prev cur))"
proof -
  let ?f = "\<lambda>k cv. diff_key (map_of prev k) (Some cv)"
  let ?rems = "map (\<lambda>(k, _). (k, JNull)) (filter (\<lambda>(k, _). map_of cur k = None) prev)"
  have "distinct (map fst ?rems)"
    using assms(1) by (simp add: comp_def case_prod_beta distinct_map_filter)
  moreover have "k \<notin> fst ` set ?rems" if "k \<in> fst ` set (opt_members ?f cur)" for k
    using that by (force simp: map_of_eq_None_iff dest: opt_members_key)
  ultimately show ?thesis
    using distinct_opt_members [OF assms(2), of ?f]
    by (simp only: diff_objects_keys map_append distinct_append set_map) blast
qed

section \<open>Round trip\<close>

lemma apply_any_scalar: "as_obj patch = None \<Longrightarrow> apply_any prev patch = patch"
  by (cases patch) auto

lemma map_of_apply_any:
  assumes "distinct (map fst patch)"
  shows "\<exists>out. apply_any prev (JObj patch) = JObj out \<and>
           (distinct (map fst (obj_or_empty prev)) \<longrightarrow> distinct (map fst out)) \<and>
           (\<forall>k. map_of out k = patch_key (map_of (obj_or_empty prev) k) (map_of patch k))"
  using assms by (auto simp: apply_any_obj map_of_apply intro: distinct_apply)

lemma apply_fresh:
  assumes "json_wf v" and "\<not> has_null v" and "obj_or_empty prev = []"
  shows "deep_equal (apply_any prev v) v"
  using assms
proof (induction v arbitrary: prev rule: measure_induct_rule [of size])
  case (less v)
  show ?case
  proof (cases "as_obj v")
    case None
    then show ?thesis by (simp add: apply_any_scalar)
  next
    case (Some kvs)
    then have v: "v = JObj kvs" by simp
    with less.prems have d: "distinct (map fst kvs)" by simp
    obtain out where out: "apply_any prev v = JObj out" "distinct (map fst out)"
      and look: "\<And>k. map_of out k = patch_key None (map_of kvs k)"
      using map_of_apply_any [OF d, of prev] less.prems(3) v by auto
    have "map_option canon (map_of out k) = map_option canon (map_of kvs k)" for k
    proof (cases "map_of kvs k")
      case None
      with look show ?thesis by simp
    next
      case (Some x)
      then have mem: "(k, x) \<in> set kvs" by (rule map_of_SomeD)
      with less.prems v have "json_wf x" "\<not> has_null x" "x \<noteq> JNull"
        by (auto simp: list_all_iff list_ex_iff)
      moreover have "size x < size v" using size_member [OF mem] by (simp only: v)
      ultimately have "deep_equal (apply_any JNull x) x"
        using less.IH by (simp add: obj_or_empty_def)
      with \<open>x \<noteq> JNull\<close> Some show ?thesis by (simp add: look patch_key_Some deep_equal_def)
    qed
    then show ?thesis using out d v by (simp add: deep_equal_obj)
  qed
qed

lemma diff_key_agree:
  "map_option canon p = map_option canon c \<Longrightarrow> diff_key p c = None"
  by (cases p; cases c) (simp_all add: diff_key_def deep_equal_def)

lemma apply_diff_objects:
  assumes "json_wf (JObj p)" and "json_wf (JObj c)" and "\<not> has_null (JObj c)"
  shows "deep_equal (apply_any (JObj p) (JObj (diff_objects p c))) (JObj c)"
  using assms
proof (induction "size (JObj c)" arbitrary: p c rule: less_induct)
  case less
  then have dp: "distinct (map fst p)" and dc: "distinct (map fst c)" by auto
  obtain out where out: "apply_any (JObj p) (JObj (diff_objects p c)) = JObj out" "distinct (map fst out)"
    and look: "\<And>k. map_of out k = patch_key (map_of p k) (diff_key (map_of p k) (map_of c k))"
    using map_of_apply_any [OF distinct_diff [OF dp dc], of "JObj p"] dp
    by (auto simp: obj_or_empty_def map_of_diff [OF dc])
  have "map_option canon (map_of out k) = map_option canon (map_of c k)" for k
  proof (cases "map_of c k")
    case None
    then show ?thesis by (auto simp: look diff_key_def split: option.splits)
  next
    case (Some cv)
    then have mem: "(k, cv) \<in> set c" by (rule map_of_SomeD)
    with less.prems have cv: "json_wf cv" "\<not> has_null cv" "cv \<noteq> JNull"
      by (auto simp: list_all_iff list_ex_iff)
    have fresh: "deep_equal (apply_any x cv) cv" if "obj_or_empty x = []" for x
      using apply_fresh [OF cv(1,2) that] .
    show ?thesis
    proof (cases "map_of p k")
      case None
      with Some cv(3) fresh [of JNull] show ?thesis
        by (simp add: look diff_key_def patch_key_Some deep_equal_def obj_or_empty_def)
    next
      case pv: (Some pv)
      show ?thesis
      proof (cases "deep_equal pv cv")
        case True
        with Some pv show ?thesis by (simp add: look diff_key_def deep_equal_def)
      next
        case ne: False
        show ?thesis
        proof (cases "\<exists>pm cm. pv = JObj pm \<and> cv = JObj cm")
          case False
          then have "diff_key (map_of p k) (map_of c k) = Some cv"
            using Some pv ne by (auto simp: diff_key_def split: json.splits)
          moreover have "deep_equal (apply_any pv cv) cv"
            using False fresh [of pv] by (cases pv; cases cv) (auto simp: obj_or_empty_def)
          ultimately show ?thesis
            using Some pv cv(3) by (simp add: look patch_key_Some deep_equal_def)
        next
          case True
          then obtain pm cm where o: "pv = JObj pm" "cv = JObj cm" by blast
          have "json_wf (JObj pm)" using json_wf_lookup [OF less.prems(1) pv] o by simp
          moreover have "size (JObj cm) < size (JObj c)"
            using size_member [OF mem] by (simp only: o)
          ultimately have IH: "deep_equal (apply_any (JObj pm) (JObj (diff_objects pm cm))) (JObj cm)"
            using less.hyps cv(1,2) o(2) by blast
          show ?thesis
          proof (cases "diff_objects pm cm = []")
            case True
            with IH ne o show ?thesis by (simp add: apply_any_obj obj_or_empty_def)
          next
            case False
            with Some pv o ne have "map_of out k = Some (apply_any (JObj pm) (JObj (diff_objects pm cm)))"
              by (simp add: look diff_key_def patch_key_Some Let_def)
            with IH Some o show ?thesis by (simp add: deep_equal_def)
          qed
        qed
      qed
    qed
  qed
  then show ?case using out dc by (simp add: deep_equal_obj)
qed

section \<open>Properties\<close>

lemma diff_any_apply:
  assumes "json_wf prev" and "json_wf cur" and "\<not> has_null cur"
  shows "deep_equal (apply_any prev (diff_any prev cur)) cur"
proof (cases "\<exists>p c. prev = JObj p \<and> cur = JObj c")
  case True
  then show ?thesis using apply_diff_objects assms by (auto simp: diff_any_def)
next
  case False
  then have "diff_any prev cur = cur"
    by (cases prev; cases cur) (auto simp: diff_any_def)
  moreover have "deep_equal (apply_any prev cur) cur"
  proof (cases "obj_or_empty prev = []")
    case True
    then show ?thesis using apply_fresh assms by blast
  next
    case ne: False
    then have "as_obj cur = None" using False by (cases prev; cases cur) (auto simp: obj_or_empty_def)
    then show ?thesis by (simp add: apply_any_scalar)
  qed
  ultimately show ?thesis by simp
qed

text \<open>C19 (round trip): for well-formed documents without a null in the current one, applying
  the merge patch computed by Diff to the previous document gives the current document.
\<close>

theorem merge_patch_roundtrip:
  assumes "json_wf prev" and "json_wf cur" and "\<not> has_null cur"
  shows "deep_equal (apply_any prev (diff_any prev cur)) cur"
  using assms by (rule diff_any_apply)

theorem merge_patch_roundtrip_witness:
  "deep_equal
     (apply_any (JObj [(''a'', JInt 1), (''b'', JObj [(''x'', JNull), (''y'', JInt 2)])])
        (diff_any (JObj [(''a'', JInt 1), (''b'', JObj [(''x'', JNull), (''y'', JInt 2)])])
           (JObj [(''b'', JObj [(''y'', JInt 3)]), (''c'', JArr [JBool True])])))
     (JObj [(''b'', JObj [(''y'', JInt 3)]), (''c'', JArr [JBool True])])"
  by (rule merge_patch_roundtrip) simp_all

lemma diff_key_None_iff:
  assumes "\<And>pv cv. p = Some pv \<Longrightarrow> c = Some cv \<Longrightarrow> json_wf pv \<and> json_wf cv \<and> \<not> has_null cv"
  shows "diff_key p c = None \<longleftrightarrow> map_option canon p = map_option canon c"
proof
  assume n: "diff_key p c = None"
  show "map_option canon p = map_option canon c"
  proof (cases "\<exists>pv cv. p = Some pv \<and> c = Some cv")
    case False
    with n show ?thesis by (cases p; cases c) (simp_all add: diff_key_def)
  next
    case True
    then obtain pv cv where pc: "p = Some pv" "c = Some cv" by blast
    with assms have wf: "json_wf pv" "json_wf cv" "\<not> has_null cv" by auto
    have "deep_equal pv cv"
    proof (rule ccontr)
      assume ne: "\<not> deep_equal pv cv"
      with n pc obtain pm cm where o: "pv = JObj pm" "cv = JObj cm" "diff_objects pm cm = []"
        by (cases pv; cases cv) (auto simp: diff_key_def Let_def split: if_splits)
      with apply_diff_objects [of pm cm] wf ne show False
        by (simp add: apply_any_obj obj_or_empty_def)
    qed
    with pc show ?thesis by (simp add: deep_equal_def)
  qed
qed (rule diff_key_agree)

text \<open>Minimality: a member is absent from the patch exactly when both documents agree on
  it, so the patch names only the members that changed, appeared or disappeared.
\<close>

lemma diff_minimal:
  assumes "json_wf (JObj p)" and "json_wf (JObj c)" and "\<not> has_null (JObj c)"
  shows "map_of (diff_objects p c) k = None \<longleftrightarrow>
           map_option canon (map_of p k) = map_option canon (map_of c k)"
proof -
  have "diff_key (map_of p k) (map_of c k) = None \<longleftrightarrow>
      map_option canon (map_of p k) = map_option canon (map_of c k)"
    by (rule diff_key_None_iff)
      (metis assms json_wf_lookup has_null_member map_of_SomeD)
  moreover from assms have "distinct (map fst c)" by simp
  ultimately show ?thesis by (simp only: map_of_diff)
qed

theorem diff_minimal_witness:
  "map_of (diff_objects [(''a'', JInt 1), (''b'', JInt 2)] [(''b'', JInt 3), (''a'', JInt 1)]) ''a'' = None"
  by (subst diff_minimal) simp_all

text \<open>Delta sync is lossless: whatever DiffOrFull emits for two decodable documents, the
  client can rebuild the current one: a full payload decodes to it, and applying a merge
  payload to the previous document gives it. The hypotheses say that decoding inverts
  encoding on the two values encoded here and that compaction does not change the value.
\<close>

lemma diff_or_full_lossless:
  assumes emit: "diff_or_full dec enc cmpct prev cur = Inr (patch, fmt)"
    and p: "dec prev = Some p" "json_wf p"
    and c: "dec cur = Some c" "json_wf c"
    and codec: "dec (enc (diff_any p c)) = Some (diff_any p c)" "dec ''{}'' = Some (JObj [])"
    and compaction: "\<And>b. cmpct cur = Some b \<Longrightarrow> dec b = dec cur"
  shows "(fmt = FormatFull \<and> has_null c \<and> dec patch = Some c) \<or>
         (fmt = FormatMerge \<and> \<not> has_null c \<and>
          (\<exists>d. dec patch = Some d \<and> deep_equal (apply_any p d) c))"
proof (cases "has_null c")
  case True
  with emit c compaction show ?thesis
    by (auto simp: diff_or_full_def contains_null_def compact_json_def bind_result_eq_Inr
        split: option.splits if_splits)
next
  case False
  with emit c have diff: "diff_doc dec enc cmpct prev cur = Inr patch" and fmt: "fmt = FormatMerge"
    by (auto simp: diff_or_full_def contains_null_def bind_result_eq_Inr)
  have "dec patch = Some (diff_any p c)"
    using diff p(1) c(1) codec compaction
    by (cases p; cases c)
      (auto simp: diff_doc_def diff_any_def compact_json_def Let_def split: option.splits if_splits)
  moreover have "deep_equal (apply_any p (diff_any p c)) c"
    using p(2) c(2) False by (rule diff_any_apply)
  ultimately show ?thesis using fmt False by blast
qed

theorem diff_or_full_lossless_witness:
  "\<exists>d. (\<lambda>b. if b = ''p'' then Some (JObj [(''a'', JInt 1)])
            else if b = ''c'' then Some (JObj [(''a'', JInt 2)])
            else if b = ''d'' then Some (JObj [(''a'', JInt 2)])
            else if b = ''{}'' then Some (JObj []) else None) ''d'' = Some d \<and>
       deep_equal (apply_any (JObj [(''a'', JInt 1)]) d) (JObj [(''a'', JInt 2)])"
proof -
  let ?dec = "\<lambda>b. if b = ''p'' then Some (JObj [(''a'', JInt 1)])
            else if b = ''c'' then Some (JObj [(''a'', JInt 2)])
            else if b = ''d'' then Some (JObj [(''a'', JInt 2)])
            else if b = ''{}'' then Some (JObj []) else None"
  let ?enc = "\<lambda>_ :: json. ''d''"
  let ?p = "JObj [(''a'', JInt 1)]" and ?c = "JObj [(''a'', JInt 2)]"
  have d: "diff_any ?p ?c = ?c"
    by (simp add: diff_any_def diff_objects.simps deep_equal_def)
  have emit: "diff_or_full ?dec ?enc Some ''p'' ''c'' = Inr (''d'', FormatMerge)"
    using d by (simp add: diff_or_full_def contains_null_def diff_doc_def diff_any_def Let_def)
  have "(FormatMerge = FormatFull \<and> has_null ?c \<and> ?dec ''d'' = Some ?c) \<or>
         (FormatMerge = FormatMerge \<and> \<not> has_null ?c \<and>
          (\<exists>d. ?dec ''d'' = Some d \<and> deep_equal (apply_any ?p d) ?c))"
    by (rule diff_or_full_lossless [OF emit]) (simp_all add: d)
  then show ?thesis by simp
qed

end
