(* ===== verification/GoTime.thy ===== *)
theory GoTime
  imports GoStrings
begin

text \<open>
  The part of Go's package \<open>time\<close> the program uses. An instant is an \<open>int\<close>, nanoseconds
  since the Unix epoch, and a \<open>time.Duration\<close> is an \<open>int\<close> number of nanoseconds.
  \<open>parse_ymd\<close> is \<open>time.Parse("2006-01-02", s)\<close>; \<open>parse_rfc3339\<close> is
  \<open>time.Parse(time.RFC3339, s)\<close> with its lenient points: one-digit hours, fractional
  seconds after \<open>.\<close> or \<open>,\<close>, offsets up to 24:60. Dates use the proleptic Gregorian
  calendar through the day count \<open>days_of_date\<close>.
\<close>

type_synonym instant = int
type_synonym duration = int

definition second :: duration where "second = 1000000000"
definition minute :: duration where "minute = 60 * second"
definition millisecond :: duration where "millisecond = 1000000"

section \<open>Calendar\<close>

definition is_leap :: "int \<Rightarrow> bool" where
  "is_leap y \<longleftrightarrow> y mod 4 = 0 \<and> (y mod 100 \<noteq> 0 \<or> y mod 400 = 0)"

definition days_in :: "int \<Rightarrow> int \<Rightarrow> int" where
  "days_in y m =
     (if m = 2 then (if is_leap y then 29 else 28)
      else if m \<in> {4, 6, 9, 11} then 30 else 31)"

definition valid_date :: "int \<Rightarrow> int \<Rightarrow> int \<Rightarrow> bool" where
  "valid_date y m d \<longleftrightarrow> 1 \<le> m \<and> m \<le> 12 \<and> 1 \<le> d \<and> d \<le> days_in y m"

text \<open>Days before 1 January of the year, counted from 1 January of year 1.\<close>

definition days_before_year :: "int \<Rightarrow> int" where
  "days_before_year y = (let p = y - 1 in 365 * p + p div 4 - p div 100 + p div 400)"

definition days_before_month :: "int \<Rightarrow> int \<Rightarrow> int" where
  "days_before_month y m = (\<Sum>k\<leftarrow>[1..m - 1]. days_in y k)"

definition unix_epoch_days :: int where "unix_epoch_days = 719162"

definition days_of_date :: "int \<Rightarrow> int \<Rightarrow> int \<Rightarrow> int" where
  "days_of_date y m d = days_before_year y + days_before_month y m + (d - 1) - unix_epoch_days"

definition civil_seconds :: "int \<Rightarrow> int \<Rightarrow> int \<Rightarrow> int \<Rightarrow> int \<Rightarrow> int \<Rightarrow> int" where
  "civil_seconds y m d hh mm ss = days_of_date y m d * 86400 + hh * 3600 + mm * 60 + ss"

section \<open>Parsing\<close>

definition two_digits :: "string \<Rightarrow> (int \<times> string) option" where
  "two_digits s =
     (case s of a # b # r \<Rightarrow> if is_digit a \<and> is_digit b then Some (digit_val a * 10 + digit_val b, r) else None
      | _ \<Rightarrow> None)"

definition one_or_two_digits :: "string \<Rightarrow> (int \<times> string) option" where
  "one_or_two_digits s =
     (case s of
        [] \<Rightarrow> None
      | a # r \<Rightarrow>
          if is_digit a
          then (case r of
                  b # r' \<Rightarrow> if is_digit b then Some (digit_val a * 10 + digit_val b, r') else Some (digit_val a, r)
                | [] \<Rightarrow> Some (digit_val a, r))
          else None)"

definition four_digits :: "string \<Rightarrow> (int \<times> string) option" where
  "four_digits s =
     (if 4 \<le> length s \<and> list_all is_digit (take 4 s) then Some (digits_val (take 4 s), drop 4 s) else None)"

definition expect :: "char \<Rightarrow> string \<Rightarrow> string option" where
  "expect c s = (case s of [] \<Rightarrow> None | x # r \<Rightarrow> if x = c then Some r else None)"

definition parse_date_prefix :: "string \<Rightarrow> ((int \<times> int \<times> int) \<times> string) option" where
  "parse_date_prefix s =
     Option.bind (four_digits s) (\<lambda>(y, s1).
     Option.bind (expect (CHR ''-'') s1) (\<lambda>s2.
     Option.bind (two_digits s2) (\<lambda>(m, s3).
     Option.bind (expect (CHR ''-'') s3) (\<lambda>s4.
     Option.bind (two_digits s4) (\<lambda>(d, s5).
       if valid_date y m d then Some ((y, m, d), s5) else None)))))"

definition parse_ymd :: "string \<Rightarrow> (int \<times> int \<times> int) option" where
  "parse_ymd s =
     (case parse_date_prefix s of
        Some (ymd, r) \<Rightarrow> if r = [] then Some ymd else None
      | None \<Rightarrow> None)"

text \<open>The fraction digits, padded or cut to nanoseconds.\<close>

definition nanos_of :: "string \<Rightarrow> int" where
  "nanos_of ds = digits_val (take 9 (ds @ replicate 9 (CHR ''0'')))"

definition skip_fraction :: "string \<Rightarrow> int \<times> string" where
  "skip_fraction s =
     (case s of
        c # d # r \<Rightarrow>
          if c \<in> {CHR ''.'', CHR '',''} \<and> is_digit d
          then (nanos_of (takeWhile is_digit (d # r)), dropWhile is_digit (d # r))
          else (0, s)
      | _ \<Rightarrow> (0, s))"

text \<open>Clock part \<open>15:04:05\<close> (hours of one or two digits), with the seconds optional for the
  layouts without them.\<close>

definition parse_clock :: "bool \<Rightarrow> string \<Rightarrow> ((int \<times> int \<times> int \<times> int) \<times> string) option" where
  "parse_clock with_seconds s =
     Option.bind (one_or_two_digits s) (\<lambda>(h, s1).
     Option.bind (expect (CHR '':'') s1) (\<lambda>s2.
     Option.bind (two_digits s2) (\<lambda>(mi, s3).
       if 24 \<le> h \<or> 60 \<le> mi then None
       else if with_seconds
       then Option.bind (expect (CHR '':'') s3) (\<lambda>s4.
            Option.bind (two_digits s4) (\<lambda>(sec, s5).
              if 60 \<le> sec then None
              else (let (ns, s6) = skip_fraction s5 in Some ((h, mi, sec, ns), s6))))
       else Some ((h, mi, 0, 0), s3))))"

definition parse_offset :: "string \<Rightarrow> (int \<times> string) option" where
  "parse_offset s =
     (case s of
        [] \<Rightarrow> None
      | c # r \<Rightarrow>
          if c = CHR ''Z'' then Some (0, r)
          else if c \<in> {CHR ''+'', CHR ''-''}
          then Option.bind (two_digits r) (\<lambda>(h, s1).
               Option.bind (expect (CHR '':'') s1) (\<lambda>s2.
               Option.bind (two_digits s2) (\<lambda>(mi, s3).
                 if 24 < h \<or> 60 < mi then None
                 else Some ((if c = CHR ''-'' then -1 else 1) * (h * 3600 + mi * 60), s3))))
          else None)"

definition parse_rfc3339 :: "string \<Rightarrow> instant option" where
  "parse_rfc3339 s =
     Option.bind (parse_date_prefix s) (\<lambda>((y, m, d), s1).
     Option.bind (expect (CHR ''T'') s1) (\<lambda>s2.
     Option.bind (parse_clock True s2) (\<lambda>((h, mi, sec, ns), s3).
     Option.bind (parse_offset s3) (\<lambda>(off, s4).
       if s4 = [] then Some ((civil_seconds y m d h mi sec - off) * second + ns) else None))))"

lemma parse_ymd_valid: "parse_ymd s = Some (y, m, d) \<Longrightarrow> valid_date y m d \<and> length s = 10"
  by (auto simp: parse_ymd_def parse_date_prefix_def four_digits_def two_digits_def expect_def
      bind_eq_Some_conv split: option.splits if_splits list.splits prod.splits)
    (auto simp: drop_eq_Nil dest!: arg_cong [where f = length])

lemma parse_rfc3339_examples:
  "parse_rfc3339 ''1970-01-01T00:00:00Z'' = Some 0"
  "parse_rfc3339 ''2026-05-23T12:00:00+02:00'' = Some (1779530400 * second)"
  "parse_rfc3339 ''2026-02-30T12:00:00Z'' = None"
  by code_simp+

section \<open>Formatting\<close>

text \<open>The civil date of a day number counted from 1 January 1970, and \<open>t.UTC().Format(time.RFC3339)\<close>.\<close>

definition civil_of_days :: "int \<Rightarrow> int \<times> int \<times> int" where
  "civil_of_days d =
     (let z = d + 719468; era = z div 146097; doe = z mod 146097;
          yoe = (doe - doe div 1460 + doe div 36524 - doe div 146096) div 365;
          doy = doe - (365 * yoe + yoe div 4 - yoe div 100);
          mp = (5 * doy + 2) div 153;
          day = doy - (153 * mp + 2) div 5 + 1;
          mon = (if mp < 10 then mp + 3 else mp - 9)
      in (yoe + era * 400 + (if mon \<le> 2 then 1 else 0), mon, day))"

definition pad_dec :: "nat \<Rightarrow> int \<Rightarrow> string" where
  "pad_dec w n = (let s = nat_dec (nat \<bar>n\<bar>) in
     (if n < 0 then ''-'' else []) @ replicate (w - length s) (CHR ''0'') @ s)"

definition format_ymd :: "int \<times> int \<times> int \<Rightarrow> string" where
  "format_ymd d = (case d of (y, m, dd) \<Rightarrow> pad_dec 4 y @ ''-'' @ pad_dec 2 m @ ''-'' @ pad_dec 2 dd)"

definition format_rfc3339 :: "instant \<Rightarrow> string" where
  "format_rfc3339 t =
     (let s = t div second; sod = s mod 86400 in
      format_ymd (civil_of_days (s div 86400)) @ ''T'' @ pad_dec 2 (sod div 3600) @ '':'' @
      pad_dec 2 (sod div 60 mod 60) @ '':'' @ pad_dec 2 (sod mod 60) @ ''Z'')"

lemma format_rfc3339_epoch: "format_rfc3339 0 = ''1970-01-01T00:00:00Z''"
  by code_simp

end
