(* ===== verification/JsonSchema.thy ===== *)
theory JsonSchema
  imports Json GoTime
begin

text \<open>
  \<open>internal/jsonschema/validator.go\<close>: the JSON-schema subset that checks the arguments of
  every tool call. A schema is the \<open>members\<close> of its Go map, a result is \<open>None\<close> for \<open>nil\<close>
  and \<open>Some (pointer, message)\<close> for a \<open>*ValidationError\<close>. The parameter \<open>rx\<close> stands for
  Go's package \<open>regexp\<close>: \<open>rx src\<close> is \<open>None\<close> when \<open>regexp.Compile(src)\<close> fails and otherwise
  the compiled expression's \<open>MatchString\<close>. Numbers are compared as \<open>float64\<close>.
\<close>

section \<open>Errors\<close>

datatype vmsg =
    Expected string string
  | MissingRequired
  | UnknownProperty
  | MinItems int
  | NoSubschema
  | NoneMatches
  | MinLength int
  | MaxLength int
  | BadPattern
  | PatternMismatch string
  | BelowMinimum rat rat
  | AboveMaximum rat rat
  | BadDateTime
  | BadDate
  | BadEmail
  | NotInEnum

type_synonym pointer = string
type_synonym verror = "pointer \<times> vmsg"
type_synonym regexp_engine = "string \<Rightarrow> (string \<Rightarrow> bool) option"

fun type_name :: "json \<Rightarrow> string" where
  "type_name JNull = ''null''"
| "type_name (JBool _) = ''boolean''"
| "type_name (JStr _) = ''string''"
| "type_name (JFlt _) = ''number''"
| "type_name (JInt _) = ''number''"
| "type_name (JObj _) = ''object''"
| "type_name (JArr _) = ''array''"
| "type_name (JNum _) = ''json.Number''"
| "type_name (JStrs _) = ''[]string''"

definition type_error :: "pointer \<Rightarrow> string \<Rightarrow> json \<Rightarrow> verror" where
  "type_error ptr want got = (ptr, Expected want (type_name got))"

section \<open>JSON pointers\<close>

definition escape_char :: "char \<Rightarrow> string" where
  "escape_char c = (if c = CHR ''~'' then ''~0'' else if c = CHR ''/'' then ''~1'' else [c])"

definition escape_ptr :: "string \<Rightarrow> string" where
  "escape_ptr s =
     (if list_ex (\<lambda>c. c = CHR ''~'' \<or> c = CHR ''/'') s then concat (map escape_char s) else s)"

definition join_ptr :: "pointer \<Rightarrow> string \<Rightarrow> pointer" where
  "join_ptr prefix name = prefix @ ''/'' @ escape_ptr name"

section \<open>Coercions\<close>

fun to_float :: "json \<Rightarrow> rat option" where
  "to_float (JFlt x) = Some x"
| "to_float (JNum s) = parse_float64 s"
| "to_float (JInt n) = Some (fl64 (of_int n))"
| "to_float _ = None"

definition to_int :: "json \<Rightarrow> int option" where
  "to_int v =
     (case to_float v of
        None \<Rightarrow> None
      | Some f \<Rightarrow>
          if f \<noteq> fl64 (of_int (int64_of_float f)) then None else Some (int64_of_float f))"

fun all_strings :: "json list \<Rightarrow> string list option" where
  "all_strings [] = Some []"
| "all_strings (v # vs) =
     (case v of JStr s \<Rightarrow> map_option (Cons s) (all_strings vs) | _ \<Rightarrow> None)"

fun to_string_slice :: "json \<Rightarrow> string list option" where
  "to_string_slice (JStrs ss) = Some ss"
| "to_string_slice (JArr vs) = all_strings vs"
| "to_string_slice _ = None"

fun schema_types :: "json option \<Rightarrow> string list" where
  "schema_types (Some (JStr t)) = [t]"
| "schema_types (Some (JArr vs)) =
     filter (\<lambda>t. t \<noteq> []) (map (\<lambda>v. case v of JStr t \<Rightarrow> t | _ \<Rightarrow> []) vs)"
| "schema_types (Some (JStrs ts)) = ts"
| "schema_types _ = []"

section \<open>Keyword checks\<close>

definition enum_equal :: "json \<Rightarrow> json \<Rightarrow> bool" where
  "enum_equal a b =
     (case to_float a of
        Some af \<Rightarrow> (case to_float b of Some bf \<Rightarrow> af = bf | None \<Rightarrow> False)
      | None \<Rightarrow> deep_equal a b)"

definition check_enum :: "json \<Rightarrow> json \<Rightarrow> pointer \<Rightarrow> verror option" where
  "check_enum enum value ptr =
     (case enum of
        JArr options \<Rightarrow>
          if list_ex (\<lambda>opt. enum_equal opt value) options then None else Some (ptr, NotInEnum)
      | _ \<Rightarrow>
          (case to_string_slice enum of
             Some ss \<Rightarrow> if list_ex (\<lambda>s. deep_equal (JStr s) value) ss then None else Some (ptr, NotInEnum)
           | None \<Rightarrow> None))"

definition anchored :: "string \<Rightarrow> string" where
  "anchored p =
     (let src = (if p = [] \<or> hd p \<noteq> CHR ''^'' then CHR ''^'' # p else p)
      in if last src \<noteq> CHR ''$'' then src @ ''$'' else src)"

text \<open>\<open>compilePattern\<close> with its \<open>patternCache\<close>: the compiled pattern and the new cache.\<close>

type_synonym pattern_cache = "string \<rightharpoonup> (string \<Rightarrow> bool)"

definition compile_pattern ::
  "regexp_engine \<Rightarrow> pattern_cache \<Rightarrow> string \<Rightarrow> (string \<Rightarrow> bool) option \<times> pattern_cache" where
  "compile_pattern rx cache p =
     (case cache p of
        Some re \<Rightarrow> (Some re, cache)
      | None \<Rightarrow>
          (case rx (anchored p) of
             None \<Rightarrow> (None, cache)
           | Some re \<Rightarrow> (Some re, cache(p \<mapsto> re))))"

definition is_simple_email :: "string \<Rightarrow> bool" where
  "is_simple_email s =
     (case cut_byte (CHR ''@'') s of
        None \<Rightarrow> False
      | Some (local, domain) \<Rightarrow>
          local \<noteq> [] \<and> domain \<noteq> [] \<and> \<not> str_contains domain ''@'' \<and> str_contains domain ''.'')"

definition check_format :: "string \<Rightarrow> string \<Rightarrow> pointer \<Rightarrow> verror option" where
  "check_format format s ptr =
     (if format = ''date-time'' then
        (if parse_rfc3339 s = None then Some (ptr, BadDateTime) else None)
      else if format = ''date'' then
        (if parse_ymd s = None then Some (ptr, BadDate) else None)
      else if format = ''email'' then
        (if \<not> is_simple_email s then Some (ptr, BadEmail) else None)
      else None)"

text \<open>\<open>if raw, ok := schema[k]; ok { if n, ok := toInt(raw); ok && bad(n) { error } }\<close>\<close>

definition int_keyword :: "members \<Rightarrow> string \<Rightarrow> int option" where
  "int_keyword schema k = Option.bind (map_of schema k) to_int"

definition float_keyword :: "members \<Rightarrow> string \<Rightarrow> rat option" where
  "float_keyword schema k = Option.bind (map_of schema k) to_float"

definition orelse_err :: "'e option \<Rightarrow> 'e option \<Rightarrow> 'e option" where
  "orelse_err a b = (case a of Some e \<Rightarrow> Some e | None \<Rightarrow> b)"

lemma orelse_err_simps [simp]:
  "orelse_err None b = b"
  "orelse_err (Some e) b = Some e"
  "orelse_err a b = None \<longleftrightarrow> a = None \<and> b = None"
  by (auto simp: orelse_err_def split: option.splits)

lemma orelse_err_Some: "orelse_err a b = Some e \<Longrightarrow> a = Some e \<or> (a = None \<and> b = Some e)"
  by (cases a) auto

definition validate_string :: "regexp_engine \<Rightarrow> members \<Rightarrow> json \<Rightarrow> pointer \<Rightarrow> verror option" where
  "validate_string rx schema value ptr =
     (case value of
        JStr s \<Rightarrow>
          orelse_err
            (case int_keyword schema ''minLength'' of
               Some n \<Rightarrow> if int (length s) < n then Some (ptr, MinLength n) else None
             | None \<Rightarrow> None)
         (orelse_err
            (case int_keyword schema ''maxLength'' of
               Some n \<Rightarrow> if int (length s) > n then Some (ptr, MaxLength n) else None
             | None \<Rightarrow> None)
         (orelse_err
            (let raw = str_member schema ''pattern''
             in if raw = [] then None
                else (case rx (anchored raw) of
                        None \<Rightarrow> Some (ptr, BadPattern)
                      | Some matches \<Rightarrow>
                          if \<not> matches s then Some (ptr, PatternMismatch raw) else None))
            (let raw = str_member schema ''format''
             in if raw = [] then None else check_format raw s ptr)))
      | _ \<Rightarrow> Some (type_error ptr ''string'' value))"

definition check_numeric_bounds :: "members \<Rightarrow> rat \<Rightarrow> pointer \<Rightarrow> verror option" where
  "check_numeric_bounds schema n ptr =
     orelse_err
       (case float_keyword schema ''minimum'' of
          Some f \<Rightarrow> if n < f then Some (ptr, BelowMinimum n f) else None
        | None \<Rightarrow> None)
       (case float_keyword schema ''maximum'' of
          Some f \<Rightarrow> if f < n then Some (ptr, AboveMaximum n f) else None
        | None \<Rightarrow> None)"

definition validate_integer :: "members \<Rightarrow> json \<Rightarrow> pointer \<Rightarrow> verror option" where
  "validate_integer schema value ptr =
     (case to_float value of
        None \<Rightarrow> Some (type_error ptr ''integer'' value)
      | Some n \<Rightarrow>
          if n \<noteq> fl64 (of_int (int64_of_float n)) then Some (type_error ptr ''integer'' value)
          else check_numeric_bounds schema n ptr)"

definition validate_number :: "members \<Rightarrow> json \<Rightarrow> pointer \<Rightarrow> verror option" where
  "validate_number schema value ptr =
     (case to_float value of
        None \<Rightarrow> Some (type_error ptr ''number'' value)
      | Some n \<Rightarrow> check_numeric_bounds schema n ptr)"

definition has_object_member_keywords :: "members \<Rightarrow> bool" where
  "has_object_member_keywords schema \<longleftrightarrow>
     map_of schema ''required'' \<noteq> None \<or> map_of schema ''properties'' \<noteq> None
     \<or> map_of schema ''additionalProperties'' \<noteq> None"

definition check_required :: "members \<Rightarrow> members \<Rightarrow> pointer \<Rightarrow> verror option" where
  "check_required schema obj ptr =
     (case Option.bind (map_of schema ''required'') to_string_slice of
        None \<Rightarrow> None
      | Some names \<Rightarrow>
          (case find (\<lambda>name. map_of obj name = None) names of
             Some name \<Rightarrow> Some (join_ptr ptr name, MissingRequired)
           | None \<Rightarrow> None))"

text \<open>\<open>v, _ := schema[k].(map[string]any)\<close>, a nil map being empty.\<close>

definition obj_member :: "members \<Rightarrow> string \<Rightarrow> members" where
  "obj_member m k = (case map_of m k of Some (JObj o1) \<Rightarrow> o1 | _ \<Rightarrow> [])"

definition check_additional :: "members \<Rightarrow> members \<Rightarrow> pointer \<Rightarrow> verror option" where
  "check_additional schema obj ptr =
     (if map_of schema ''additionalProperties'' = Some (JBool False)
      then (case find (\<lambda>(k, _). map_of (obj_member schema ''properties'') k = None) obj of
              Some (k, _) \<Rightarrow> Some (join_ptr ptr k, UnknownProperty)
            | None \<Rightarrow> None)
      else None)"

section \<open>Validation\<close>

fun first_err :: "('a \<Rightarrow> 'e option) \<Rightarrow> 'a list \<Rightarrow> 'e option" where
  "first_err f [] = None"
| "first_err f (x # xs) = orelse_err (f x) (first_err f xs)"

lemma first_err_cong [fundef_cong]:
  "xs = ys \<Longrightarrow> (\<And>x. x \<in> set ys \<Longrightarrow> f x = g x) \<Longrightarrow> first_err f xs = first_err g ys"
proof -
  have "(\<And>x. x \<in> set ys \<Longrightarrow> f x = g x) \<Longrightarrow> first_err f ys = first_err g ys"
    by (induction ys) simp_all
  then show "xs = ys \<Longrightarrow> (\<And>x. x \<in> set ys \<Longrightarrow> f x = g x) \<Longrightarrow> first_err f xs = first_err g ys"
    by simp
qed

lemma first_err_None: "first_err f xs = None \<longleftrightarrow> (\<forall>x\<in>set xs. f x = None)"
  by (induction xs) auto

lemma first_err_enumerate:
  "first_err f (enumerate 0 xs) = None \<longleftrightarrow> (\<forall>i < length xs. f (i, xs ! i) = None)"
  by (auto simp: first_err_None in_set_enumerate_eq)

lemma first_err_Some: "first_err f xs = Some e \<Longrightarrow> \<exists>x\<in>set xs. f x = Some e"
  by (induction xs) (auto dest: orelse_err_Some)

lemma orelse_err_cong [fundef_cong]:
  "a = a' \<Longrightarrow> (a' = None \<Longrightarrow> b = b') \<Longrightarrow> orelse_err a b = orelse_err a' b'"
  by (cases a') simp_all

lemma size_lookup [termination_simp]: "map_of m k = Some v \<Longrightarrow> size v < size (JObj m)"
  by (rule size_member) (rule map_of_SomeD)

lemma obj_member_lookup:
  "(k, v) \<in> set (obj_member m key) \<Longrightarrow> map_of m key = Some (JObj (obj_member m key))"
  by (cases "map_of m key"; cases "the (map_of m key)") (auto simp: obj_member_def)

lemma size_obj_member [termination_simp]:
  "(k, v) \<in> set (obj_member m key) \<Longrightarrow> size v < size (JObj m)"
  by (meson less_trans obj_member_lookup size_lookup size_member)

function (sequential)
  validate :: "regexp_engine \<Rightarrow> members \<Rightarrow> json \<Rightarrow> pointer \<Rightarrow> verror option" and
  validate_type :: "regexp_engine \<Rightarrow> string \<Rightarrow> members \<Rightarrow> json \<Rightarrow> pointer \<Rightarrow> verror option" and
  validate_object_members :: "regexp_engine \<Rightarrow> members \<Rightarrow> members \<Rightarrow> pointer \<Rightarrow> verror option" and
  validate_array :: "regexp_engine \<Rightarrow> members \<Rightarrow> json \<Rightarrow> pointer \<Rightarrow> verror option" and
  check_any_of :: "regexp_engine \<Rightarrow> json \<Rightarrow> json \<Rightarrow> pointer \<Rightarrow> verror option"
where
  "validate rx schema value ptr =
     orelse_err
       (case map_of schema ''enum'' of Some enum \<Rightarrow> check_enum enum value ptr | None \<Rightarrow> None)
       (let types = schema_types (map_of schema ''type'')
        in if length types > 1 then
             (if list_ex (\<lambda>typ. validate_type rx typ schema value ptr = None) types
              then (case map_of schema ''anyOf'' of
                      Some raw \<Rightarrow> check_any_of rx raw value ptr
                    | None \<Rightarrow> None)
              else Some (type_error ptr (join_with '' or '' types) value))
           else
             orelse_err
               (validate_type rx (if length types = 1 then hd types else []) schema value ptr)
               (case map_of schema ''anyOf'' of
                  Some raw \<Rightarrow> check_any_of rx raw value ptr
                | None \<Rightarrow> None))"
| "validate_type rx typ schema value ptr =
     (if typ = [] then
        (if has_object_member_keywords schema
         then (case value of JObj obj \<Rightarrow> validate_object_members rx schema obj ptr | _ \<Rightarrow> None)
         else None)
      else if typ = ''object'' then
        (case value of
           JObj obj \<Rightarrow> validate_object_members rx schema obj ptr
         | _ \<Rightarrow> Some (type_error ptr ''object'' value))
      else if typ = ''array'' then validate_array rx schema value ptr
      else if typ = ''string'' then validate_string rx schema value ptr
      else if typ = ''integer'' then validate_integer schema value ptr
      else if typ = ''number'' then validate_number schema value ptr
      else if typ = ''boolean'' then
        (case value of JBool _ \<Rightarrow> None | _ \<Rightarrow> Some (type_error ptr ''boolean'' value))
      else if typ = ''null'' then
        (case value of JNull \<Rightarrow> None | _ \<Rightarrow> Some (type_error ptr ''null'' value))
      else None)"
| "validate_object_members rx schema obj ptr =
     orelse_err (check_required schema obj ptr)
    (orelse_err (check_additional schema obj ptr)
       (first_err (\<lambda>(name, raw).
          (case raw of
             JObj sub \<Rightarrow>
               (case map_of obj name of
                  Some val \<Rightarrow> validate rx sub val (join_ptr ptr name)
                | None \<Rightarrow> None)
           | _ \<Rightarrow> None)) (obj_member schema ''properties'')))"
| "validate_array rx schema value ptr =
     (case value of
        JArr arr \<Rightarrow>
          orelse_err
            (case int_keyword schema ''minItems'' of
               Some n \<Rightarrow> if int (length arr) < n then Some (ptr, MinItems n) else None
             | None \<Rightarrow> None)
            (case map_of schema ''items'' of
               Some (JObj items) \<Rightarrow>
                 first_err (\<lambda>(i, elem). validate rx items elem (ptr @ ''/'' @ itoa (int i)))
                   (enumerate 0 arr)
             | _ \<Rightarrow> None)
      | _ \<Rightarrow> Some (type_error ptr ''array'' value))"
| "check_any_of rx raw value ptr =
     (case raw of
        JArr options \<Rightarrow>
          (if options = [] then Some (ptr, NoSubschema)
           else if list_ex (\<lambda>opt. case opt of JObj sub \<Rightarrow> validate rx sub value ptr = None | _ \<Rightarrow> False) options
           then None
           else Some (ptr, NoneMatches))
      | _ \<Rightarrow> Some (ptr, NoSubschema))"
  by pat_completeness auto
termination
  apply (relation "measures
     [\<lambda>x. case x of
        Inl (Inl (_, schema, _)) \<Rightarrow> size (JObj schema)
      | Inl (Inr (_, _, schema, _)) \<Rightarrow> size (JObj schema)
      | Inr (Inl (_, schema, _)) \<Rightarrow> size (JObj schema)
      | Inr (Inr (Inl (_, schema, _))) \<Rightarrow> size (JObj schema)
      | Inr (Inr (Inr (_, raw, _))) \<Rightarrow> size raw,
      \<lambda>x. case x of Inl (Inl _) \<Rightarrow> 2 | Inl (Inr _) \<Rightarrow> 1 | _ \<Rightarrow> 0]")
             apply (simp_all add: size_lookup size_obj_member del: json.size)
   apply (auto dest: size_obj_member size_lookup size_element simp del: json.size)
  done

declare validate.simps [simp del] validate_type.simps [simp del]
  validate_object_members.simps [simp del] validate_array.simps [simp del] check_any_of.simps [simp del]

text \<open>\<open>Validate\<close>: a nil schema accepts everything.\<close>

definition validate_root :: "regexp_engine \<Rightarrow> members option \<Rightarrow> json \<Rightarrow> verror option" where
  "validate_root rx schema value =
     (case schema of None \<Rightarrow> None | Some m \<Rightarrow> validate rx m value [])"

definition verror_text :: "(vmsg \<Rightarrow> string) \<Rightarrow> verror \<Rightarrow> string" where
  "verror_text show_msg e =
     (if fst e = [] then ''invalid params: '' @ show_msg (snd e)
      else ''invalid params at '' @ fst e @ '': '' @ show_msg (snd e))"

section \<open>The pattern cache is transparent\<close>

definition cache_valid :: "regexp_engine \<Rightarrow> pattern_cache \<Rightarrow> bool" where
  "cache_valid rx cache \<longleftrightarrow> (\<forall>p re. cache p = Some re \<longrightarrow> rx (anchored p) = Some re)"

lemma compile_pattern_cached:
  assumes "cache_valid rx cache"
  shows "fst (compile_pattern rx cache p) = rx (anchored p) \<and>
         cache_valid rx (snd (compile_pattern rx cache p))"
  using assms by (auto simp: compile_pattern_def cache_valid_def split: option.splits)

section \<open>Acceptance of objects\<close>

lemma check_required_None:
  "check_required schema obj ptr = None \<longleftrightarrow>
     (\<forall>names. Option.bind (map_of schema ''required'') to_string_slice = Some names \<longrightarrow>
        (\<forall>n \<in> set names. map_of obj n \<noteq> None))"
  by (auto simp: check_required_def find_None_all dest: find_SomeD split: option.splits)

lemma check_additional_None:
  "check_additional schema obj ptr = None \<longleftrightarrow>
     (map_of schema ''additionalProperties'' = Some (JBool False) \<longrightarrow>
        (\<forall>k. map_of obj k \<noteq> None \<longrightarrow> map_of (obj_member schema ''properties'') k \<noteq> None))"
proof -
  have "check_additional schema obj ptr = None \<longleftrightarrow>
      (map_of schema ''additionalProperties'' = Some (JBool False) \<longrightarrow>
         find (\<lambda>(k, _). map_of (obj_member schema ''properties'') k = None) obj = None)"
    by (auto simp: check_additional_def split: option.splits)
  then show ?thesis by (force simp: find_None_all map_of_eq_None_iff)
qed

lemma validate_object_members_None:
  "validate_object_members rx schema obj ptr = None \<longleftrightarrow>
     check_required schema obj ptr = None \<and> check_additional schema obj ptr = None \<and>
     (\<forall>name sub val. (name, JObj sub) \<in> set (obj_member schema ''properties'') \<longrightarrow>
        map_of obj name = Some val \<longrightarrow> validate rx sub val (join_ptr ptr name) = None)"
  by (auto simp: validate_object_members.simps first_err_None split: json.splits option.splits)

text \<open>What the object keyword checks: a schema of type \<open>object\<close> without \<open>enum\<close> and
  \<open>anyOf\<close> accepts a value exactly when it is an object that has every required property, has no
  property outside \<open>properties\<close> when \<open>additionalProperties\<close> is \<open>false\<close>, and whose present
  properties satisfy their sub-schemas.\<close>

lemma validate_object_accepts:
  assumes "map_of schema ''type'' = Some (JStr ''object'')"
    and "map_of schema ''enum'' = None" and "map_of schema ''anyOf'' = None"
  shows "validate rx schema v ptr = None \<longleftrightarrow>
    (\<exists>obj. v = JObj obj \<and>
       (\<forall>names. Option.bind (map_of schema ''required'') to_string_slice = Some names \<longrightarrow>
          (\<forall>n \<in> set names. map_of obj n \<noteq> None)) \<and>
       (map_of schema ''additionalProperties'' = Some (JBool False) \<longrightarrow>
          (\<forall>k. map_of obj k \<noteq> None \<longrightarrow> map_of (obj_member schema ''properties'') k \<noteq> None)) \<and>
       (\<forall>name sub val. (name, JObj sub) \<in> set (obj_member schema ''properties'') \<longrightarrow>
          map_of obj name = Some val \<longrightarrow> validate rx sub val (join_ptr ptr name) = None))"
  using assms
  by (cases v)
    (simp_all add: validate.simps validate_type.simps validate_object_members_None
      check_required_None check_additional_None)

definition demo_schema :: members where
  "demo_schema =
     [(''type'', JStr ''object''), (''required'', JStrs [''name'']),
      (''additionalProperties'', JBool False),
      (''properties'', JObj
        [(''name'', JObj [(''type'', JStr ''string''), (''minLength'', JInt 1)]),
         (''tags'', JObj [(''type'', JStr ''array''),
                          (''items'', JObj [(''type'', JStr ''string'')])])])]"

lemma to_int_JInt: "\<bar>n\<bar> \<le> 2 ^ 53 \<Longrightarrow> to_int (JInt n) = Some n"
  by (simp add: to_int_def fl64_of_int int64_of_float_of_int is_int64_def
      min_int64_def max_int64_def abs_le_iff)

lemma validate_object_accepts_witness:
  "validate (\<lambda>_. None) demo_schema (JObj [(''name'', JStr ''x'')]) [] = None \<and>
   validate (\<lambda>_. None) demo_schema (JObj [(''nome'', JStr ''x'')]) [] \<noteq> None"
  by (subst (1 2) validate_object_accepts)
    (simp_all add: demo_schema_def obj_member_def validate.simps validate_type.simps
      validate_string_def int_keyword_def str_member_def to_int_JInt)

section \<open>Error pointers\<close>

inductive reaches :: "json \<Rightarrow> string list \<Rightarrow> json \<Rightarrow> bool" where
  here: "reaches v [] v"
| member: "map_of m k = Some v \<Longrightarrow> reaches v ts w \<Longrightarrow> reaches (JObj m) (k # ts) w"
| element: "i < length xs \<Longrightarrow> reaches (xs ! i) ts w \<Longrightarrow> reaches (JArr xs) (itoa (int i) # ts) w"

definition pointer_of :: "string list \<Rightarrow> pointer" where
  "pointer_of ts = concat (map (\<lambda>t. ''/'' @ escape_ptr t) ts)"

definition locates :: "json \<Rightarrow> vmsg \<Rightarrow> string list \<Rightarrow> bool" where
  "locates v msg ts \<longleftrightarrow>
     (if msg = MissingRequired
      then (\<exists>ps k m. ts = ps @ [k] \<and> reaches v ps (JObj m) \<and> map_of m k = None)
      else (\<exists>w. reaches v ts w))"

lemma escape_ptr_alt: "escape_ptr s = concat (map escape_char s)"
proof (cases "list_ex (\<lambda>c. c = CHR ''~'' \<or> c = CHR ''/'') s")
  case True
  then show ?thesis by (simp add: escape_ptr_def)
next
  case False
  then have "concat (map escape_char s) = s"
    by (induction s) (auto simp: escape_char_def)
  with False show ?thesis by (simp add: escape_ptr_def)
qed

lemma slash_not_in_escape: "CHR ''/'' \<notin> set (escape_ptr s)"
  by (auto simp: escape_ptr_alt escape_char_def split: if_splits)

lemma nat_dec_digits: "c \<in> set (nat_dec n) \<Longrightarrow> is_digit c"
  using nat_dec_correct [of n] by (auto simp: list_all_iff)

lemma escape_itoa: "escape_ptr (itoa (int i)) = itoa (int i)"
proof -
  have "\<not> list_ex (\<lambda>c. c = CHR ''~'' \<or> c = CHR ''/'') (itoa (int i))"
    by (auto simp: list_ex_iff itoa_def dest!: nat_dec_digits) (simp_all add: is_digit_def)
  then show ?thesis by (simp add: escape_ptr_def)
qed

lemma pointer_of_Cons: "ptr @ pointer_of (t # ts) = join_ptr ptr t @ pointer_of ts"
  by (simp add: pointer_of_def join_ptr_def)

definition located :: "json \<Rightarrow> pointer \<Rightarrow> verror option \<Rightarrow> bool" where
  "located v ptr r \<longleftrightarrow> (\<forall>q msg. r = Some (q, msg) \<longrightarrow> (\<exists>ts. q = ptr @ pointer_of ts \<and> locates v msg ts))"

lemma located_None [simp]: "located v ptr None"
  by (simp add: located_def)

lemma located_here [simp]: "msg \<noteq> MissingRequired \<Longrightarrow> located v ptr (Some (ptr, msg))"
  unfolding located_def locates_def
  by (auto intro!: exI [of _ "[]"] simp: pointer_of_def intro: here)

lemma located_type_error [simp]: "located v ptr (Some (type_error ptr want v))"
  by (simp add: type_error_def)

lemma located_orelse:
  "located v ptr a \<Longrightarrow> (a = None \<Longrightarrow> located v ptr b) \<Longrightarrow> located v ptr (orelse_err a b)"
  by (cases a) (simp_all add: located_def)

lemma located_first_err:
  "(\<And>x. x \<in> set xs \<Longrightarrow> located v ptr (f x)) \<Longrightarrow> located v ptr (first_err f xs)"
  by (induction xs) (simp_all add: located_orelse)

lemma locates_member: "map_of m k = Some v \<Longrightarrow> locates v msg ts \<Longrightarrow> locates (JObj m) msg (k # ts)"
  unfolding locates_def by (auto split: if_splits intro: member) (metis append_Cons member)

lemma locates_element:
  "i < length xs \<Longrightarrow> locates (xs ! i) msg ts \<Longrightarrow> locates (JArr xs) msg (itoa (int i) # ts)"
  unfolding locates_def by (auto split: if_splits intro: element) (metis append_Cons element)

lemma located_member:
  "map_of m k = Some v \<Longrightarrow> located v (join_ptr ptr k) r \<Longrightarrow> located (JObj m) ptr r"
  unfolding located_def by (metis locates_member pointer_of_Cons)

lemma located_element:
  "i < length xs \<Longrightarrow> located (xs ! i) (ptr @ ''/'' @ itoa (int i)) r \<Longrightarrow> located (JArr xs) ptr r"
  unfolding located_def
  by (metis locates_element pointer_of_Cons escape_itoa join_ptr_def)

lemma located_required: "located (JObj obj) ptr (check_required schema obj ptr)"
proof -
  have "locates (JObj obj) MissingRequired [name]" if "map_of obj name = None" for name
    using that here by (fastforce simp: locates_def)
  then show ?thesis
    unfolding located_def check_required_def
    by (force simp: pointer_of_def join_ptr_def dest!: find_SomeD split: option.splits)
qed

lemma located_additional: "located (JObj obj) ptr (check_additional schema obj ptr)"
proof -
  have "locates (JObj obj) UnknownProperty [k]" if "(k, v) \<in> set obj" for k v
  proof -
    from that obtain w where "map_of obj k = Some w"
      by (metis fst_conv image_eqI map_of_eq_None_iff not_None_eq)
    then have "reaches (JObj obj) [k] w" by (rule member) (rule here)
    then show ?thesis by (auto simp: locates_def)
  qed
  then show ?thesis
    unfolding located_def check_additional_def
    by (force simp: pointer_of_def join_ptr_def dest!: find_SomeD split: option.splits if_splits)
qed

lemmas located_leaves = located_orelse located_first_err located_required located_additional

lemma located_string: "located v ptr (validate_string rx schema v ptr)"
  by (cases v)
    (auto simp: validate_string_def check_format_def Let_def intro!: located_orelse split: option.splits)

lemma located_numeric: "located v ptr (check_numeric_bounds schema n ptr)"
  by (auto simp: check_numeric_bounds_def intro!: located_orelse split: option.splits)

lemma located_enum: "located v ptr (check_enum enum v ptr)"
  by (auto simp: check_enum_def split: json.splits option.splits)

lemma validate_located:
  "located v ptr (validate rx schema v ptr)"
  "located v ptr (validate_type rx t schema v ptr)"
  "located (JObj obj) ptr (validate_object_members rx schema obj ptr)"
  "located v ptr (validate_array rx schema v ptr)"
  "located v ptr (check_any_of rx raw v ptr)"
proof (induction rx schema v ptr and rx t schema v ptr and rx schema obj ptr
    and rx schema v ptr and rx raw v ptr
    rule: validate_validate_type_validate_object_members_validate_array_check_any_of.induct)
  case (1 rx schema v ptr)
  then show ?case
    by (subst validate.simps)
      (auto simp: Let_def intro!: located_orelse located_enum split: option.splits)
next
  case (2 rx t schema v ptr)
  then show ?case
    by (subst validate_type.simps)
      (auto simp: located_string located_numeric validate_integer_def validate_number_def
        split: json.splits option.splits)
next
  case (3 rx schema obj ptr)
  then show ?case
    by (subst validate_object_members.simps)
      (auto intro!: located_leaves split: json.splits option.splits, metis located_member)
next
  case (4 rx schema v ptr)
  then show ?case
    by (subst validate_array.simps)
      (auto simp: in_set_enumerate_eq intro!: located_leaves intro: located_element
        split: json.splits option.splits)
next
  case (5 rx raw v ptr)
  then show ?case
    by (subst check_any_of.simps) (auto split: json.splits)
qed


lemma demo_error:
  "validate (\<lambda>_. None) demo_schema
     (JObj [(''name'', JStr ''x''), (''tags'', JArr [JStr ''a'', JBool True])]) [] =
   Some (''/tags/1'', Expected ''string'' ''boolean'')"
  by code_simp


section \<open>Acceptance does not depend on iteration order\<close>

definition eqv :: "json \<Rightarrow> json \<Rightarrow> bool" where
  "eqv a b \<longleftrightarrow> json_wf a \<and> json_wf b \<and> deep_equal a b"

lemma eqv_sym: "eqv a b \<Longrightarrow> eqv b a"
  by (auto simp: eqv_def deep_equal_sym)

lemma eqv_lookup:
  assumes "eqv (JObj m) (JObj m')"
  shows "rel_option eqv (map_of m k) (map_of m' k)"
proof -
  from assms have "distinct (map fst m)" "distinct (map fst m')" "deep_equal (JObj m) (JObj m')"
    by (auto simp: eqv_def)
  then have "map_option canon (map_of m k) = map_option canon (map_of m' k)"
    using deep_equal_obj by blast
  moreover from assms have "map_of m k = Some v \<Longrightarrow> json_wf v" "map_of m' k = Some v \<Longrightarrow> json_wf v" for v
    using json_wf_lookup by (auto simp: eqv_def simp del: json_wf.simps)
  ultimately show ?thesis
    by (cases "map_of m k"; cases "map_of m' k") (auto simp: eqv_def deep_equal_def)
qed

lemma eqv_arr: "eqv (JArr xs) (JArr ys) \<Longrightarrow> list_all2 eqv xs ys"
  by (auto simp: eqv_def deep_equal_def list_all_iff list_all2_conv_all_nth dest: map_eq_imp_length_eq)
    (metis length_map nth_map)

text \<open>Equivalent values are both objects, both arrays, or the same value.\<close>

lemma eqvE [consumes 1, case_names obj arr atom]:
  assumes "eqv v w"
  obtains m m' where "v = JObj m" "w = JObj m'" "eqv (JObj m) (JObj m')"
  | xs ys where "v = JArr xs" "w = JArr ys" "list_all2 eqv xs ys"
  | "w = v" "as_obj v = None" "as_arr v = None"
  using assms
proof (cases v)
  case (JArr xs)
  with assms obtain ys where "w = JArr ys" by (cases w) (auto simp: eqv_def deep_equal_def)
  with JArr assms show ?thesis using that(2) eqv_arr by blast
next
  case (JObj m)
  with assms obtain m' where "w = JObj m'" by (cases w) (auto simp: eqv_def deep_equal_def)
  with JObj assms show ?thesis using that(1) by blast
qed (use assms that(3) in \<open>cases w; auto simp: eqv_def deep_equal_def\<close>)+

lemma eqv_to_float: "eqv v w \<Longrightarrow> to_float v = to_float w"
  by (erule eqvE) auto

lemma eqv_bool: "eqv v w \<Longrightarrow> v = JBool b \<longleftrightarrow> w = JBool b"
  by (erule eqvE) auto

lemma eqv_bool_left: "eqv (JBool b) w \<Longrightarrow> w = JBool b"
  using eqv_bool by blast

lemma eqv_str: "eqv v w \<Longrightarrow> (case v of JStr t \<Rightarrow> t | _ \<Rightarrow> []) = (case w of JStr t \<Rightarrow> t | _ \<Rightarrow> [])"
  by (erule eqvE) auto

lemma eqv_keyword:
  assumes "eqv (JObj s) (JObj s')"
  shows "int_keyword s k = int_keyword s' k" and "float_keyword s k = float_keyword s' k"
    and "str_member s k = str_member s' k" and "(map_of s k = None) = (map_of s' k = None)"
    and "(map_of s k = Some (JBool b)) = (map_of s' k = Some (JBool b))"
proof -
  have r: "rel_option eqv (map_of s k) (map_of s' k)" by (rule eqv_lookup [OF assms])
  then show "int_keyword s k = int_keyword s' k" "float_keyword s k = float_keyword s' k"
    by (auto simp: int_keyword_def float_keyword_def to_int_def eqv_to_float
        elim!: option.rel_cases)
  from r show "(map_of s k = None) = (map_of s' k = None)" by (auto elim!: option.rel_cases)
  from r show "str_member s k = str_member s' k"
    "(map_of s k = Some (JBool b)) = (map_of s' k = Some (JBool b))"
    by (auto simp: str_member_def eqv_str eqv_bool dest: eqv_bool_left elim!: option.rel_cases)
qed

lemma eqv_types:
  assumes "eqv (JObj s) (JObj s')"
  shows "schema_types (map_of s k) = schema_types (map_of s' k)"
proof -
  have l: "map (\<lambda>v. case v of JStr t \<Rightarrow> t | _ \<Rightarrow> []) xs = map (\<lambda>v. case v of JStr t \<Rightarrow> t | _ \<Rightarrow> []) ys"
    if "list_all2 eqv xs ys" for xs ys
    using that by (induction rule: list_all2_induct) (simp_all add: eqv_str)
  have "schema_types (Some v) = schema_types (Some w)" if "eqv v w" for v w
    using that by (cases rule: eqvE) (auto dest: l)
  with eqv_lookup [OF assms, of k] show ?thesis by (auto elim!: option.rel_cases)
qed

lemma eqv_all_strings: "list_all2 eqv xs ys \<Longrightarrow> all_strings xs = all_strings ys"
proof (induction rule: list_all2_induct)
  case (Cons x xs y ys)
  from Cons(1) show ?case by (cases rule: eqvE) (auto simp: Cons split: json.splits)
qed simp

lemma eqv_string_slice: "eqv v w \<Longrightarrow> to_string_slice v = to_string_slice w"
  by (erule eqvE) (auto simp: eqv_all_strings)

lemma eqv_deep_equal: "eqv a a' \<Longrightarrow> eqv b b' \<Longrightarrow> deep_equal a b = deep_equal a' b'"
  by (simp add: eqv_def deep_equal_def)

lemma eqv_enum_equal: "eqv a a' \<Longrightarrow> eqv b b' \<Longrightarrow> enum_equal a b = enum_equal a' b'"
  by (auto simp: enum_equal_def eqv_to_float eqv_deep_equal split: option.splits)

lemma eqv_check_enum:
  assumes "eqv e e'" and "eqv v v'"
  shows "(check_enum e v p = None) = (check_enum e' v' p' = None)"
  using assms(1)
proof (cases rule: eqvE)
  case (arr xs ys)
  from arr(3) have "list_ex (\<lambda>x. enum_equal x v) xs = list_ex (\<lambda>x. enum_equal x v') ys"
    by (induction rule: list_all2_induct) (simp_all add: eqv_enum_equal [OF _ assms(2)])
  with arr show ?thesis by (simp add: check_enum_def)
next
  case (obj m m')
  then show ?thesis by (simp add: check_enum_def)
next
  case atom
  have "deep_equal (JStr t) v = deep_equal (JStr t) v'" for t
    using assms(2) by (simp add: eqv_def deep_equal_def)
  with atom show ?thesis by (cases e) (simp_all add: check_enum_def)
qed

lemma eqv_obj_member:
  assumes "eqv (JObj s) (JObj s')"
  shows "eqv (JObj (obj_member s k)) (JObj (obj_member s' k))"
proof -
  have "eqv (JObj []) (JObj [])" by (simp add: eqv_def)
  moreover have "eqv (JObj (case v of JObj o1 \<Rightarrow> o1 | _ \<Rightarrow> [])) (JObj (case w of JObj o1 \<Rightarrow> o1 | _ \<Rightarrow> []))"
    if "eqv v w" for v w
    using that by (cases rule: eqvE) (auto simp: eqv_def split: json.splits)
  ultimately show ?thesis
    using eqv_lookup [OF assms, of k] by (auto simp: obj_member_def elim!: option.rel_cases)
qed

lemma eqv_required:
  assumes "eqv (JObj s) (JObj s')" and "eqv (JObj m) (JObj m')"
  shows "(check_required s m p = None) = (check_required s' m' p' = None)"
proof -
  have "Option.bind (map_of s ''required'') to_string_slice =
        Option.bind (map_of s' ''required'') to_string_slice"
    using eqv_lookup [OF assms(1), of "''required''"]
    by (auto simp: eqv_string_slice elim!: option.rel_cases)
  with eqv_keyword(4) [OF assms(2)] show ?thesis by (simp add: check_required_None)
qed

lemma eqv_additional:
  assumes "eqv (JObj s) (JObj s')" and "eqv (JObj m) (JObj m')"
  shows "(check_additional s m p = None) = (check_additional s' m' p' = None)"
  unfolding check_additional_None
  using eqv_keyword(4) [OF eqv_obj_member [OF assms(1)]] eqv_keyword(4) [OF assms(2)]
    eqv_keyword(5) [OF assms(1)]
  by simp

lemma eqv_bounds:
  "eqv (JObj s) (JObj s') \<Longrightarrow>
     (check_numeric_bounds s n p = None) = (check_numeric_bounds s' n p' = None)"
  by (simp add: check_numeric_bounds_def eqv_keyword(2) split: option.splits)

lemma eqv_string:
  "eqv (JObj s) (JObj s') \<Longrightarrow> eqv v v' \<Longrightarrow>
     (validate_string rx s v p = None) = (validate_string rx s' v' p' = None)"
  by (erule eqvE [of v])
    (auto simp: validate_string_def eqv_keyword check_format_def Let_def split: option.splits json.splits)

lemma eqv_members:
  assumes "eqv (JObj s) (JObj s')"
  shows "(name, v') \<in> set (obj_member s' k) \<Longrightarrow>
     \<exists>v. (name, v) \<in> set (obj_member s k) \<and> eqv v v'"
proof -
  assume v': "(name, v') \<in> set (obj_member s' k)"
  have e: "eqv (JObj (obj_member s k)) (JObj (obj_member s' k))" by (rule eqv_obj_member [OF assms])
  then have "distinct (map fst (obj_member s' k))" by (simp add: eqv_def)
  with v' have "map_of (obj_member s' k) name = Some v'" by simp
  with eqv_lookup [OF e, of name] obtain v where "map_of (obj_member s k) name = Some v" "eqv v v'"
    by (auto elim!: option.rel_cases)
  then show ?thesis by (auto dest: map_of_SomeD)
qed

lemma eqv_obj: "eqv v (JObj m') \<Longrightarrow> \<exists>m. v = JObj m \<and> eqv (JObj m) (JObj m')"
  by (erule eqvE) auto

lemma eqv_keyword_value:
  assumes "eqv (JObj s) (JObj s')"
  shows "map_of s' k = Some v' \<Longrightarrow> \<exists>v. map_of s k = Some v \<and> eqv v v'"
  using eqv_lookup [OF assms, of k] by (auto elim!: option.rel_cases)

definition transfers :: "(json \<Rightarrow> json \<Rightarrow> pointer \<Rightarrow> verror option) \<Rightarrow> json \<Rightarrow> json \<Rightarrow> pointer \<Rightarrow> bool" where
  "transfers f s v p \<longleftrightarrow> (\<forall>s' v' p'. eqv s s' \<longrightarrow> eqv v v' \<longrightarrow> f s v p = None \<longrightarrow> f s' v' p' = None)"

abbreviation on_members where
  "on_members f \<equiv> \<lambda>s. f (case s of JObj m \<Rightarrow> m | _ \<Rightarrow> [])"

lemma transfersI:
  "(\<And>s' v' p'. eqv s s' \<Longrightarrow> eqv v v' \<Longrightarrow> f s v p = None \<Longrightarrow> f s' v' p' = None) \<Longrightarrow> transfers f s v p"
  by (simp add: transfers_def)

lemma transfersD:
  "transfers f s v p \<Longrightarrow> eqv s s' \<Longrightarrow> eqv v v' \<Longrightarrow> f s v p = None \<Longrightarrow> f s' v' p' = None"
  by (auto simp: transfers_def)

text \<open>One lemma per function: acceptance transfers when it does for the functions it calls.\<close>

lemma any_of_None:
  "check_any_of rx raw v p = None \<longleftrightarrow>
     (\<exists>options sub. raw = JArr options \<and> JObj sub \<in> set options \<and> validate rx sub v p = None)"
proof (cases raw)
  case (JArr options)
  have "(case opt of JObj sub \<Rightarrow> validate rx sub v p = None | _ \<Rightarrow> False) \<longleftrightarrow>
      (\<exists>sub. opt = JObj sub \<and> validate rx sub v p = None)" for opt
    by (cases opt) auto
  with JArr show ?thesis by (force simp: check_any_of.simps list_ex_iff)
qed (simp_all add: check_any_of.simps)

lemma any_of_transfers:
  assumes "\<And>options sub. raw = JArr options \<Longrightarrow> JObj sub \<in> set options \<Longrightarrow>
             transfers (on_members (validate rx)) (JObj sub) v p"
  shows "transfers (check_any_of rx) raw v p"
proof (rule transfersI)
  fix raw' v' p'
  assume raw: "eqv raw raw'" and v: "eqv v v'" and ok: "check_any_of rx raw v p = None"
  from ok obtain options sub where o1: "raw = JArr options" "JObj sub \<in> set options"
    and sub: "validate rx sub v p = None"
    using any_of_None by blast
  from raw o1(1) obtain options' where o': "raw' = JArr options'" "list_all2 eqv options options'"
    by (auto elim: eqvE)
  from o1(2) o'(2) obtain sub1 where "sub1 \<in> set options'" "eqv (JObj sub) sub1"
    by (auto simp: in_set_conv_nth list_all2_conv_all_nth) metis
  then obtain sub' where s': "JObj sub' \<in> set options'" "eqv (JObj sub) (JObj sub')"
    by (auto elim: eqvE)
  have "validate rx sub' v' p' = None"
    using transfersD [OF assms [OF o1] s'(2) v] sub by simp
  with o'(1) s'(1) show "check_any_of rx raw' v' p' = None"
    unfolding any_of_None by blast
qed

lemma array_transfers:
  assumes "\<And>items arr i. map_of s ''items'' = Some (JObj items) \<Longrightarrow> v = JArr arr \<Longrightarrow> i < length arr \<Longrightarrow>
     transfers (on_members (validate rx)) (JObj items) (arr ! i) (p @ ''/'' @ itoa (int i))"
  shows "transfers (on_members (validate_array rx)) (JObj s) v p"
proof (rule transfersI)
  fix s1 v' p'
  assume "eqv (JObj s) s1" and v: "eqv v v'" and ok: "on_members (validate_array rx) (JObj s) v p = None"
  then obtain s' where s1: "s1 = JObj s'" and e: "eqv (JObj s) (JObj s')" by (auto elim: eqvE)
  from ok obtain arr where arr: "v = JArr arr"
    by (auto simp: validate_array.simps split: json.splits)
  with v obtain arr' where arr': "v' = JArr arr'" and l: "list_all2 eqv arr arr'" by (auto elim: eqvE)
  have elems: "validate rx items' (arr' ! i) (p' @ ''/'' @ itoa (int i)) = None"
    if m: "map_of s' ''items'' = Some (JObj items')" and i: "i < length arr'" for items' i
  proof -
    obtain items where it: "map_of s ''items'' = Some (JObj items)" "eqv (JObj items) (JObj items')"
      using eqv_keyword_value [OF e m] eqv_obj by blast
    have i': "i < length arr" using i l by (simp add: list_all2_lengthD)
    have "validate rx items (arr ! i) (p @ ''/'' @ itoa (int i)) = None"
      using ok arr it(1) i'
      by (auto simp: validate_array.simps first_err_enumerate split: option.splits)
    then show ?thesis
      using transfersD [OF assms [OF it(1) arr i'] it(2)] list_all2_nthD [OF l i'] by simp
  qed
  have "int_keyword s' ''minItems'' = Some n \<Longrightarrow> \<not> int (length arr') < n" for n
    using ok arr eqv_keyword(1) [OF e, of "''minItems''"] list_all2_lengthD [OF l]
    by (auto simp: validate_array.simps split: if_splits)
  then show "on_members (validate_array rx) s1 v' p' = None"
    unfolding s1 arr' using elems
    by (auto simp: validate_array.simps first_err_enumerate split: option.splits json.splits)
qed

lemma object_members_transfer:
  assumes e: "eqv (JObj s) (JObj s')" and m: "eqv (JObj m) (JObj m')"
    and sub: "\<And>name sub val. (name, JObj sub) \<in> set (obj_member s ''properties'') \<Longrightarrow>
         map_of m name = Some val \<Longrightarrow>
         transfers (on_members (validate rx)) (JObj sub) val (join_ptr p name)"
    and ok: "validate_object_members rx s m p = None"
  shows "validate_object_members rx s' m' p' = None"
proof -
  have "validate rx sub' val' (join_ptr p' name) = None"
    if n: "(name, JObj sub') \<in> set (obj_member s' ''properties'')"
      and v': "map_of m' name = Some val'" for name sub' val'
  proof -
    obtain sub where sub1: "(name, JObj sub) \<in> set (obj_member s ''properties'')"
      and es: "eqv (JObj sub) (JObj sub')"
      using eqv_members [OF e n] eqv_obj by blast
    obtain val where v: "map_of m name = Some val" "eqv val val'"
      using eqv_keyword_value [OF m v'] by blast
    show ?thesis
      using transfersD [OF sub [OF sub1 v(1)] es v(2)] ok sub1 v(1)
      by (auto simp: validate_object_members_None)
  qed
  with ok eqv_required [OF e m] eqv_additional [OF e m] show ?thesis
    by (simp add: validate_object_members_None) blast
qed

lemma type_transfers:
  assumes obj: "\<And>m. v = JObj m \<Longrightarrow>
      (\<And>name sub val. (name, JObj sub) \<in> set (obj_member s ''properties'') \<Longrightarrow>
         map_of m name = Some val \<Longrightarrow>
         transfers (on_members (validate rx)) (JObj sub) val (join_ptr p name))"
    and arr: "transfers (on_members (validate_array rx)) (JObj s) v p"
  shows "transfers (on_members (validate_type rx t)) (JObj s) v p"
proof (rule transfersI)
  fix s1 v' p'
  assume "eqv (JObj s) s1" and v: "eqv v v'" and ok: "on_members (validate_type rx t) (JObj s) v p = None"
  then obtain s' where s1: "s1 = JObj s'" and e: "eqv (JObj s) (JObj s')" by (auto elim: eqvE)
  have kw: "has_object_member_keywords s = has_object_member_keywords s'"
    by (simp add: has_object_member_keywords_def eqv_keyword(4) [OF e])
  have om: "validate_object_members rx s' m' p' = None"
    if "v = JObj m" "eqv (JObj m) (JObj m')" "validate_object_members rx s m p = None" for m m'
    by (rule object_members_transfer [OF e that(2) obj that(3)]) (use that(1) in auto)
  have a: "validate_array rx s v p = None \<Longrightarrow> validate_array rx s' v' p' = None"
    using transfersD [OF arr e v] by simp
  have n: "validate_integer s v p = None \<Longrightarrow> validate_integer s' v' p' = None"
    "validate_number s v p = None \<Longrightarrow> validate_number s' v' p' = None"
    using eqv_to_float [OF v] eqv_bounds [OF e, of _ p p']
    by (auto simp: validate_integer_def validate_number_def split: option.splits if_splits)
  have st: "validate_string rx s v p = None \<Longrightarrow> validate_string rx s' v' p' = None"
    using eqv_string [OF e v] by blast
  from v have "validate_type rx t s' v' p' = None"
  proof (cases rule: eqvE)
    case (obj m m')
    then show ?thesis
      using ok kw om [OF obj(1,3)] a n st
      by (auto simp: validate_type.simps split: if_splits)
  next
    case (arr xs ys)
    then show ?thesis
      using ok a n st by (auto simp: validate_type.simps split: if_splits)
  next
    case atom
    then show ?thesis
      using ok a n st by (cases v) (auto simp: validate_type.simps split: if_splits)
  qed
  then show "on_members (validate_type rx t) s1 v' p' = None" by (simp add: s1)
qed

lemma any_of_keyword:
  assumes e: "eqv (JObj s) (JObj s')" and v: "eqv v v'"
    and t: "\<And>raw. map_of s ''anyOf'' = Some raw \<Longrightarrow> transfers (check_any_of rx) raw v p"
    and ok: "(case map_of s ''anyOf'' of Some raw \<Rightarrow> check_any_of rx raw v p | None \<Rightarrow> None) = None"
  shows "(case map_of s' ''anyOf'' of Some raw \<Rightarrow> check_any_of rx raw v' p' | None \<Rightarrow> None) = None"
proof (cases "map_of s' ''anyOf''")
  case (Some raw')
  with eqv_keyword_value [OF e] obtain raw where "map_of s ''anyOf'' = Some raw" "eqv raw raw'" by blast
  with transfersD [OF t this(2) v] ok Some show ?thesis by simp
qed simp

lemma root_transfers:
  assumes any: "\<And>raw. map_of s ''anyOf'' = Some raw \<Longrightarrow> transfers (check_any_of rx) raw v p"
    and ty: "\<And>t. transfers (on_members (validate_type rx t)) (JObj s) v p"
  shows "transfers (on_members (validate rx)) (JObj s) v p"
proof (rule transfersI)
  fix s1 v' p'
  assume "eqv (JObj s) s1" and v: "eqv v v'" and ok: "on_members (validate rx) (JObj s) v p = None"
  then obtain s' where s1: "s1 = JObj s'" and e: "eqv (JObj s) (JObj s')" by (auto elim: eqvE)
  have enum: "(case map_of s' ''enum'' of Some enum \<Rightarrow> check_enum enum v' p' | None \<Rightarrow> None) = None"
  proof (cases "map_of s' ''enum''")
    case (Some enum')
    with eqv_keyword_value [OF e] obtain enum where "map_of s ''enum'' = Some enum" "eqv enum enum'" by blast
    with eqv_check_enum [OF this(2) v] ok Some show ?thesis by (auto simp: validate.simps)
  qed simp
  have vt: "validate_type rx t s v p = None \<Longrightarrow> validate_type rx t s' v' p' = None" for t
    using transfersD [OF ty e v] by simp
  note anyof = any_of_keyword [OF e v any, where p' = p']
  show "on_members (validate rx) s1 v' p' = None"
  proof (cases "1 < length (schema_types (map_of s ''type''))")
    case True
    with ok have "list_ex (\<lambda>t. validate_type rx t s v p = None) (schema_types (map_of s ''type''))"
      and "(case map_of s ''anyOf'' of Some raw \<Rightarrow> check_any_of rx raw v p | None \<Rightarrow> None) = None"
      by (simp_all add: validate.simps Let_def split: if_splits)
    moreover from this(1) have "list_ex (\<lambda>t. validate_type rx t s' v' p' = None) (schema_types (map_of s ''type''))"
      using vt by (auto simp: list_ex_iff)
    ultimately show ?thesis
      using True enum anyof by (simp add: s1 validate.simps flip: eqv_types [OF e])
  next
    case False
    with ok enum anyof vt show ?thesis
      by (simp add: s1 validate.simps Let_def flip: eqv_types [OF e])
  qed
qed

lemma validate_transfers: "transfers (on_members (validate rx)) (JObj schema) v p"
proof (induction schema arbitrary: v p rule: measure_induct_rule [where f = "\<lambda>s. size (JObj s)"])
  case (less schema v p)
  have props: "transfers (on_members (validate rx)) (JObj sub) val q"
    if "(name, JObj sub) \<in> set (obj_member schema ''properties'')" for name sub val q
    by (rule less) (rule size_obj_member [OF that])
  have items: "transfers (on_members (validate rx)) (JObj items) val q"
    if "map_of schema ''items'' = Some (JObj items)" for items val q
    by (rule less) (rule size_lookup [OF that])
  have options: "transfers (on_members (validate rx)) (JObj sub) val q"
    if "map_of schema ''anyOf'' = Some (JArr options)" "JObj sub \<in> set options" for options sub val q
    by (rule less) (rule less_trans [OF size_element [OF that(2)] size_lookup [OF that(1)]])
  have array: "transfers (on_members (validate_array rx)) (JObj schema) v p"
    by (rule array_transfers) (rule items)
  have types: "transfers (on_members (validate_type rx t)) (JObj schema) v p" for t
    by (rule type_transfers [OF _ array]) (rule props)
  have any: "transfers (check_any_of rx) raw v p" if "map_of schema ''anyOf'' = Some raw" for raw
    by (rule any_of_transfers) (use that options in blast)
  show ?case by (rule root_transfers [OF any types])
qed

text \<open>C13 (acceptance is independent of Go's map iteration order): if two schemas, and two
  values, differ only in the order in which their maps (at any depth) are visited, then the one
  value is accepted by the one schema exactly when the other is accepted by the other, whatever the
  pointer the check starts from.\<close>

theorem validate_order_independent:
  assumes "eqv (JObj schema) (JObj schema')" and "eqv v v'"
  shows "validate rx schema v p = None \<longleftrightarrow> validate rx schema' v' p' = None"
  using transfersD [OF validate_transfers assms, of rx p p']
    transfersD [OF validate_transfers eqv_sym [OF assms(1)] eqv_sym [OF assms(2)], of rx p' p]
  by auto

lemma validate_order_independent_witness:
  "validate (\<lambda>_. None) [(''type'', JStr ''object''), (''required'', JStrs [''name''])]
     (JObj [(''tags'', JNull), (''name'', JStr ''x'')]) [] = None \<longleftrightarrow>
   validate (\<lambda>_. None) [(''required'', JStrs [''name'']), (''type'', JStr ''object'')]
     (JObj [(''name'', JStr ''x''), (''tags'', JNull)]) ''/a'' = None"
  by (rule validate_order_independent) (simp_all add: eqv_def deep_equal_obj)

end
