(* ===== verification/Safety.thy ===== *)
theory Safety
  imports Json GoTime
begin

text \<open>
  \<open>internal/safety\<close>: the rails around destructive tool calls. \<open>requirement_for_risk\<close> is
  \<open>policy.go\<close>; \<open>normalize_json\<close> and \<open>hash_canonical\<close> are \<open>canonical.go\<close>, where the
  parameters \<open>sha\<close> (hex SHA-256) and \<open>enc\<close> (\<open>json.Marshal\<close>) are not computed; the token
  store of \<open>token.go\<close> is a map from tokens to the payload and expiry they were issued for.
  The clock's reading and the random token are arguments of the operations that read them.
\<close>

section \<open>Policy\<close>

record requirement =
  requires_dry_run :: bool
  requires_confirmation :: bool
  req_reason :: string

definition no_requirement :: requirement where
  "no_requirement = \<lparr>requires_dry_run = False, requires_confirmation = False, req_reason = []\<rparr>"

definition both_required :: "string \<Rightarrow> requirement" where
  "both_required r = \<lparr>requires_dry_run = True, requires_confirmation = True, req_reason = r\<rparr>"

definition gated_risks :: "string list" where
  "gated_risks = [''billing'', ''admin'', ''permission_change'', ''external_side_effect'', ''destructive'']"

fun requirement_for_names :: "string list \<Rightarrow> requirement" where
  "requirement_for_names [] = no_requirement"
| "requirement_for_names (risk # rs) =
     (if to_lower (trim_space risk) \<in> set gated_risks
      then \<lparr>requires_dry_run = (risk = ''destructive''), requires_confirmation = True,
            req_reason = risk @ '' tool requires confirmation''\<rparr>
      else requirement_for_names rs)"

definition requirement_for_risk :: "string list \<Rightarrow> bool \<Rightarrow> string \<Rightarrow> requirement" where
  "requirement_for_risk risk_names destructive meth =
     (let upper_method = to_upper (trim_space meth)
      in if upper_method = ''DELETE''
         then both_required ''raw DELETE requires dry-run preview and confirmation''
         else if upper_method = ''POST'' \<or> upper_method = ''PUT'' \<or> upper_method = ''PATCH''
         then both_required ''raw mutating write requires dry-run preview and confirmation''
         else if destructive
         then both_required ''destructive tool requires dry-run preview and confirmation''
         else requirement_for_names risk_names)"

lemma requirement_for_names_confirmation:
  "requires_confirmation (requirement_for_names rs) \<longleftrightarrow>
     (\<exists>r \<in> set rs. to_lower (trim_space r) \<in> set gated_risks)"
  by (induction rs) (auto simp: no_requirement_def)

lemma requirement_for_names_dry_run:
  "requires_dry_run (requirement_for_names rs) \<Longrightarrow> requires_confirmation (requirement_for_names rs)"
  by (induction rs) (auto simp: no_requirement_def)

text \<open>Which calls need confirmation: exactly the raw mutating methods, the tools declared
  destructive and those with a gated risk label need a confirmation token; and a call never needs a
  dry run without needing a confirmation.\<close>

lemma requirement_characterised:
  "(requires_confirmation (requirement_for_risk names destructive meth) \<longleftrightarrow>
     to_upper (trim_space meth) \<in> {''DELETE'', ''POST'', ''PUT'', ''PATCH''} \<or> destructive \<or>
     (\<exists>r \<in> set names. to_lower (trim_space r) \<in> set gated_risks)) \<and>
   \<not> (requires_dry_run (requirement_for_risk names destructive meth) \<and>
      \<not> requires_confirmation (requirement_for_risk names destructive meth))"
  using requirement_for_names_dry_run [of names]
  by (auto simp: requirement_for_risk_def both_required_def Let_def requirement_for_names_confirmation)

section \<open>Canonical hash\<close>

definition control_keys :: "string set" where
  "control_keys = {''confirm_token'', ''dry_run''}"

fun normalize_json :: "json \<Rightarrow> json" where
  "normalize_json (JObj kvs) =
     JObj (map (\<lambda>(k, v). (k, normalize_json v)) (filter (\<lambda>(k, _). k \<notin> control_keys) kvs))"
| "normalize_json (JArr xs) = JArr (map normalize_json xs)"
| "normalize_json v = v"

definition hash_canonical :: "(string \<Rightarrow> string) \<Rightarrow> (json \<Rightarrow> string) \<Rightarrow> json \<Rightarrow> string" where
  "hash_canonical sha enc v = sha (enc (normalize_json v))"

text \<open>Values that \<open>encoding/json\<close> decodes to, and what \<open>json.Marshal\<close> does with them: the bytes
  depend on the value up to member order, and determine it.\<close>

fun decoded :: "json \<Rightarrow> bool" where
  "decoded (JArr xs) = list_all decoded xs"
| "decoded (JObj kvs) = list_all (\<lambda>(k, v). decoded v) kvs"
| "decoded (JFlt _) = False"
| "decoded (JInt _) = False"
| "decoded (JStrs _) = False"
| "decoded _ = True"

definition marshals :: "(json \<Rightarrow> string) \<Rightarrow> bool" where
  "marshals enc \<longleftrightarrow>
     (\<forall>a b. deep_equal a b \<longrightarrow> enc a = enc b) \<and>
     (\<forall>a b. decoded a \<longrightarrow> decoded b \<longrightarrow> json_wf a \<longrightarrow> json_wf b \<longrightarrow> enc a = enc b \<longrightarrow> deep_equal a b)"

lemma decoded_normalize: "decoded v \<Longrightarrow> decoded (normalize_json v)"
  by (induction v rule: normalize_json.induct) (auto simp: list_all_iff)

lemma keys_normalize: "map fst (map (\<lambda>(k, v). (k, f v)) (filter (\<lambda>(k, _). P k) kvs)) = filter P (map fst kvs)"
  by (induction kvs) auto

lemma json_wf_normalize: "json_wf v \<Longrightarrow> json_wf (normalize_json v)"
proof (induction v rule: normalize_json.induct)
  case (1 kvs)
  then have "distinct (filter (\<lambda>k. k \<notin> control_keys) (map fst kvs))" by simp
  then have "distinct (map fst (map (\<lambda>(k, v). (k, normalize_json v)) (filter (\<lambda>(k, _). k \<notin> control_keys) kvs)))"
    by (simp only: keys_normalize)
  with 1 show ?case by (auto simp: list_all_iff)
qed (auto simp: list_all_iff)


text \<open>An encoder with the behaviour assumed of \<open>json.Marshal\<close>: it numbers canonical forms.\<close>

definition numbering :: "json \<Rightarrow> string" where
  "numbering v = replicate (to_nat (canon v)) (CHR ''x'')"

lemma numbering_eq: "numbering a = numbering b \<longleftrightarrow> deep_equal a b"
  unfolding numbering_def deep_equal_def by (metis from_nat_to_nat length_replicate)


section \<open>Token store\<close>

record payload =
  tool_name :: string
  workspace_id :: string
  risk_class :: string
  args_hash :: string
  preview_hash :: string

record issued_token =
  it_payload :: payload
  it_expires :: instant

record token_store =
  ts_ttl :: duration
  ts_tokens :: "string \<rightharpoonup> issued_token"

datatype token_error = StoreNotConfigured | RandomFailed | TokenUnknown | TokenExpired | TokenMismatch

definition default_token_ttl :: duration where
  "default_token_ttl = 5 * minute"

definition new_token_store :: "duration \<Rightarrow> token_store" where
  "new_token_store ttl =
     \<lparr>ts_ttl = (if ttl \<le> 0 then default_token_ttl else ttl), ts_tokens = Map.empty\<rparr>"

text \<open>\<open>Issue\<close> on a possibly nil store; \<open>rnd\<close> is the random token (\<open>None\<close>: the generator failed),
  \<open>ph\<close> computes the payload's preview hash.\<close>

definition issue_token ::
  "(payload \<Rightarrow> string) \<Rightarrow> token_store option \<Rightarrow> instant \<Rightarrow> string option \<Rightarrow> payload \<Rightarrow>
   (token_error, string \<times> string \<times> instant) result \<times> token_store option" where
  "issue_token ph s now rnd payload =
     (case s of
        None \<Rightarrow> (Inl StoreNotConfigured, s)
      | Some st \<Rightarrow>
          (case rnd of
             None \<Rightarrow> (Inl RandomFailed, s)
           | Some token \<Rightarrow>
               (let expires = now + ts_ttl st in
                (Inr (token, ph payload, expires),
                 Some (st\<lparr>ts_tokens := (ts_tokens st)(token \<mapsto>
                         \<lparr>it_payload = payload, it_expires = expires\<rparr>)\<rparr>)))))"

definition validate_token ::
  "token_store option \<Rightarrow> instant \<Rightarrow> string \<Rightarrow> payload \<Rightarrow>
   (token_error, unit) result \<times> token_store option" where
  "validate_token s now token payload =
     (case s of
        None \<Rightarrow> (Inl StoreNotConfigured, s)
      | Some st \<Rightarrow>
          (case ts_tokens st token of
             None \<Rightarrow> (Inl TokenUnknown, s)
           | Some issued \<Rightarrow>
               ((if \<not> now < it_expires issued then Inl TokenExpired
                 else if it_payload issued \<noteq> payload then Inl TokenMismatch
                 else Inr ()),
                Some (st\<lparr>ts_tokens := (ts_tokens st)(token := None)\<rparr>))))"

definition token_audit_suffix :: "(string \<Rightarrow> string) \<Rightarrow> string \<Rightarrow> string" where
  "token_audit_suffix sha token = take 12 (sha token)"

subsection \<open>The interface the dispatcher relies on\<close>

text \<open>Uses of a store, in the order its mutex serialises them.\<close>

datatype 'p token_event =
    Issue instant string 'p
  | Validate instant string 'p

fun token_run ::
  "('s \<Rightarrow> instant \<Rightarrow> string \<Rightarrow> 'p \<Rightarrow> 's) \<Rightarrow> ('s \<Rightarrow> instant \<Rightarrow> string \<Rightarrow> 'p \<Rightarrow> bool \<times> 's) \<Rightarrow>
   's \<Rightarrow> 'p token_event list \<Rightarrow> bool list" where
  "token_run iss val0 s [] = []"
| "token_run iss val0 s (Issue now t p # es) = False # token_run iss val0 (iss s now t p) es"
| "token_run iss val0 s (Validate now t p # es) =
     fst (val0 s now t p) # token_run iss val0 (snd (val0 s now t p)) es"

fun event_token :: "'p token_event \<Rightarrow> string" where
  "event_token (Issue now t p) = t"
| "event_token (Validate now t p) = t"

locale confirmation_store =
  fixes iss :: "'s \<Rightarrow> instant \<Rightarrow> string \<Rightarrow> 'p \<Rightarrow> 's"
    and val0 :: "'s \<Rightarrow> instant \<Rightarrow> string \<Rightarrow> 'p \<Rightarrow> bool \<times> 's"
    and live :: "'s \<Rightarrow> string \<Rightarrow> ('p \<times> instant) option"
    and ttl :: "'s \<Rightarrow> duration"
  assumes live_issue: "live (iss s now t p) = (live s)(t \<mapsto> (p, now + ttl s))"
    and ttl_issue: "ttl (iss s now t p) = ttl s"
    and accepts: "fst (val0 s now t p) \<longleftrightarrow> (\<exists>e. live s t = Some (p, e) \<and> now < e)"
    and live_validate: "live (snd (val0 s now t p)) = (live s)(t := None)"
    and ttl_validate: "ttl (snd (val0 s now t p)) = ttl s"
begin

lemma length_run [simp]: "length (token_run iss val0 s es) = length es"
  by (induction iss val0 s es rule: token_run.induct) auto

lemma accepted_since:
  assumes "i < length es" and "token_run iss val0 s es ! i"
  shows "\<exists>now t p. es ! i = Validate now t p \<and>
    ((\<exists>j < i. \<exists>n. es ! j = Issue n t p \<and> now < n + ttl s \<and>
        (\<forall>k. j < k \<longrightarrow> k < i \<longrightarrow> event_token (es ! k) \<noteq> t)) \<or>
     (\<exists>e. live s t = Some (p, e) \<and> now < e \<and> (\<forall>k < i. event_token (es ! k) \<noteq> t)))"
  using assms
proof (induction es arbitrary: s i)
  case Nil
  then show ?case by simp
next
  case (Cons ev es)
  show ?case
  proof (cases i)
    case 0
    with Cons.prems show ?thesis by (cases ev) (auto simp: accepts)
  next
    case (Suc m)
    define s' where "s' = (case ev of Issue now t p \<Rightarrow> iss s now t p | Validate now t p \<Rightarrow> snd (val0 s now t p))"
    have "m < length es" "token_run iss val0 s' es ! m"
      using Cons.prems Suc by (cases ev; simp add: s'_def)+
    then obtain now t p where v: "es ! m = Validate now t p"
      and c: "(\<exists>j < m. \<exists>n. es ! j = Issue n t p \<and> now < n + ttl s' \<and>
          (\<forall>k. j < k \<longrightarrow> k < m \<longrightarrow> event_token (es ! k) \<noteq> t)) \<or>
        (\<exists>e. live s' t = Some (p, e) \<and> now < e \<and> (\<forall>k < m. event_token (es ! k) \<noteq> t))"
      using Cons.IH by blast
    have ttl: "ttl s' = ttl s" by (cases ev) (simp_all add: s'_def ttl_issue ttl_validate)
    from c show ?thesis
    proof
      assume "\<exists>j < m. \<exists>n. es ! j = Issue n t p \<and> now < n + ttl s' \<and>
          (\<forall>k. j < k \<longrightarrow> k < m \<longrightarrow> event_token (es ! k) \<noteq> t)"
      then obtain j n where j: "j < m" "es ! j = Issue n t p" "now < n + ttl s"
        and later: "\<And>k. j < k \<Longrightarrow> k < m \<Longrightarrow> event_token (es ! k) \<noteq> t" using ttl by auto
      have "event_token ((ev # es) ! k) \<noteq> t" if "Suc j < k" "k < i" for k
        using that later [of "k - 1"] Suc by (cases k) auto
      then have "\<exists>j < i. \<exists>n. (ev # es) ! j = Issue n t p \<and> now < n + ttl s \<and>
          (\<forall>k. j < k \<longrightarrow> k < i \<longrightarrow> event_token ((ev # es) ! k) \<noteq> t)"
        using j Suc by (intro exI [of _ "Suc j"] conjI exI [of _ n]) simp_all
      with v Suc show ?thesis by auto
    next
      assume "\<exists>e. live s' t = Some (p, e) \<and> now < e \<and> (\<forall>k < m. event_token (es ! k) \<noteq> t)"
      then obtain e where e: "live s' t = Some (p, e)" "now < e"
        and none: "\<And>k. k < m \<Longrightarrow> event_token (es ! k) \<noteq> t" by auto
      have later: "event_token ((ev # es) ! k) \<noteq> t" if "0 < k" "k < i" for k
        using that none [of "k - 1"] Suc by (cases k) auto
      show ?thesis
      proof (cases "event_token ev = t")
        case True
        with e obtain n where n: "ev = Issue n t p" "now < n + ttl s"
          by (cases ev) (auto simp: s'_def live_issue live_validate split: if_splits)
        have "\<exists>j < i. \<exists>n. (ev # es) ! j = Issue n t p \<and> now < n + ttl s \<and>
            (\<forall>k. j < k \<longrightarrow> k < i \<longrightarrow> event_token ((ev # es) ! k) \<noteq> t)"
          using n later Suc by (intro exI [of _ 0] conjI exI [of _ n]) simp_all
        with v Suc show ?thesis by auto
      next
        case False
        with e have l: "live s t = Some (p, e)"
          by (cases ev) (auto simp: s'_def live_issue live_validate split: if_splits)
        have "event_token ((ev # es) ! k) \<noteq> t" if "k < i" for k
          using that later [of k] False by (cases "k = 0") auto
        with l e v Suc show ?thesis by auto
      qed
    qed
  qed
qed

lemma accepted_was_issued:
  assumes "live s = Map.empty" and "i < length es" and "token_run iss val0 s es ! i"
  shows "\<exists>now t p j n. es ! i = Validate now t p \<and> j < i \<and> es ! j = Issue n t p \<and>
     now < n + ttl s \<and> (\<forall>k. j < k \<longrightarrow> k < i \<longrightarrow> event_token (es ! k) \<noteq> t)"
  using accepted_since [OF assms(2,3)] assms(1) by auto

lemma accepted_once:
  assumes "live s = Map.empty" and "i < k" and "k < length es"
    and "token_run iss val0 s es ! i" and "token_run iss val0 s es ! k"
    and "event_token (es ! i) = event_token (es ! k)"
  shows "\<exists>j n p. i < j \<and> j < k \<and> es ! j = Issue n (event_token (es ! k)) p"
proof -
  obtain now t p j n where "es ! k = Validate now t p" "j < k" "es ! j = Issue n t p"
    and none: "\<And>l. j < l \<Longrightarrow> l < k \<Longrightarrow> event_token (es ! l) \<noteq> t"
    using accepted_was_issued [OF assms(1,3,5)] by blast
  moreover have "es ! i \<noteq> Issue n t p"
    using accepted_was_issued [OF assms(1) _ assms(4)] assms(2,3) by fastforce
  ultimately show ?thesis using assms(2,6) none [of i]
    by (metis event_token.simps(2) linorder_neqE_nat)
qed

end

section \<open>The model's store provides the interface\<close>

definition store_issue :: "token_store \<Rightarrow> instant \<Rightarrow> string \<Rightarrow> payload \<Rightarrow> token_store" where
  "store_issue st now t p =
     (case snd (issue_token (\<lambda>_. []) (Some st) now (Some t) p) of Some st' \<Rightarrow> st' | None \<Rightarrow> st)"

definition store_validate :: "token_store \<Rightarrow> instant \<Rightarrow> string \<Rightarrow> payload \<Rightarrow> bool \<times> token_store" where
  "store_validate st now t p =
     (case validate_token (Some st) now t p of
        (r, s') \<Rightarrow> (r = Inr (), case s' of Some st' \<Rightarrow> st' | None \<Rightarrow> st))"

definition store_live :: "token_store \<Rightarrow> string \<Rightarrow> (payload \<times> instant) option" where
  "store_live st t = map_option (\<lambda>i. (it_payload i, it_expires i)) (ts_tokens st t)"

interpretation tokens: confirmation_store store_issue store_validate store_live ts_ttl
  by unfold_locales
    (auto simp: store_issue_def store_validate_def store_live_def issue_token_def validate_token_def
      Let_def fun_eq_iff split: option.splits)

text \<open>C4 (a confirmation is backed by its preview): whenever the store accepts a token, the
  token was issued earlier for exactly the same payload, less than the time to live ago, and no other
  operation on that token came in between.\<close>

theorem token_accepted_was_issued:
  assumes "i < length es" and "token_run store_issue store_validate (new_token_store d) es ! i"
  shows "\<exists>now t p j n. es ! i = Validate now t p \<and> j < i \<and> es ! j = Issue n t p \<and>
     now < n + ts_ttl (new_token_store d) \<and>
     (\<forall>k. j < k \<longrightarrow> k < i \<longrightarrow> event_token (es ! k) \<noteq> t)"
  by (rule tokens.accepted_was_issued [OF _ assms])
    (simp add: store_live_def new_token_store_def fun_eq_iff)

definition demo_payload :: payload where
  "demo_payload = \<lparr>tool_name = ''clockify_projects_archive'', workspace_id = ''w1'',
     risk_class = ''destructive'', args_hash = ''h'', preview_hash = []\<rparr>"

lemma token_accepted_was_issued_witness:
  "\<exists>now t p j n. [Issue 0 ''tok'' demo_payload, Validate second ''tok'' demo_payload] ! 1 = Validate now t p \<and>
     j < 1 \<and> [Issue 0 ''tok'' demo_payload, Validate second ''tok'' demo_payload] ! j = Issue n t p \<and>
     now < n + ts_ttl (new_token_store 0) \<and>
     (\<forall>k. j < k \<longrightarrow> k < 1 \<longrightarrow>
        event_token ([Issue 0 ''tok'' demo_payload, Validate second ''tok'' demo_payload] ! k) \<noteq> t)"
  by (rule token_accepted_was_issued)
    (simp_all add: store_issue_def store_validate_def issue_token_def validate_token_def
      new_token_store_def default_token_ttl_def minute_def second_def Let_def)



text \<open>Every validation attempt consumes: after \<open>Validate\<close> on a configured store the token
  is gone, whatever the outcome, and no other token is touched.\<close>

lemma validate_consumes:
  "\<exists>st'. snd (validate_token (Some st) now token payload) = Some st' \<and>
     ts_tokens st' = (ts_tokens st)(token := None) \<and> ts_ttl st' = ts_ttl st"
  by (cases "ts_tokens st token") (auto simp: validate_token_def fun_eq_iff)

end
