(* ===== verification/Resolve.thy ===== *)
theory Resolve
  imports Json
begin

text \<open>
  \<open>internal/resolve\<close>, \<open>internal/paths\<close> and \<open>internal/dryrun\<close>: validation of identifiers that
  become path segments, construction of request paths, resolution of a name or ID to an ID,
  and the generic dry-run envelopes. The upstream list calls are parameters: \<open>list_all path query\<close>
  is \<open>clockify.ListAll\<close>, \<open>get_page path query\<close> one \<open>client.Get\<close>; \<open>'e\<close> is their error type.
\<close>

section \<open>Dry-run envelopes\<close>

definition dry_run_enabled :: "members option \<Rightarrow> bool" where
  "dry_run_enabled args =
     (case args of None \<Rightarrow> False | Some m \<Rightarrow> map_of m ''dry_run'' = Some (JBool True))"

definition unknown_validation :: "string \<Rightarrow> json" where
  "unknown_validation message =
     JObj [(''status'', JStr ''unknown''),
           (''preview_quality'', JStr ''minimal_no_handler_validation''),
           (''warnings'', JArr [JObj [(''code'', JStr ''not_validated''), (''message'', JStr message)]])]"

definition dry_run_preview :: "string \<Rightarrow> members \<Rightarrow> json" where
  "dry_run_preview tool args =
     JObj [(''dry_run'', JBool True), (''tool'', JStr tool), (''args'', JObj args),
           (''note'', JStr ''No changes were made.''),
           (''validation'', unknown_validation ''generic dry-run preview did not run tool-specific validation'')]"

definition dry_run_wrap :: "json \<Rightarrow> string \<Rightarrow> json" where
  "dry_run_wrap res tool =
     JObj [(''dry_run'', JBool True), (''tool'', JStr tool), (''preview'', res),
           (''note'', JStr ''This is a dry-run preview. No changes were made.''),
           (''validation'', unknown_validation ''destructive dry-run preview fetched the target resource but did not validate every execution precondition'')]"

definition dry_run_minimal :: "string \<Rightarrow> members \<Rightarrow> json" where
  "dry_run_minimal tool args =
     JObj [(''dry_run'', JBool True), (''tool'', JStr tool), (''args'', JObj args), (''resource'', JNull),
           (''note'', JStr ''This is a dry-run preview. No changes were made. No preview data available for this tool.''),
           (''validation'', unknown_validation ''minimal destructive dry-run has no safe read endpoint to validate the target'')]"

section \<open>Identifier validation\<close>

datatype id_error = TooLong string int | Empty string | InvalidChars string | ControlChars string

definition max_id_length :: int where "max_id_length = 36"
definition max_name_ref_length :: int where "max_name_ref_length = 128"

definition is_control :: "char \<Rightarrow> bool" where
  "is_control c \<longleftrightarrow> (of_char c :: nat) < 32 \<or> (of_char c :: nat) = 127"

definition validate_id :: "string \<Rightarrow> string \<Rightarrow> (id_error, unit) result" where
  "validate_id ident name =
     (if int (length ident) > max_id_length then Inl (TooLong name max_id_length)
      else if trim_space ident = [] then Inl (Empty name)
      else if contains_any ident ''/?#%'' then Inl (InvalidChars name)
      else if str_contains ident ''..'' then Inl (InvalidChars name)
      else if list_ex is_control ident then Inl (InvalidChars name)
      else Inr ())"

definition validate_name_ref :: "string \<Rightarrow> string \<Rightarrow> (id_error, unit) result" where
  "validate_name_ref ref kind =
     (if int (length ref) > max_name_ref_length then Inl (TooLong kind max_name_ref_length)
      else if trim_space ref = [] then Inl (Empty kind)
      else if list_ex is_control ref then Inl (ControlChars kind)
      else Inr ())"

definition safe_id :: "string \<Rightarrow> bool" where
  "safe_id s \<longleftrightarrow> s \<noteq> [] \<and> length s \<le> 36 \<and> set s \<inter> set ''/?#%'' = {} \<and>
     \<not> str_contains s ''..'' \<and> (\<forall>c \<in> set s. \<not> is_control c)"

lemma validate_id_ok: "validate_id ident name = Inr () \<longleftrightarrow> safe_id ident \<and> trim_space ident \<noteq> []"
  unfolding validate_id_def safe_id_def max_id_length_def
  by (auto simp: contains_any_iff list_ex_iff)

section \<open>Path construction\<close>

text \<open>\<open>url.PathEscape\<close>, and the decoding a server applies to a segment.\<close>

definition path_plain :: "char \<Rightarrow> bool" where
  "path_plain c \<longleftrightarrow>
     (let n = of_char c :: nat in
      (48 \<le> n \<and> n \<le> 57) \<or> (65 \<le> n \<and> n \<le> 90) \<or> (97 \<le> n \<and> n \<le> 122)) \<or>
     c \<in> set ''-_.~$&+:=@''"

definition hex_digit :: "nat \<Rightarrow> char" where
  "hex_digit n = (if n < 10 then char_of (48 + n) else char_of (55 + n))"

definition hex_val :: "char \<Rightarrow> nat" where
  "hex_val c = (let n = of_char c :: nat in if n < 58 then n - 48 else n - 55)"

definition path_escape_char :: "char \<Rightarrow> string" where
  "path_escape_char c =
     (if path_plain c then [c]
      else let n = of_char c :: nat in [CHR ''%'', hex_digit (n div 16), hex_digit (n mod 16)])"

definition path_escape :: "string \<Rightarrow> string" where
  "path_escape s = concat (map path_escape_char s)"

fun path_unescape :: "string \<Rightarrow> string" where
  "path_unescape [] = []"
| "path_unescape (c # s) =
     (if c = CHR ''%'' then
        (case s of
           a # b # r \<Rightarrow> char_of (16 * hex_val a + hex_val b) # path_unescape r
         | _ \<Rightarrow> c # path_unescape s)
      else c # path_unescape s)"

datatype path_error = BadWorkspace id_error | EmptySegment nat | SlashSegment nat string

fun path_segments :: "nat \<Rightarrow> string list \<Rightarrow> (path_error, string) result" where
  "path_segments i [] = Inr []"
| "path_segments i (seg # segs) =
     (if seg = [] then Inl (EmptySegment i)
      else if str_contains seg ''/'' then Inl (SlashSegment i seg)
      else bind_result (path_segments (Suc i) segs) (\<lambda>r. Inr (CHR ''/'' # path_escape seg @ r)))"

definition workspace_path :: "string \<Rightarrow> string list \<Rightarrow> (path_error, string) result" where
  "workspace_path ws sub =
     (case validate_id ws ''workspace_id'' of
        Inl e \<Rightarrow> Inl (BadWorkspace e)
      | Inr _ \<Rightarrow>
          (if sub = [] then Inr (''/workspaces/'' @ path_escape ws)
           else bind_result (path_segments 0 sub) (\<lambda>r. Inr (''/workspaces/'' @ path_escape ws @ r))))"

text \<open>The unexported copy of \<open>paths.Workspace\<close> in \<open>resolve.go\<close>.\<close>

definition resolve_workspace_path :: "string \<Rightarrow> string list \<Rightarrow> (path_error, string) result" where
  "resolve_workspace_path ws sub =
     (case validate_id ws ''workspace_id'' of
        Inl e \<Rightarrow> Inl (BadWorkspace e)
      | Inr _ \<Rightarrow> bind_result (path_segments 0 sub) (\<lambda>r. Inr (''/workspaces/'' @ path_escape ws @ r)))"

lemma path_plain_not: "\<not> path_plain (CHR ''%'')" "\<not> path_plain (CHR ''/'')"
  by (simp_all add: path_plain_def)

lemma hex_facts:
  assumes "n < 16"
  shows "hex_val (hex_digit n) = n" and "path_plain (hex_digit n)"
    and "hex_digit n \<noteq> CHR ''/''" and "hex_digit n \<noteq> CHR ''%''"
proof -
  have o1: "(of_char (hex_digit n) :: nat) = (if n < 10 then 48 + n else 55 + n)"
    using assms by (simp add: hex_digit_def of_char_of)
  then show "hex_val (hex_digit n) = n" by (simp add: hex_val_def Let_def)
  from o1 assms show "path_plain (hex_digit n)" by (simp add: path_plain_def Let_def)
  then show "hex_digit n \<noteq> CHR ''/''" "hex_digit n \<noteq> CHR ''%''"
    using path_plain_not by auto
qed

lemma char_nibbles: "(of_char c :: nat) div 16 < 16" "(of_char c :: nat) mod 16 < 16"
  by (simp_all add: less_mult_imp_div_less)

lemma path_escape_simps [simp]:
  "path_escape [] = []"
  "path_escape (c # s) = path_escape_char c @ path_escape s"
  by (simp_all add: path_escape_def)

lemma path_unescape_escape [simp]: "path_unescape (path_escape s) = s"
proof (induction s)
  case (Cons c s)
  have "16 * ((of_char c :: nat) div 16) + of_char c mod 16 = of_char c" by simp
  with Cons path_plain_not(1) show ?case
    by (auto simp: path_escape_char_def Let_def hex_facts char_nibbles)
qed simp

lemma slash_not_in_path_escape: "CHR ''/'' \<notin> set (path_escape s)"
  using path_plain_not(2) hex_facts(3) [OF char_nibbles(1)] hex_facts(3) [OF char_nibbles(2)]
  by (induction s) (force simp: path_escape_char_def Let_def split: if_splits)+

lemma path_escape_chars: "c \<in> set (path_escape s) \<Longrightarrow> path_plain c \<or> c = CHR ''%''"
  by (induction s)
    (auto simp: path_escape_char_def Let_def hex_facts(2) char_nibbles split: if_splits)

lemma path_segments_ok:
  "path_segments i segs = Inr r \<Longrightarrow>
     r = concat (map (\<lambda>s. CHR ''/'' # path_escape s) segs) \<and> [] \<notin> set segs"
  by (induction i segs arbitrary: r rule: path_segments.induct)
    (auto simp: bind_result_eq_Inr split: if_splits)

lemma split_no_sep: "c \<notin> set s \<Longrightarrow> split_on c s = [s]"
  by (induction s) auto

lemma split_on_append: "c \<notin> set s \<Longrightarrow> split_on c (s @ c # r) = s # split_on c r"
  by (induction s) auto

lemma split_segments:
  "CHR ''/'' \<notin> set s \<Longrightarrow>
     split_on (CHR ''/'') (s @ concat (map (\<lambda>s. CHR ''/'' # path_escape s) segs)) = s # map path_escape segs"
proof (induction segs arbitrary: s)
  case Nil
  then show ?case by (simp add: split_no_sep)
next
  case (Cons a segs)
  then show ?case using slash_not_in_path_escape [of a] by (simp add: split_on_append)
qed

lemma workspace_path_copies: "workspace_path ws sub = resolve_workspace_path ws sub"
  by (simp add: workspace_path_def resolve_workspace_path_def split: sum.splits)

lemma workspace_path_shape:
  assumes "workspace_path ws sub = Inr p"
  shows "safe_id ws" and "p = ''/workspaces/'' @ path_escape ws @ concat (map (\<lambda>s. CHR ''/'' # path_escape s) sub)"
    and "[] \<notin> set sub"
  using assms validate_id_ok [of ws "''workspace_id''"] path_segments_ok [of 0 sub]
  by (auto simp: workspace_path_copies resolve_workspace_path_def bind_result_eq_Inr split: sum.splits)

text \<open>C22 (request paths cannot be injected into): a path that is built at all splits at its
  slashes into exactly \<open>workspaces\<close>, the workspace ID and the given sub-segments, none of them empty,
  each of which decodes back to what the caller passed; and it consists of plain path characters,
  percent escapes and the separators only.\<close>

theorem workspace_path_safe:
  assumes "workspace_path ws sub = Inr p"
  shows "map path_unescape (split_on (CHR ''/'') p) = [[], ''workspaces'', ws] @ sub \<and>
         ws \<noteq> [] \<and> [] \<notin> set sub \<and>
         (\<forall>c \<in> set p. path_plain c \<or> c = CHR ''%'' \<or> c = CHR ''/'')"
proof -
  note shape = workspace_path_shape [OF assms]
  have "p = [] @ CHR ''/'' # ''workspaces'' @ CHR ''/'' #
      (path_escape ws @ concat (map (\<lambda>s. CHR ''/'' # path_escape s) sub))"
    using shape(2) by simp
  then have "split_on (CHR ''/'') p = [] # ''workspaces'' # path_escape ws # map path_escape sub"
    by (simp only: split_on_append split_segments slash_not_in_path_escape list.set
        empty_iff not_False_eq_True) (simp add: split_segments slash_not_in_path_escape)
  moreover have "path_unescape ''workspaces'' = ''workspaces''" by simp
  moreover have "\<forall>c \<in> set p. path_plain c \<or> c = CHR ''%'' \<or> c = CHR ''/''"
    using path_escape_chars by (auto simp: shape(2)) (simp_all add: path_plain_def)
  ultimately show ?thesis using shape by (simp add: comp_def safe_id_def)
qed

lemma workspace_path_safe_witness:
  "\<exists>p. workspace_path ''w 1'' [''projects'', ''a?b''] = Inr p \<and>
     map path_unescape (split_on (CHR ''/'') p) = [[], ''workspaces'', ''w 1''] @ [''projects'', ''a?b'']"
proof -
  have "workspace_path ''w 1'' [''projects'', ''a?b''] = Inr ''/workspaces/w%201/projects/a%3Fb''"
    by code_simp
  from workspace_path_safe [OF this] this show ?thesis by blast
qed

text \<open>The character class lets a lone dot through, which is a dot segment of a URL path.\<close>

lemma validate_id_accepts_dot: "workspace_path ''.'' [''users''] = Inr ''/workspaces/./users''"
  by code_simp

section \<open>Resolving a name or an ID\<close>

definition looks_like_email :: "string \<Rightarrow> bool" where
  "looks_like_email s =
     (case index_byte (CHR ''@'') s of
        None \<Rightarrow> False
      | Some a \<Rightarrow>
          if a < 1 \<or> length s \<le> a + 1 then False
          else (case last_index_byte (CHR ''.'') (drop a s) of None \<Rightarrow> False | Some dot \<Rightarrow> dot > 1))"

definition is_hex :: "char \<Rightarrow> bool" where
  "is_hex c \<longleftrightarrow>
     (let n = of_char c :: nat in
      (48 \<le> n \<and> n \<le> 57) \<or> (97 \<le> n \<and> n \<le> 102) \<or> (65 \<le> n \<and> n \<le> 70))"

definition looks_like_clockify_id :: "string \<Rightarrow> bool" where
  "looks_like_clockify_id v \<longleftrightarrow> length v = 24 \<and> list_all is_hex v"

datatype 'e resolve_error =
    BadRef id_error
  | BadPath path_error
  | Upstream 'e
  | NotFound string string
  | Ambiguous string string nat
  | MissingId string
  | SafetyStop string int

definition exact_matches :: "members list \<Rightarrow> string \<Rightarrow> string \<Rightarrow> members list" where
  "exact_matches items candidate field = filter (\<lambda>it. equal_fold (str_member it field) candidate) items"

type_synonym query = "(string \<times> string) list"

definition resolve_by_name_or_id ::
  "(string \<Rightarrow> query \<Rightarrow> ('e, members list) result) \<Rightarrow> string \<Rightarrow> string \<Rightarrow> string \<Rightarrow>
   ('e resolve_error, string) result" where
  "resolve_by_name_or_id list_all0 path ref kind =
     (if looks_like_clockify_id ref
      then (case validate_id ref kind of Inl e \<Rightarrow> Inl (BadRef e) | Inr _ \<Rightarrow> Inr ref)
      else (case validate_name_ref ref kind of
              Inl e \<Rightarrow> Inl (BadRef e)
            | Inr _ \<Rightarrow>
                (case list_all0 path [(''name'', ref), (''strict-name-search'', ''true''), (''page-size'', ''200'')] of
                   Inl e \<Rightarrow> Inl (Upstream e)
                 | Inr items \<Rightarrow>
                     (case exact_matches items ref ''name'' of
                        [] \<Rightarrow> Inl (NotFound kind ref)
                      | [m] \<Rightarrow>
                          if str_member m ''id'' = [] then Inl (MissingId kind)
                          else Inr (str_member m ''id'')
                      | ms \<Rightarrow> Inl (Ambiguous kind ref (length ms))))))"

definition resolve_in ::
  "(string \<Rightarrow> query \<Rightarrow> ('e, members list) result) \<Rightarrow> string \<Rightarrow> string list \<Rightarrow> string \<Rightarrow> string \<Rightarrow>
   ('e resolve_error, string) result" where
  "resolve_in list_all0 ws sub ref kind =
     (case resolve_workspace_path ws sub of
        Inl e \<Rightarrow> Inl (BadPath e)
      | Inr path \<Rightarrow> resolve_by_name_or_id list_all0 path ref kind)"

definition project_id where
  "project_id list_all0 ws ref = resolve_in list_all0 ws [''projects''] ref ''project''"

definition client_id where
  "client_id list_all0 ws ref = resolve_in list_all0 ws [''clients''] ref ''client''"

definition tag_id where
  "tag_id list_all0 ws ref = resolve_in list_all0 ws [''tags''] ref ''tag''"

definition task_id where
  "task_id list_all0 ws proj ref = resolve_in list_all0 ws [''projects'', proj, ''tasks''] ref ''task''"

subsection \<open>Users\<close>

definition user_matches :: "bool \<Rightarrow> string \<Rightarrow> members \<Rightarrow> bool" where
  "user_matches is_email ref user =
     (if is_email then equal_fold (str_member user ''email'') ref
      else equal_fold (str_member user ''name'') ref \<or> equal_fold (str_member user ''email'') ref)"

text \<open>One page of the loop in \<open>UserID\<close>: the matches counted so far and the ID matched.\<close>

fun scan_users ::
  "bool \<Rightarrow> string \<Rightarrow> members list \<Rightarrow> nat \<Rightarrow> string \<Rightarrow> ('e resolve_error, nat \<times> string) result" where
  "scan_users is_email ref [] n matched = Inr (n, matched)"
| "scan_users is_email ref (u # us) n matched =
     (if \<not> user_matches is_email ref u then scan_users is_email ref us n matched
      else if Suc n > 1 then Inl (Ambiguous ''user'' ref (Suc n))
      else if str_member u ''id'' = [] then Inl (MissingId ''user'')
      else scan_users is_email ref us (Suc n) (str_member u ''id''))"

definition user_page_size :: nat where "user_page_size = 200"

function user_pages ::
  "(int \<Rightarrow> ('e, members list) result) \<Rightarrow> bool \<Rightarrow> string \<Rightarrow> string \<Rightarrow> int \<Rightarrow> nat \<Rightarrow> string \<Rightarrow>
   ('e resolve_error, string) result" where
  "user_pages get_page is_email ref path page n matched =
     (case get_page page of
        Inl e \<Rightarrow> Inl (Upstream e)
      | Inr users \<Rightarrow>
          bind_result (scan_users is_email ref users n matched) (\<lambda>(n', matched').
            if length users = 0 \<or> length users < user_page_size
            then (if matched' \<noteq> [] then Inr matched' else Inl (NotFound ''user'' ref))
            else if page \<ge> 1000 then Inl (SafetyStop path (int user_page_size))
            else user_pages get_page is_email ref path (page + 1) n' matched'))"
  by pat_completeness auto
termination
  by (relation "measure (\<lambda>(_, _, _, _, page, _, _). nat (1000 - page))") auto

declare user_pages.simps [simp del]

definition user_id ::
  "(string \<Rightarrow> query \<Rightarrow> ('e, members list) result) \<Rightarrow> string \<Rightarrow> string \<Rightarrow> ('e resolve_error, string) result" where
  "user_id get ws ref =
     (if looks_like_clockify_id ref
      then (case validate_id ref ''user'' of Inl e \<Rightarrow> Inl (BadRef e) | Inr _ \<Rightarrow> Inr ref)
      else (case validate_name_ref ref ''user'' of
              Inl e \<Rightarrow> Inl (BadRef e)
            | Inr _ \<Rightarrow>
                (case resolve_workspace_path ws [''users''] of
                   Inl e \<Rightarrow> Inl (BadPath e)
                 | Inr path \<Rightarrow>
                     (let is_email = looks_like_email ref;
                          q = (''page-size'', itoa (int user_page_size)) #
                              (if is_email then [(''email'', ref)]
                               else [(''name'', ref), (''strict-name-search'', ''true'')])
                      in user_pages (\<lambda>page. get path (q @ [(''page'', itoa page)])) is_email ref path 1 0 []))))"

lemma scan_users_ok:
  assumes "(scan_users is_email ref us n matched :: ('e resolve_error, nat \<times> string) result) = Inr (n', matched')"
    and "n \<le> 1"
  shows "n' = n + length (filter (user_matches is_email ref) us) \<and> n' \<le> 1 \<and>
     matched' = (if filter (user_matches is_email ref) us = [] then matched
                 else str_member (hd (filter (user_matches is_email ref) us)) ''id'') \<and>
     (\<forall>m \<in> set (filter (user_matches is_email ref) us). str_member m ''id'' \<noteq> [])"
  using assms
proof (induction us arbitrary: n matched)
  case Nil
  then show ?case by simp
next
  case (Cons u us)
  show ?case
  proof (cases "user_matches is_email ref u")
    case False
    with Cons.IH [of n matched] Cons.prems show ?thesis by auto
  next
    case True
    with Cons.prems have n: "n = 0" "str_member u ''id'' \<noteq> []"
      and s: "(scan_users is_email ref us (Suc n) (str_member u ''id'')
                 :: ('e resolve_error, nat \<times> string) result) = Inr (n', matched')"
      by (auto split: if_splits)
    from Cons.IH [OF s] n True show ?thesis
      by (cases "filter (user_matches is_email ref) us") auto
  qed
qed

text \<open>The loop reads the pages up to the first short one and keeps count of the matches.\<close>

lemma user_pages_ok:
  fixes get_page :: "int \<Rightarrow> ('e, members list) result"
  assumes "user_pages get_page is_email ref path page n matched = Inr ident" and "n \<le> 1"
    and "n = 0 \<longleftrightarrow> matched = []"
  shows "\<exists>k pages. (\<forall>i < k. get_page (page + int i) = Inr (pages ! i)) \<and> length pages = k \<and> 0 < k \<and>
    length (last pages) < user_page_size \<and>
    (let ms = filter (user_matches is_email ref) (concat pages)
     in n + length ms = 1 \<and> ident = (if ms = [] then matched else str_member (hd ms) ''id'') \<and> ident \<noteq> [])"
  using assms
proof (induction get_page is_email ref path page n matched rule: user_pages.induct)
  case (1 get_page is_email ref path page n matched)
  note run = "1.prems"(1) [unfolded user_pages.simps [of get_page is_email ref path page n matched]]
  then obtain users where u: "get_page page = Inr users" by (cases "get_page page") auto
  with run obtain n' matched' where
    sc: "(scan_users is_email ref users n matched :: ('e resolve_error, nat \<times> string) result) = Inr (n', matched')"
    by (cases "scan_users is_email ref users n matched :: ('e resolve_error, nat \<times> string) result") auto
  with run u have k: "(if length users = 0 \<or> length users < user_page_size
             then (if matched' \<noteq> [] then Inr matched' else Inl (NotFound ''user'' ref))
             else if page \<ge> 1000 then Inl (SafetyStop path (int user_page_size))
             else user_pages get_page is_email ref path (page + 1) n' matched') = Inr ident"
    by simp
  let ?ms = "filter (user_matches is_email ref) users"
  have ms: "n' = n + length ?ms" "n' \<le> 1"
    "matched' = (if ?ms = [] then matched else str_member (hd ?ms) ''id'')"
    "\<forall>m \<in> set ?ms. str_member m ''id'' \<noteq> []"
    using scan_users_ok [OF sc "1.prems"(2)] by simp_all
  have inv: "n' = 0 \<longleftrightarrow> matched' = []"
    using ms "1.prems"(3) by (cases ?ms) auto
  show ?case
  proof (cases "length users = 0 \<or> length users < user_page_size")
    case True
    with k have i: "matched' \<noteq> []" "ident = matched'" by (simp_all split: if_splits)
    with inv ms(2) have "n' = 1" by simp
    moreover have "\<forall>i < 1. get_page (page + int i) = Inr ([users] ! i)" using u by simp
    moreover have "length users < user_page_size" using True by (auto simp: user_page_size_def)
    ultimately show ?thesis using i ms
      by (intro exI [of _ "1 :: nat"] exI [of _ "[users]"]) (simp add: Let_def)
  next
    case False
    with k have p: "\<not> page \<ge> 1000" by (auto split: if_splits)
    from "1.IH" [OF u sc refl False p] k False p ms(2) inv obtain k pages where
      pg: "\<forall>i < k. get_page (page + 1 + int i) = Inr (pages ! i)" "length pages = k" "0 < k"
        "length (last pages) < user_page_size"
      and r: "n' + length (filter (user_matches is_email ref) (concat pages)) = 1"
        "ident = (if filter (user_matches is_email ref) (concat pages) = [] then matched'
                  else str_member (hd (filter (user_matches is_email ref) (concat pages))) ''id'')"
        "ident \<noteq> []"
      by (auto simp: Let_def)
    have "get_page (page + int i) = Inr ((users # pages) ! i)" if "i < Suc k" for i
      using that u pg(1) [rule_format, of "i - 1"] by (cases i) (auto simp: algebra_simps)
    moreover have "?ms = [] \<or> filter (user_matches is_email ref) (concat pages) = []"
      using r(1) ms(1) by (cases ?ms; cases "filter (user_matches is_email ref) (concat pages)") auto
    ultimately show ?thesis using pg r ms
      by (intro exI [of _ "Suc k"] exI [of _ "users # pages"]) (auto simp: Let_def)
  qed
qed

text \<open>An ID found by user lookup is unambiguous: when the paged search returns an ID, the
  loop has read consecutive pages from the first one to a short one, exactly one user of all these pages
  matches, and the result is that user's non-empty ID.\<close>

lemma user_lookup_unambiguous:
  assumes "user_pages get_page is_email ref path 1 0 [] = Inr ident"
  shows "\<exists>pages u. (\<forall>i < length pages. get_page (1 + int i) = Inr (pages ! i)) \<and>
    length (last pages) < user_page_size \<and>
    filter (user_matches is_email ref) (concat pages) = [u] \<and>
    ident = str_member u ''id'' \<and> ident \<noteq> []"
proof -
  obtain pages where p: "\<forall>i < length pages. get_page (1 + int i) = Inr (pages ! i)"
      "length (last pages) < user_page_size"
      "length (filter (user_matches is_email ref) (concat pages)) = 1"
      "ident = (if filter (user_matches is_email ref) (concat pages) = [] then []
        else str_member (hd (filter (user_matches is_email ref) (concat pages))) ''id'')" "ident \<noteq> []"
    using user_pages_ok [OF assms] by (auto simp: Let_def)
  then obtain u where "filter (user_matches is_email ref) (concat pages) = [u]"
    by (auto simp: length_Suc_conv)
  with p show ?thesis by auto
qed

definition demo_users :: "int \<Rightarrow> (unit, members list) result" where
  "demo_users page = Inr (if page = 1 then [[(''name'', JStr ''Ann''), (''id'', JStr ''u1'')]] else [])"

lemma user_lookup_unambiguous_witness:
  "\<exists>pages u. (\<forall>i < length pages. demo_users (1 + int i) = Inr (pages ! i)) \<and>
    length (last pages) < user_page_size \<and>
    filter (user_matches False ''ann'') (concat pages) = [u] \<and>
    ''u1'' = str_member u ''id'' \<and> ''u1'' \<noteq> []"
  by (rule user_lookup_unambiguous [of _ _ _ "[]"]) code_simp

text \<open>Name resolution is exact: a resolved project, client, tag or task ID is either the
  24-digit hexadecimal reference itself, safe as a path segment, or the non-empty ID of the only listed
  item whose name equals the reference up to case.\<close>

lemma resolve_exact:
  assumes "resolve_by_name_or_id list_all0 path ref kind = Inr ident"
  shows "(looks_like_clockify_id ref \<and> ident = ref \<and> safe_id ident) \<or>
    (\<exists>items m. list_all0 path [(''name'', ref), (''strict-name-search'', ''true''), (''page-size'', ''200'')] = Inr items \<and>
       filter (\<lambda>it. equal_fold (str_member it ''name'') ref) items = [m] \<and>
       ident = str_member m ''id'' \<and> ident \<noteq> [])"
  using assms validate_id_ok [of ref kind]
  by (auto simp: resolve_by_name_or_id_def exact_matches_def split: if_splits sum.splits list.splits)

lemma resolve_exact_witness:
  "\<exists>items m. (Inr [[(''name'', JStr ''ACME''), (''id'', JStr ''p1'')]] :: (unit, members list) result) = Inr items \<and>
     filter (\<lambda>it. equal_fold (str_member it ''name'') ''acme'') items = [m] \<and>
     ''p1'' = str_member m ''id''"
proof -
  have "resolve_by_name_or_id (\<lambda>_ _. Inr [[(''name'', JStr ''ACME''), (''id'', JStr ''p1'')]] :: (unit, members list) result)
      ''/p'' ''acme'' ''project'' = Inr ''p1''" by code_simp
  from resolve_exact [OF this] show ?thesis by (auto simp: looks_like_clockify_id_def)
qed

end
