(* ===== verification/CircuitBreaker.thy ===== *)
theory CircuitBreaker
  imports GoTime
begin

text \<open>
  \<open>internal/clockify/circuit_breaker.go\<close>: the per-endpoint circuit breaker of the HTTP client.
  \<open>breaker_before\<close> and \<open>breaker_after\<close> are \<open>Before\<close> and \<open>After\<close> under the breaker's mutex,
  with the clock reading as an argument. \<open>breaker_step\<close> is the resulting transition system, one
  step per call, whose reachable states satisfy \<open>breaker_inv\<close>. A nil breaker is \<open>None\<close>.
\<close>

section \<open>State\<close>

datatype breaker_state_name = BreakerClosed | BreakerOpen | BreakerHalfOpen

record breaker_key =
  bk_endpoint :: string
  bk_method :: string

record endpoint_state =
  es_state :: breaker_state_name
  es_failures :: nat
  es_opened_at :: instant
  es_in_flight :: nat

record circuit_breaker =
  cb_enabled :: bool
  cb_threshold :: nat
  cb_open_duration :: duration
  cb_probes :: nat
  cb_states :: "breaker_key \<rightharpoonup> endpoint_state"

record breaker_config =
  bc_enabled :: bool
  bc_threshold :: int
  bc_open_duration :: duration
  bc_probes :: int

record open_error =
  oe_endpoint :: string
  oe_method :: string
  oe_retry_after :: duration

definition new_breaker :: "breaker_config \<Rightarrow> circuit_breaker" where
  "new_breaker cfg =
     \<lparr>cb_enabled = bc_enabled cfg,
      cb_threshold = (if bc_threshold cfg \<le> 0 then 5 else nat (bc_threshold cfg)),
      cb_open_duration = (if bc_open_duration cfg \<le> 0 then 45 * second else bc_open_duration cfg),
      cb_probes = (if bc_probes cfg \<le> 0 then 1 else nat (bc_probes cfg)),
      cb_states = Map.empty\<rparr>"

definition fresh_endpoint :: endpoint_state where
  "fresh_endpoint = \<lparr>es_state = BreakerClosed, es_failures = 0, es_opened_at = 0, es_in_flight = 0\<rparr>"

definition ensure_state :: "circuit_breaker \<Rightarrow> breaker_key \<Rightarrow> endpoint_state" where
  "ensure_state b key = (case cb_states b key of Some st \<Rightarrow> st | None \<Rightarrow> fresh_endpoint)"

section \<open>Operations\<close>

definition transition :: "endpoint_state \<Rightarrow> breaker_state_name \<Rightarrow> instant \<Rightarrow> endpoint_state" where
  "transition st next_state now =
     (if es_state st = next_state then st
      else st\<lparr>es_state := next_state, es_failures := 0,
              es_opened_at := (if next_state = BreakerOpen then now else es_opened_at st),
              es_in_flight := (if next_state \<noteq> BreakerHalfOpen then 0 else es_in_flight st)\<rparr>)"

text \<open>\<open>Before\<close> on one endpoint: the cool-down it is rejected with, if any, and the new state.\<close>

definition endpoint_before ::
  "circuit_breaker \<Rightarrow> endpoint_state \<Rightarrow> instant \<Rightarrow> duration option \<times> endpoint_state" where
  "endpoint_before b st now =
     (let elapsed = now - es_opened_at st in
      if es_state st = BreakerOpen \<and> elapsed < cb_open_duration b
      then (Some (cb_open_duration b - elapsed), st)
      else
        (let st1 = (if es_state st = BreakerOpen then transition st BreakerHalfOpen now else st) in
         if es_state st1 = BreakerHalfOpen
         then (if cb_probes b \<le> es_in_flight st1 then (Some (cb_open_duration b), st1)
               else (None, st1\<lparr>es_in_flight := es_in_flight st1 + 1\<rparr>))
         else (None, st1)))"

definition endpoint_after :: "circuit_breaker \<Rightarrow> endpoint_state \<Rightarrow> instant \<Rightarrow> bool \<Rightarrow> endpoint_state" where
  "endpoint_after b st now upstream_failure =
     (let st1 = (if es_state st = BreakerHalfOpen \<and> 0 < es_in_flight st
                 then st\<lparr>es_in_flight := es_in_flight st - 1\<rparr> else st) in
      if \<not> upstream_failure
      then (let st2 = st1\<lparr>es_failures := 0\<rparr> in
            if es_state st2 \<noteq> BreakerClosed then transition st2 BreakerClosed now else st2)
      else (case es_state st1 of
              BreakerHalfOpen \<Rightarrow> transition st1 BreakerOpen now
            | BreakerOpen \<Rightarrow> st1\<lparr>es_opened_at := now\<rparr>
            | BreakerClosed \<Rightarrow>
                (let st2 = st1\<lparr>es_failures := es_failures st1 + 1\<rparr> in
                 if cb_threshold b \<le> es_failures st2 then transition st2 BreakerOpen now else st2)))"

definition breaker_before ::
  "circuit_breaker option \<Rightarrow> string \<Rightarrow> string \<Rightarrow> instant \<Rightarrow> open_error option \<times> circuit_breaker option" where
  "breaker_before bo endpoint meth now =
     (case bo of
        None \<Rightarrow> (None, bo)
      | Some b \<Rightarrow>
          if \<not> cb_enabled b then (None, bo)
          else
            (let key = \<lparr>bk_endpoint = endpoint, bk_method = meth\<rparr>;
                 (r, st) = endpoint_before b (ensure_state b key) now
             in (map_option (\<lambda>d. \<lparr>oe_endpoint = endpoint, oe_method = meth, oe_retry_after = d\<rparr>) r,
                 Some (b\<lparr>cb_states := (cb_states b)(key \<mapsto> st)\<rparr>))))"

definition breaker_after ::
  "circuit_breaker option \<Rightarrow> string \<Rightarrow> string \<Rightarrow> instant \<Rightarrow> bool \<Rightarrow> circuit_breaker option" where
  "breaker_after bo endpoint meth now upstream_failure =
     (case bo of
        None \<Rightarrow> bo
      | Some b \<Rightarrow>
          if \<not> cb_enabled b then bo
          else
            (let key = \<lparr>bk_endpoint = endpoint, bk_method = meth\<rparr>
             in Some (b\<lparr>cb_states := (cb_states b)
                        (key \<mapsto> endpoint_after b (ensure_state b key) now upstream_failure)\<rparr>)))"

section \<open>Transition system\<close>

datatype breaker_event =
    Before string string instant "open_error option"
  | After string string instant bool

text \<open>The configuration fields never change: the system runs over the states of one breaker.\<close>

inductive breaker_step :: "circuit_breaker \<Rightarrow> breaker_event \<Rightarrow> circuit_breaker \<Rightarrow> bool" where
  before: "breaker_before (Some b) ep m now = (r, Some b') \<Longrightarrow> breaker_step b (Before ep m now r) b'"
| after: "breaker_after (Some b) ep m now f = Some b' \<Longrightarrow> breaker_step b (After ep m now f) b'"

inductive_cases breaker_stepE: "breaker_step b e b'"
inductive_simps breaker_step_before [simp]: "breaker_step b (Before ep m now r) b'"
inductive_simps breaker_step_after [simp]: "breaker_step b (After ep m now f) b'"

inductive breaker_reachable :: "breaker_config \<Rightarrow> circuit_breaker \<Rightarrow> bool" for cfg where
  init: "breaker_reachable cfg (new_breaker cfg)"
| step: "breaker_reachable cfg b \<Longrightarrow> breaker_step b e b' \<Longrightarrow> breaker_reachable cfg b'"

definition endpoint_inv :: "circuit_breaker \<Rightarrow> endpoint_state \<Rightarrow> bool" where
  "endpoint_inv b st \<longleftrightarrow>
     es_in_flight st \<le> cb_probes b \<and>
     (es_state st \<noteq> BreakerHalfOpen \<longrightarrow> es_in_flight st = 0) \<and>
     es_failures st < cb_threshold b \<and>
     (es_state st \<noteq> BreakerClosed \<longrightarrow> es_failures st = 0)"

definition breaker_inv :: "circuit_breaker \<Rightarrow> bool" where
  "breaker_inv b \<longleftrightarrow>
     0 < cb_threshold b \<and> 0 < cb_open_duration b \<and> 0 < cb_probes b \<and>
     (\<forall>key st. cb_states b key = Some st \<longrightarrow> endpoint_inv b st)"

lemma endpoint_before_inv:
  assumes "endpoint_inv b st" and "0 < cb_threshold b" and "endpoint_before b st now = (r, st')"
  shows "endpoint_inv b st'"
  using assms
  by (cases "es_state st") (auto simp: endpoint_inv_def endpoint_before_def transition_def Let_def split: if_splits)

lemma endpoint_after_inv:
  assumes "endpoint_inv b st" and "0 < cb_threshold b"
  shows "endpoint_inv b (endpoint_after b st now f)"
  using assms
  by (cases "es_state st") (auto simp: endpoint_inv_def endpoint_after_def transition_def Let_def)

lemma endpoint_inv_cong [simp]:
  "endpoint_inv (b\<lparr>cb_states := m\<rparr>) st = endpoint_inv b st"
  by (simp add: endpoint_inv_def)

lemma ensure_state_inv: "breaker_inv b \<Longrightarrow> endpoint_inv b (ensure_state b key)"
  by (auto simp: breaker_inv_def ensure_state_def fresh_endpoint_def endpoint_inv_def split: option.splits)

lemma breaker_step_inv: "breaker_step b e b' \<Longrightarrow> breaker_inv b \<Longrightarrow> breaker_inv b'"
proof (erule breaker_stepE)
  fix ep m now r
  assume i: "breaker_inv b" and s: "breaker_before (Some b) ep m now = (r, Some b')"
  show ?thesis
  proof (cases "cb_enabled b")
    case True
    define key where "key = \<lparr>bk_endpoint = ep, bk_method = m\<rparr>"
    obtain r' st where e: "endpoint_before b (ensure_state b key) now = (r', st)" by fastforce
    with s True have "b' = b\<lparr>cb_states := (cb_states b)(key \<mapsto> st)\<rparr>"
      by (auto simp: breaker_before_def key_def Let_def)
    with i endpoint_before_inv [OF ensure_state_inv [OF i] _ e] show ?thesis
      by (auto simp: breaker_inv_def)
  qed (use i s in \<open>simp add: breaker_before_def\<close>)
next
  fix ep m now f
  assume i: "breaker_inv b" and s: "breaker_after (Some b) ep m now f = Some b'"
  then show ?thesis
    using endpoint_after_inv [OF ensure_state_inv [OF i]]
    by (auto simp: breaker_after_def breaker_inv_def Let_def split: if_splits)
qed

lemma breaker_step_config:
  "breaker_step b e b' \<Longrightarrow>
     cb_enabled b' = cb_enabled b \<and> cb_threshold b' = cb_threshold b \<and>
     cb_open_duration b' = cb_open_duration b \<and> cb_probes b' = cb_probes b"
  by (erule breaker_stepE)
    (auto simp: breaker_before_def breaker_after_def Let_def split: if_splits prod.splits)

lemma reachable_inv: "breaker_reachable cfg b \<Longrightarrow> breaker_inv b"
proof (induction rule: breaker_reachable.induct)
  case init
  show ?case by (auto simp: breaker_inv_def new_breaker_def second_def)
next
  case (step b e b')
  then show ?case using breaker_step_inv by blast
qed

text \<open>Breaker invariant: in every state a breaker can reach, whatever the interleaving of
  admitted and finished requests, an endpoint never has more probes in flight than allowed, has none
  unless it is half open, and counts fewer failures than the threshold, none unless it is closed.\<close>

lemma breaker_invariant:
  "breaker_reachable cfg b \<Longrightarrow> breaker_inv b"
  by (rule reachable_inv)

definition demo_config :: breaker_config where
  "demo_config = \<lparr>bc_enabled = True, bc_threshold = 2, bc_open_duration = 10 * second, bc_probes = 1\<rparr>"

fun breaker_exec :: "circuit_breaker \<Rightarrow> (string \<times> string \<times> instant \<times> bool option) list \<Rightarrow> circuit_breaker" where
  "breaker_exec b [] = b"
| "breaker_exec b ((ep, m, now, None) # es) =
     breaker_exec (the (snd (breaker_before (Some b) ep m now))) es"
| "breaker_exec b ((ep, m, now, Some f) # es) =
     breaker_exec (the (breaker_after (Some b) ep m now f)) es"

lemma before_total: "\<exists>r b'. breaker_before (Some b) ep m now = (r, Some b')"
  by (simp add: breaker_before_def Let_def split: prod.splits)

lemma after_total: "\<exists>b'. breaker_after (Some b) ep m now f = Some b'"
  by (simp add: breaker_after_def Let_def)

lemma breaker_exec_reachable: "breaker_reachable cfg b \<Longrightarrow> breaker_reachable cfg (breaker_exec b es)"
proof (induction b es rule: breaker_exec.induct)
  case (2 b ep m now es)
  obtain r b' where "breaker_before (Some b) ep m now = (r, Some b')" using before_total by blast
  with 2 breaker_reachable.step [OF "2.prems" breaker_step.before] show ?case by simp
next
  case (3 b ep m now f es)
  obtain b' where "breaker_after (Some b) ep m now f = Some b'" using after_total by blast
  with 3 breaker_reachable.step [OF "3.prems" breaker_step.after] show ?case by simp
qed simp

lemma breaker_invariant_witness:
  "breaker_inv (breaker_exec (new_breaker demo_config)
     [(''/users'', ''GET'', 0, None), (''/users'', ''GET'', 1, Some True), (''/users'', ''GET'', 2, Some True)])"
  by (rule breaker_invariant [of demo_config], rule breaker_exec_reachable, rule breaker_reachable.init)

section \<open>What an open endpoint does\<close>

text \<open>An open circuit rejects until its cool-down ends: in a reachable state, while an
  endpoint is open a request is admitted exactly when the open duration has passed since it opened;
  a request that is rejected earlier leaves the endpoint as it was and is told to retry after the
  positive rest of the cool-down; an admitted one turns it half open with one probe in flight.\<close>

lemma open_rejects_until_cooldown:
  assumes "breaker_reachable cfg b" and "cb_enabled b"
    and "cb_states b \<lparr>bk_endpoint = ep, bk_method = m\<rparr> = Some st" and "es_state st = BreakerOpen"
    and "breaker_before (Some b) ep m now = (r, Some b')"
  shows "(now - es_opened_at st < cb_open_duration b \<and> b' = b \<and>
            (\<exists>d. r = Some \<lparr>oe_endpoint = ep, oe_method = m, oe_retry_after = d\<rparr> \<and>
                 0 < d \<and> now + d = es_opened_at st + cb_open_duration b)) \<or>
         (cb_open_duration b \<le> now - es_opened_at st \<and> r = None \<and>
            (\<exists>st'. cb_states b' \<lparr>bk_endpoint = ep, bk_method = m\<rparr> = Some st' \<and>
               es_state st' = BreakerHalfOpen \<and> es_in_flight st' = 1))"
proof -
  from reachable_inv [OF assms(1)] assms(3,4) have inv: "0 < cb_probes b" "es_in_flight st = 0"
    by (auto simp: breaker_inv_def endpoint_inv_def)
  show ?thesis
  proof (cases "now - es_opened_at st < cb_open_duration b")
    case True
    then have "endpoint_before b st now = (Some (cb_open_duration b - (now - es_opened_at st)), st)"
      by (simp add: endpoint_before_def assms(4) Let_def)
    with assms True show ?thesis
      by (auto simp: breaker_before_def ensure_state_def fun_upd_idem Let_def)
  next
    case False
    then have "endpoint_before b st now =
        (None, (transition st BreakerHalfOpen now)\<lparr>es_in_flight := 1\<rparr>)"
      using assms(4) inv by (simp add: endpoint_before_def transition_def Let_def)
    with assms False inv show ?thesis
      by (auto simp: breaker_before_def ensure_state_def transition_def Let_def)
  qed
qed

definition tripped :: circuit_breaker where
  "tripped = breaker_exec (new_breaker demo_config)
     [(''/users'', ''GET'', 0, None), (''/users'', ''GET'', 0, Some True),
      (''/users'', ''GET'', 0, None), (''/users'', ''GET'', second, Some True)]"

lemma tripped_state:
  "cb_states tripped \<lparr>bk_endpoint = ''/users'', bk_method = ''GET''\<rparr> =
     Some \<lparr>es_state = BreakerOpen, es_failures = 0, es_opened_at = second, es_in_flight = 0\<rparr>"
  "cb_enabled tripped" "cb_open_duration tripped = 10 * second"
  by (simp_all add: tripped_def demo_config_def new_breaker_def breaker_before_def breaker_after_def
      ensure_state_def fresh_endpoint_def endpoint_before_def endpoint_after_def transition_def Let_def
      second_def)

lemma open_rejects_until_cooldown_witness:
  "\<exists>d. fst (breaker_before (Some tripped) ''/users'' ''GET'' (4 * second)) =
         Some \<lparr>oe_endpoint = ''/users'', oe_method = ''GET'', oe_retry_after = d\<rparr> \<and> 0 < d"
proof -
  obtain r b' where r: "breaker_before (Some tripped) ''/users'' ''GET'' (4 * second) = (r, Some b')"
    using before_total by blast
  have "breaker_reachable demo_config tripped"
    unfolding tripped_def by (rule breaker_exec_reachable, rule breaker_reachable.init)
  from open_rejects_until_cooldown [OF this tripped_state(2,1) _ r] r show ?thesis
    by (auto simp: tripped_state second_def)
qed

text \<open>Consecutive failures of a closed endpoint, recorded at the given times.\<close>

definition fail_run :: "circuit_breaker \<Rightarrow> endpoint_state \<Rightarrow> instant list \<Rightarrow> endpoint_state" where
  "fail_run b st ts = foldl (\<lambda>s t. endpoint_after b s t True) st ts"

lemma fail_run_closed:
  "es_state st = BreakerClosed \<Longrightarrow> es_failures st + length ts < cb_threshold b \<Longrightarrow>
     fail_run b st ts = st\<lparr>es_failures := es_failures st + length ts\<rparr>"
  by (induction ts arbitrary: st) (auto simp: fail_run_def endpoint_after_def Let_def)

text \<open>Trips exactly at the threshold: from a closed endpoint that counts \<open>f\<close> failures,
  fewer than \<open>threshold - f\<close> further consecutive failures leave it closed, and the failure that
  reaches the threshold opens it at the time it is recorded; a success at any point resets the count.\<close>

lemma trips_at_threshold:
  assumes "es_state st = BreakerClosed"
  shows "(es_failures st + length ts < cb_threshold b \<longrightarrow>
            es_state (fail_run b st ts) = BreakerClosed \<and>
            es_failures (fail_run b st ts) = es_failures st + length ts) \<and>
         (es_failures st + length ts + 1 = cb_threshold b \<longrightarrow>
            es_state (fail_run b st (ts @ [t])) = BreakerOpen \<and>
            es_opened_at (fail_run b st (ts @ [t])) = t) \<and>
         es_failures (endpoint_after b st t False) = 0"
proof (intro conjI impI)
  assume "es_failures st + length ts < cb_threshold b"
  from fail_run_closed [OF assms this] assms
  show "es_state (fail_run b st ts) = BreakerClosed"
    "es_failures (fail_run b st ts) = es_failures st + length ts" by simp_all
next
  assume n: "es_failures st + length ts + 1 = cb_threshold b"
  then have "fail_run b st (ts @ [t]) =
      endpoint_after b (st\<lparr>es_failures := es_failures st + length ts\<rparr>) t True"
    using fail_run_closed [OF assms, of ts b] by (simp add: fail_run_def)
  with n assms show "es_state (fail_run b st (ts @ [t])) = BreakerOpen"
    "es_opened_at (fail_run b st (ts @ [t])) = t"
    by (simp_all add: endpoint_after_def transition_def Let_def)
next
  show "es_failures (endpoint_after b st t False) = 0"
    using assms by (simp add: endpoint_after_def Let_def)
qed

lemma trips_at_threshold_witness:
  "es_state (fail_run (new_breaker demo_config) fresh_endpoint ([0] @ [second])) = BreakerOpen"
  using trips_at_threshold [of fresh_endpoint "[0]" "new_breaker demo_config" second]
  by (simp add: fresh_endpoint_def new_breaker_def demo_config_def)

text \<open>Any recorded success closes: an outcome that is not an upstream failure closes the
  endpoint in whatever state it is, also an open one whose cool-down has not ended (a request that was
  admitted before the breaker tripped and finishes late).\<close>

lemma success_closes:
  "es_state (endpoint_after b st now False) = BreakerClosed \<and> es_failures (endpoint_after b st now False) = 0"
  by (cases "es_state st") (auto simp: endpoint_after_def transition_def Let_def)

end
