(* ===== verification/ClockifyErrors.thy ===== *)
theory ClockifyErrors
  imports Json GoTime
begin

text \<open>
  \<open>internal/clockify/errors.go\<close>: the structured upstream error, its translation into a
  message and a remediation hint, and the redaction of secrets in error bodies. The parameters
  \<open>dec_payload\<close> (\<open>json.Unmarshal\<close> into the \<open>message\<close>/\<open>code\<close> struct: the message and, unless it is
  nil, the code printed with \<open>%v\<close>), \<open>dec\<close> and \<open>enc\<close> (\<open>json.Unmarshal\<close> and
  \<open>json.Marshal\<close>) stand for \<open>encoding/json\<close>.
\<close>

section \<open>Errors and their translation\<close>

record error_translation =
  et_message :: string
  et_remediation :: string
  et_refs :: "string list"

record api_error =
  ae_method :: string
  ae_path :: string
  ae_status_code :: int
  ae_status :: string
  ae_body :: string
  ae_retry_after :: duration
  ae_translation :: "error_translation option"

type_synonym payload_decoder = "string \<Rightarrow> (string \<times> string option) option"

definition compact_upstream_error_body :: "payload_decoder \<Rightarrow> string \<Rightarrow> string option" where
  "compact_upstream_error_body dec_payload body =
     (case dec_payload body of
        None \<Rightarrow> None
      | Some (raw, code) \<Rightarrow>
          (let message = trim_space raw in
           if message = [] then None
           else (case code of
                   None \<Rightarrow> Some message
                 | Some c \<Rightarrow> Some (message @ '' (clockify_error_code='' @ c @ '')''))))"

text \<open>\<open>strings.Fields\<close>: the first maximal run of non-space characters, if any.\<close>

definition starts_space :: "string \<Rightarrow> bool" where
  "starts_space s \<longleftrightarrow> list_ex (\<lambda>e. has_prefix s e) go_spaces"

fun take_field :: "string \<Rightarrow> string" where
  "take_field [] = []"
| "take_field (c # s) = (if starts_space (c # s) then [] else c # take_field s)"

definition first_field :: "string \<Rightarrow> string" where
  "first_field s = take_field (strip_by go_spaces s)"

definition not_found_workspace_message :: "string \<Rightarrow> string" where
  "not_found_workspace_message message =
     (let f = first_field message;
          entity = (if f \<noteq> [] \<and> trim_space f \<noteq> [] then to_lower f else ''entity'')
      in entity @ '' not found in this workspace'')"

definition curly :: string where
  "curly = [CHR 0xE2, CHR 0x80, CHR 0x99]"

datatype error_class =
    Unauthorized | Forbidden | ForeignEntity | NotFound404 | RateLimited | PlanFeature | Locked | Generic

definition classify_error :: "int \<Rightarrow> string \<Rightarrow> error_class" where
  "classify_error status lower =
     (if status = 401 \<or> str_contains lower ''unauthorized'' then Unauthorized
      else if status = 403 \<or> str_contains lower ''permission'' \<or> str_contains lower ''forbidden''
      then Forbidden
      else if str_contains lower (''doesn'' @ [CHR 0x27] @ ''t belong to workspace'') \<or>
        str_contains lower (''doesn'' @ curly @ ''t belong to workspace'') \<or>
        str_contains lower (''doesn'' @ [CHR 0x27] @ ''t belong to project'') \<or>
        str_contains lower (''doesn'' @ curly @ ''t belong to project'')
      then ForeignEntity
      else if status = 404 then NotFound404
      else if status = 429 \<or> str_contains lower ''rate'' then RateLimited
      else if str_contains lower ''plan'' \<or> str_contains lower ''feature'' \<or> str_contains lower ''subscription''
      then PlanFeature
      else if str_contains lower ''locked'' then Locked
      else Generic)"

fun remediation :: "error_class \<Rightarrow> string" where
  "remediation Unauthorized = ''Check that the Clockify API key is valid and has access to the selected workspace.''"
| "remediation Forbidden = ''Use an account with the required Clockify role or ask a workspace admin to grant the needed permission.''"
| "remediation ForeignEntity = ''Confirm the entity ID belongs to the pinned workspace and was not archived or deleted; list the entity type again and retry with a returned ID.''"
| "remediation NotFound404 = ''Confirm the workspace/entity ID and whether the entity was archived or deleted.''"
| "remediation RateLimited = ''Retry after the upstream rate limit cools down; narrow broad report/list requests when possible.''"
| "remediation PlanFeature = ''Check whether the workspace plan enables this Clockify feature.''"
| "remediation Locked = ''The entry or period is locked. Review workspace lock settings or request an unlock from an admin.''"
| "remediation Generic = ''Inspect the tool arguments and Clockify permissions, then retry with a narrower request if this was a report/list call.''"

fun error_refs :: "error_class \<Rightarrow> string list" where
  "error_refs Unauthorized = [''CLOCKIFY_API_KEY'', ''CLOCKIFY_WORKSPACE_ID'']"
| "error_refs Forbidden = [''Clockify workspace roles'']"
| "error_refs ForeignEntity = [''clockify_tools_guide'']"
| "error_refs NotFound404 = [''clockify_tools_guide'']"
| "error_refs RateLimited = [''Clockify API rate limits'']"
| "error_refs PlanFeature = [''clockify_workspace_settings'']"
| "error_refs Locked = [''clockify_workspace_settings'']"
| "error_refs Generic = []"

definition translate_api_error :: "payload_decoder \<Rightarrow> int \<Rightarrow> string \<Rightarrow> error_translation" where
  "translate_api_error dec_payload status body =
     (let message = (case compact_upstream_error_body dec_payload body of
                       Some c \<Rightarrow> c | None \<Rightarrow> ''Clockify request failed.'');
          lower = to_lower (message @ '' '' @ body);
          cls = classify_error status lower
      in \<lparr>et_message = (if cls = ForeignEntity then not_found_workspace_message message else message),
          et_remediation = remediation cls, et_refs = error_refs cls\<rparr>)"

definition api_error_text :: "payload_decoder \<Rightarrow> api_error option \<Rightarrow> string" where
  "api_error_text dec_payload eo =
     (case eo of
        None \<Rightarrow> []
      | Some e \<Rightarrow>
          if ae_body e = []
          then ''clockify '' @ ae_method e @ '' '' @ ae_path e @ '' failed: '' @ ae_status e
          else (case compact_upstream_error_body dec_payload (ae_body e) of
                  Some c \<Rightarrow> ''clockify '' @ ae_method e @ '' failed: '' @ ae_status e @ '': '' @ c
                | None \<Rightarrow> ''clockify '' @ ae_method e @ '' '' @ ae_path e @ '' failed: '' @ ae_status e
                          @ '': '' @ ae_body e))"

definition api_error_sanitized :: "api_error option \<Rightarrow> string" where
  "api_error_sanitized eo =
     (case eo of
        None \<Rightarrow> []
      | Some e \<Rightarrow> ''clockify '' @ ae_method e @ '' '' @ ae_path e @ '' failed: '' @ ae_status e)"

text \<open>\<open>strings.LastIndex\<close>.\<close>

fun last_index_str :: "string \<Rightarrow> string \<Rightarrow> nat option" where
  "last_index_str [] sub = (if sub = [] then Some 0 else None)"
| "last_index_str (c # s) sub =
     (case last_index_str s sub of
        Some i \<Rightarrow> Some (Suc i)
      | None \<Rightarrow> if has_prefix (c # s) sub then Some 0 else None)"

definition client_facing_message :: "payload_decoder \<Rightarrow> api_error option \<Rightarrow> string" where
  "client_facing_message dec_payload eo =
     (case eo of
        None \<Rightarrow> []
      | Some e \<Rightarrow>
          (let msg = et_message (translate_api_error dec_payload (ae_status_code e) (ae_body e)) in
           if msg = [] \<or> msg = ''Clockify request failed.''
           then ''Clockify request failed (HTTP '' @ itoa (ae_status_code e) @ '').''
           else (case last_index_str msg '' (clockify_error_code='' of
                   Some i \<Rightarrow> take i msg
                 | None \<Rightarrow> msg)))"

definition error_translation_of :: "payload_decoder \<Rightarrow> api_error option \<Rightarrow> error_translation" where
  "error_translation_of dec_payload eo =
     (case eo of
        None \<Rightarrow> \<lparr>et_message = [], et_remediation = [], et_refs = []\<rparr>
      | Some e \<Rightarrow>
          (case ae_translation e of
             Some t \<Rightarrow> t
           | None \<Rightarrow> translate_api_error dec_payload (ae_status_code e) (ae_body e)))"

section \<open>Redaction\<close>

definition sensitive_fields :: "string list" where
  "sensitive_fields =
     [''api_key'', ''apiKey'', ''apikey'', ''auth_token'', ''authToken'', ''authorization'', ''token'',
      ''secret'', ''password'', ''x-api-key'', ''x-addon-token'']"

definition sensitive_needles :: "string list" where
  "sensitive_needles =
     [''api_key'', ''apikey'', ''auth_token'', ''authtoken'', ''authorization'', ''token'', ''secret'',
      ''password'', ''credential'', ''x_api_key'', ''x_addon_token'']"

definition is_sensitive_key :: "string \<Rightarrow> bool" where
  "is_sensitive_key key =
     (let k = to_lower (map (\<lambda>c. if c = CHR ''-'' then CHR ''_'' else c) key)
      in list_ex (\<lambda>needle. str_contains k needle) sensitive_needles)"

definition redacted :: string where "redacted = ''[REDACTED]''"

fun redact_json :: "json \<Rightarrow> json" where
  "redact_json (JObj kvs) =
     JObj (map (\<lambda>(k, v). (k, if is_sensitive_key k then JStr redacted else redact_json v)) kvs)"
| "redact_json (JArr xs) = JArr (map redact_json xs)"
| "redact_json v = v"

text \<open>\<open>redactDelimitedSecret\<close>: after every \<open>field + sep\<close> the text up to a delimiter is replaced.\<close>

definition delimiters :: "char set" where
  "delimiters = {CHR ''&'', CHR '' '', CHR 0x09, CHR 0x0D, CHR 0x0A, CHR '','', CHR '';'', CHR 0x7D}"

function redact_delimited :: "string \<Rightarrow> string \<Rightarrow> char \<Rightarrow> string" where
  "redact_delimited body field sep =
     (let needle = field @ [sep] in
      case index_str body needle of
        None \<Rightarrow> body
      | Some idx \<Rightarrow>
          (let rest = drop (idx + length needle) body;
               keep = dropWhile (\<lambda>c. c \<notin> delimiters) rest
           in take (idx + length needle) body @ redacted @
              (if keep = [] then [] else redact_delimited keep field sep)))"
  by pat_completeness auto
termination
proof (relation "measure (\<lambda>(body, _, _). length body)", goal_cases)
  case (2 body field sep needle idx rest keep)
  then have "idx + length needle \<le> length body" "0 < length needle"
    using index_str_Some [of body needle idx] by auto
  moreover have "length keep \<le> length rest" unfolding 2(3,4) by (rule length_dropWhile_le)
  ultimately show ?case using 2 by simp
qed simp

declare redact_delimited.simps [simp del]

text \<open>The quoted-pair patterns \<open>(?i)("field"\s*:\s*)("[^"]*"|[^,&\s;}]+)\<close>.\<close>

definition re_space :: "char \<Rightarrow> bool" where
  "re_space c \<longleftrightarrow> c \<in> {CHR 0x09, CHR 0x0A, CHR 0x0C, CHR 0x0D, CHR '' ''}"

definition strip_fold :: "string \<Rightarrow> string \<Rightarrow> string option" where
  "strip_fold p s =
     (if length p \<le> length s \<and> equal_fold (take (length p) s) p then Some (drop (length p) s) else None)"

definition match_value :: "string \<Rightarrow> string option" where
  "match_value s =
     (let quoted = (case s of
                      c # r \<Rightarrow> if c = CHR 0x22 \<and> CHR 0x22 \<in> set r
                               then Some (tl (dropWhile (\<lambda>c. c \<noteq> CHR 0x22) r)) else None
                    | [] \<Rightarrow> None);
          plain = (\<lambda>c. c \<notin> {CHR '','', CHR ''&'', CHR '';'', CHR 0x7D} \<and> \<not> re_space c)
      in case quoted of
           Some r \<Rightarrow> Some r
         | None \<Rightarrow> (case s of
                      c # r \<Rightarrow> if plain c then Some (dropWhile plain s) else None
                    | [] \<Rightarrow> None))"

text \<open>A match at the head of the string: the kept prefix and what follows the value.\<close>

definition match_quoted_pair :: "string \<Rightarrow> string \<Rightarrow> (string \<times> string) option" where
  "match_quoted_pair field s =
     (case strip_fold ([CHR 0x22] @ field @ [CHR 0x22]) s of
        None \<Rightarrow> None
      | Some r1 \<Rightarrow>
          (case dropWhile re_space r1 of
             c # r2 \<Rightarrow>
               if c = CHR '':'' then
                 (let r3 = dropWhile re_space r2 in
                  case match_value r3 of
                    None \<Rightarrow> None
                  | Some r4 \<Rightarrow> Some (take (length s - length r3) s, r4))
               else None
           | [] \<Rightarrow> None))"

lemma length_match_value: "match_value s = Some r \<Longrightarrow> length r < length s"
proof (cases s)
  case Nil
  then show "match_value s = Some r \<Longrightarrow> length r < length s" by (simp add: match_value_def)
next
  case (Cons c t)
  have "length (tl (dropWhile P t)) \<le> length t" for P
    using length_dropWhile_le [of P t] by simp
  moreover have "length (dropWhile P t) \<le> length t" for P by (rule length_dropWhile_le)
  ultimately show "match_value s = Some r \<Longrightarrow> length r < length s"
    using Cons by (auto simp: match_value_def Let_def less_Suc_eq_le split: if_splits)
qed

lemma length_match_quoted_pair:
  assumes "match_quoted_pair field s = Some (p, r)"
  shows "length r < length s"
proof -
  obtain r1 c r2 where r1: "strip_fold ([CHR 0x22] @ field @ [CHR 0x22]) s = Some r1"
    and r2: "dropWhile re_space r1 = c # r2" and r4: "match_value (dropWhile re_space r2) = Some r"
    using assms by (auto simp: match_quoted_pair_def Let_def split: option.splits list.splits if_splits)
  have "length r1 \<le> length s" using r1 by (auto simp: strip_fold_def split: if_splits)
  moreover have "length (c # r2) \<le> length r1" using length_dropWhile_le [of re_space r1] r2 by simp
  moreover have "length (dropWhile re_space r2) \<le> length r2" by (rule length_dropWhile_le)
  ultimately show ?thesis using length_match_value [OF r4] by simp
qed

function redact_quoted :: "string \<Rightarrow> string \<Rightarrow> string" where
  "redact_quoted field [] = []"
| "redact_quoted field (c # s) =
     (case match_quoted_pair field (c # s) of
        Some (prefix, rest) \<Rightarrow> prefix @ [CHR 0x22] @ redacted @ [CHR 0x22] @ redact_quoted field rest
      | None \<Rightarrow> c # redact_quoted field s)"
  by pat_completeness auto
termination
  by (relation "measure (\<lambda>(_, s). length s)") (auto dest: length_match_quoted_pair)

declare redact_quoted.simps(2) [simp del]

definition redact_pairs :: "string \<Rightarrow> string" where
  "redact_pairs body =
     (let out = foldl (\<lambda>out field. redact_delimited (redact_delimited out field (CHR ''='')) field (CHR '':''))
                  body sensitive_fields
      in foldl (\<lambda>out field. redact_quoted field out) out sensitive_fields)"

definition redact_error_body :: "(string \<Rightarrow> json option) \<Rightarrow> (json \<Rightarrow> string) \<Rightarrow> string \<Rightarrow> string" where
  "redact_error_body dec enc body =
     (if body = [] then body
      else (case dec body of Some v \<Rightarrow> enc (redact_json v) | None \<Rightarrow> redact_pairs body))"

definition trim_body :: "(string \<Rightarrow> json option) \<Rightarrow> (json \<Rightarrow> string) \<Rightarrow> string \<Rightarrow> string" where
  "trim_body dec enc s =
     (let r = redact_error_body dec enc (trim_space s)
      in if length r > 1000 then take 1000 r @ ''...'' else r)"

section \<open>Properties\<close>

fun scrubbed :: "json \<Rightarrow> bool" where
  "scrubbed (JObj kvs) =
     list_all (\<lambda>(k, v). if is_sensitive_key k then v = JStr redacted else scrubbed v) kvs"
| "scrubbed (JArr xs) = list_all scrubbed xs"
| "scrubbed _ = True"

text \<open>The same document with the sensitive values blanked out.\<close>

fun same_shape :: "json \<Rightarrow> json \<Rightarrow> bool" where
  "same_shape (JObj a) (JObj b) =
     list_all2 (\<lambda>(k, v) (k', v'). k = k' \<and> (is_sensitive_key k \<or> same_shape v v')) a b"
| "same_shape (JArr a) (JArr b) = list_all2 same_shape a b"
| "same_shape a b = (a = b)"

text \<open>No secret survives in a JSON error body: after redaction every member with a sensitive
  name, at any depth, holds the placeholder, and everything else of the document is unchanged.\<close>

lemma redact_json_scrubs: "scrubbed (redact_json v) \<and> same_shape v (redact_json v)"
proof
  show "scrubbed (redact_json v)"
    by (induction v rule: redact_json.induct) (auto simp: list_all_iff)
  show "same_shape v (redact_json v)"
    by (induction v rule: redact_json.induct)
      (auto simp: list.rel_map intro!: list.rel_refl_strong split: if_splits)
qed

text \<open>Any mention of the letters rate reads as rate limiting: an upstream error other than
  401, 403 and 404 whose message or body contains the letters \<open>rate\<close>, and none of the words of the
  earlier classes, is translated to the advice to wait for the rate limit, whatever its status is; a
  400 that rejects an hourly rate is one.\<close>

lemma rate_in_text_is_rate_limited:
  assumes "status \<notin> {401, 403, 404}"
    and "compact_upstream_error_body dec_payload body = Some message"
    and "\<And>w. w \<in> {''unauthorized'', ''permission'', ''forbidden'', ''t belong to ''} \<Longrightarrow>
           \<not> str_contains (to_lower (message @ '' '' @ body)) w"
    and "str_contains (to_lower (message @ '' '' @ body)) ''rate''"
  shows "et_remediation (translate_api_error dec_payload status body) = remediation RateLimited \<and>
         et_message (translate_api_error dec_payload status body) = message"
proof -
  let ?l = "to_lower (message @ '' '' @ body)"
  have "\<not> str_contains ?l (a @ ''t belong to '' @ b)" for a b
    using assms(3) [of "''t belong to ''"] unfolding str_contains_iff by (metis append.assoc insert_iff)
  from this [of "''doesn'' @ [CHR 0x27]" "''workspace''"] this [of "''doesn'' @ curly" "''workspace''"]
    this [of "''doesn'' @ [CHR 0x27]" "''project''"] this [of "''doesn'' @ curly" "''project''"]
  have "classify_error status ?l = RateLimited"
    using assms by (simp add: classify_error_def)
  then show ?thesis using assms(2) by (simp add: translate_api_error_def Let_def)
qed

lemma rate_in_text_is_rate_limited_witness:
  "et_remediation (translate_api_error (\<lambda>_. Some (''Hourly rate is invalid'', None)) 400 []) =
     ''Retry after the upstream rate limit cools down; narrow broad report/list requests when possible.''"
proof -
  have "compact_upstream_error_body (\<lambda>_. Some (''Hourly rate is invalid'', None)) [] =
      Some ''Hourly rate is invalid''" by code_simp
  moreover have "\<not> str_contains (to_lower (''Hourly rate is invalid'' @ '' '' @ [])) w"
    if "w \<in> {''unauthorized'', ''permission'', ''forbidden'', ''t belong to ''}" for w
  proof -
    have "list_all (\<lambda>w. \<not> str_contains (to_lower (''Hourly rate is invalid'' @ '' '' @ [])) w)
        [''unauthorized'', ''permission'', ''forbidden'', ''t belong to '']" by code_simp
    with that show ?thesis by auto
  qed
  moreover have "str_contains (to_lower (''Hourly rate is invalid'' @ '' '' @ [])) ''rate''" by code_simp
  ultimately show ?thesis
    using rate_in_text_is_rate_limited [of 400] by simp
qed

end
