(* ===== verification/HttpClient.thy ===== *)
theory HttpClient
  imports ClockifyErrors CircuitBreaker
begin

text \<open>
  \<open>internal/clockify/client.go\<close> and \<open>endpoint.go\<close>: the upstream HTTP client. The network is a
  parameter: \<open>once n\<close> is the outcome of attempt number \<open>n\<close> (\<open>doOnceValues\<close>), \<open>wait n d\<close> what
  happens when the client is to sleep \<open>d\<close> before attempt \<open>n\<close> (slept, deadline too close, context
  done), \<open>jitter n\<close> the random part of the backoff. \<open>request_loop\<close> is the retry loop and
  \<open>do_request\<close> the whole call between the breaker's \<open>Before\<close> and \<open>After\<close>;
  \<open>receive\<close> maps an HTTP response to a result; \<open>list_all\<close> is the auto-paginating list call. The
  verb methods are functions to an \<open>http_call\<close>, the request that is sent.
\<close>

section \<open>Endpoint normalisation\<close>

definition is_id_char :: "char \<Rightarrow> bool" where
  "is_id_char c \<longleftrightarrow>
     (let n = of_char c :: nat in
      (48 \<le> n \<and> n \<le> 57) \<or> (97 \<le> n \<and> n \<le> 102) \<or> (65 \<le> n \<and> n \<le> 70)) \<or> c = CHR ''-''"

definition is_id_segment :: "string \<Rightarrow> bool" where
  "is_id_segment seg \<longleftrightarrow> length seg \<in> {24, 32, 36} \<and> list_all is_id_char seg"

definition normalize_endpoint :: "string \<Rightarrow> string" where
  "normalize_endpoint path =
     (if path = [] then ''/''
      else if CHR ''/'' \<notin> set path then CHR ''/'' # path
      else join_with ''/''
             (map (\<lambda>seg. if is_id_segment seg then '':id'' else seg) (split_on (CHR ''/'') path)))"

lemma id_segment_facts: "\<not> is_id_segment '':id''"
  by (simp add: is_id_segment_def)

section \<open>Errors\<close>

datatype http_error =
    ApiErr api_error
  | NetErr string
  | CtxCanceled
  | CtxDeadline
  | BreakerOpenErr open_error
  | TooLarge int
  | OtherErr string

definition is_retryable_status :: "int \<Rightarrow> bool" where
  "is_retryable_status code \<longleftrightarrow> code = 429 \<or> code = 502 \<or> code = 503 \<or> code = 504"

definition is_idempotent_method :: "string \<Rightarrow> bool" where
  "is_idempotent_method m \<longleftrightarrow> to_upper m \<in> set [''GET'', ''HEAD'', ''OPTIONS'', ''PUT'']"

definition is_retryable_error :: "string \<Rightarrow> http_error \<Rightarrow> bool" where
  "is_retryable_error m err =
     (if \<not> is_idempotent_method m then False
      else (case err of
              CtxCanceled \<Rightarrow> False
            | CtxDeadline \<Rightarrow> False
            | ApiErr e \<Rightarrow> is_retryable_status (ae_status_code e)
            | NetErr _ \<Rightarrow> True
            | _ \<Rightarrow> False))"

definition is_upstream_failure :: "http_error option \<Rightarrow> bool" where
  "is_upstream_failure err =
     (case err of
        None \<Rightarrow> False
      | Some CtxCanceled \<Rightarrow> False
      | Some CtxDeadline \<Rightarrow> False
      | Some (BreakerOpenErr _) \<Rightarrow> False
      | Some (ApiErr e) \<Rightarrow> 500 \<le> ae_status_code e \<and> ae_status_code e \<le> 599
      | Some (NetErr _) \<Rightarrow> True
      | Some _ \<Rightarrow> False)"

text \<open>\<open>parseRetryAfter\<close>; \<open>parse_date\<close> stands for \<open>time.Parse\<close> with the three layouts, as an
  instant, and \<open>now\<close> for the clock of \<open>time.Until\<close>. The product of seconds wraps in \<open>int64\<close>.\<close>

definition parse_retry_after :: "(string \<Rightarrow> instant option) \<Rightarrow> instant \<Rightarrow> string \<Rightarrow> duration option" where
  "parse_retry_after parse_date now raw =
     (if raw = [] then None
      else (case atoi raw of
              Some seconds \<Rightarrow> Some (wrap64 (seconds * second))
            | None \<Rightarrow> (case parse_date raw of Some at0 \<Rightarrow> Some (at0 - now) | None \<Rightarrow> None)))"

definition truncate_retry_after :: "string \<Rightarrow> string" where
  "truncate_retry_after raw = (if length raw \<le> 64 then raw else take 64 raw)"

section \<open>The retry loop\<close>

datatype wait_result = Slept | DeadlineTooClose | WaitAborted http_error

text \<open>\<open>backoff\<close>: 250 ms doubled per attempt plus up to 124 ms.\<close>

definition backoff :: "nat \<Rightarrow> nat \<Rightarrow> duration" where
  "backoff attempt jitter = (250 * 2 ^ (attempt - 1) + int jitter) * millisecond"

record 'r loop_result =
  lr_result :: "(http_error, 'r) result"
  lr_recorded :: "http_error option"
  lr_attempts :: nat

function request_loop ::
  "string \<Rightarrow> (nat \<Rightarrow> (http_error, 'r) result) \<Rightarrow> (nat \<Rightarrow> duration \<Rightarrow> wait_result) \<Rightarrow> (nat \<Rightarrow> nat) \<Rightarrow>
   nat \<Rightarrow> nat \<Rightarrow> http_error option \<Rightarrow> duration \<Rightarrow> 'r loop_result" where
  "request_loop m once wait jitter max_retries attempt last_err explicit =
     (if attempt > max_retries
      then (case last_err of
              Some e \<Rightarrow> \<lparr>lr_result = Inl e, lr_recorded = Some e, lr_attempts = attempt\<rparr>
            | None \<Rightarrow>
                (let e = OtherErr ''request failed without specific error''
                 in \<lparr>lr_result = Inl e, lr_recorded = Some e, lr_attempts = attempt\<rparr>))
      else
        (let wait_dur = (if explicit \<le> 0 then backoff attempt (jitter attempt) else explicit)
         in case (if attempt > 0 then wait attempt wait_dur else Slept) of
              DeadlineTooClose \<Rightarrow>
                \<lparr>lr_result = (case last_err of Some e \<Rightarrow> Inl e | None \<Rightarrow> Inl (OtherErr [])),
                 lr_recorded = last_err, lr_attempts = attempt\<rparr>
            | WaitAborted e \<Rightarrow> \<lparr>lr_result = Inl e, lr_recorded = last_err, lr_attempts = attempt\<rparr>
            | Slept \<Rightarrow>
                (case once attempt of
                   Inr r \<Rightarrow> \<lparr>lr_result = Inr r, lr_recorded = None, lr_attempts = Suc attempt\<rparr>
                 | Inl err \<Rightarrow>
                     if \<not> is_retryable_error m err
                     then \<lparr>lr_result = Inl err, lr_recorded = Some err, lr_attempts = Suc attempt\<rparr>
                     else request_loop m once wait jitter max_retries (Suc attempt) (Some err)
                            (case err of ApiErr e \<Rightarrow> ae_retry_after e | _ \<Rightarrow> 0))))"
  by pat_completeness auto
termination
  by (relation "measure (\<lambda>(_, _, _, _, max_retries, attempt, _, _). Suc max_retries - attempt)") auto

declare request_loop.simps [simp del]

definition do_request ::
  "circuit_breaker option \<Rightarrow> nat \<Rightarrow> instant \<Rightarrow> instant \<Rightarrow> string \<Rightarrow> string \<Rightarrow>
   (nat \<Rightarrow> (http_error, 'r) result) \<Rightarrow> (nat \<Rightarrow> duration \<Rightarrow> wait_result) \<Rightarrow> (nat \<Rightarrow> nat) \<Rightarrow>
   (http_error, 'r) result \<times> nat \<times> circuit_breaker option" where
  "do_request breaker max_retries now0 now1 m path once wait jitter =
     (let endpoint = normalize_endpoint path in
      case breaker_before breaker endpoint m now0 of
        (Some e, breaker') \<Rightarrow> (Inl (BreakerOpenErr e), 0, breaker')
      | (None, breaker') \<Rightarrow>
          (let r = request_loop m once wait jitter max_retries 0 None 0
           in (lr_result r, lr_attempts r,
               breaker_after breaker' endpoint m now1 (is_upstream_failure (lr_recorded r)))))"

section \<open>What the loop does\<close>

text \<open>One turn of the loop: it stops, or it goes on after a retryable error.\<close>

lemma request_loop_turn:
  assumes "attempt \<le> max_retries"
  shows "lr_attempts (request_loop m once wait jitter max_retries attempt last_err explicit) \<in> {attempt, Suc attempt} \<or>
    (\<exists>err. once attempt = Inl err \<and> is_retryable_error m err \<and>
       request_loop m once wait jitter max_retries attempt last_err explicit =
       request_loop m once wait jitter max_retries (Suc attempt) (Some err)
         (case err of ApiErr e \<Rightarrow> ae_retry_after e | _ \<Rightarrow> 0))"
proof -
  let ?d = "if explicit \<le> 0 then backoff attempt (jitter attempt) else explicit"
  let ?w = "if attempt > 0 then wait attempt ?d else Slept"
  note unfold1 = request_loop.simps [of m once wait jitter max_retries attempt last_err explicit]
  show ?thesis
  proof (cases "\<exists>err. ?w = Slept \<and> once attempt = Inl err \<and> is_retryable_error m err")
    case True
    then obtain err where "?w = Slept" "once attempt = Inl err" "is_retryable_error m err" by blast
    with assms have "request_loop m once wait jitter max_retries attempt last_err explicit =
       request_loop m once wait jitter max_retries (Suc attempt) (Some err)
         (case err of ApiErr e \<Rightarrow> ae_retry_after e | _ \<Rightarrow> 0)"
      by (subst unfold1) (simp add: Let_def)
    with \<open>once attempt = Inl err\<close> \<open>is_retryable_error m err\<close> show ?thesis by blast
  next
    case False
    with assms have "lr_attempts (request_loop m once wait jitter max_retries attempt last_err explicit) \<in> {attempt, Suc attempt}"
      by (cases ?w; cases "once attempt") (simp_all add: unfold1 Let_def split: if_splits)
    then show ?thesis by blast
  qed
qed

lemma request_loop_over:
  "attempt > max_retries \<Longrightarrow>
     lr_attempts (request_loop m once wait jitter max_retries attempt last_err explicit) = attempt"
  by (simp add: request_loop.simps [of m once wait jitter max_retries attempt last_err explicit] Let_def
      split: option.split)

lemma request_loop_attempts:
  "attempt \<le> Suc max_retries \<Longrightarrow>
   attempt \<le> lr_attempts (request_loop m once wait jitter max_retries attempt last_err explicit) \<and>
   lr_attempts (request_loop m once wait jitter max_retries attempt last_err explicit) \<le> Suc max_retries"
proof (induction "Suc max_retries - attempt" arbitrary: attempt last_err explicit)
  case 0
  then show ?case by (simp add: request_loop_over)
next
  case (Suc x attempt last_err explicit)
  then have le: "attempt \<le> max_retries" "x = Suc max_retries - Suc attempt" "Suc attempt \<le> Suc max_retries"
    by simp_all
  from request_loop_turn [OF le(1), of m once wait jitter last_err explicit] show ?case
  proof
    assume "\<exists>err. once attempt = Inl err \<and> is_retryable_error m err \<and>
       request_loop m once wait jitter max_retries attempt last_err explicit =
       request_loop m once wait jitter max_retries (Suc attempt) (Some err)
         (case err of ApiErr e \<Rightarrow> ae_retry_after e | _ \<Rightarrow> 0)"
    with Suc.hyps(1) [OF le(2,3)] show ?thesis by (metis Suc_leD)
  qed (use le(1) in auto)
qed

text \<open>Every attempt but the last one failed with a retryable error.\<close>

lemma request_loop_retried:
  assumes "attempt \<le> Suc max_retries" and "attempt \<le> k"
    and "Suc k < lr_attempts (request_loop m once wait jitter max_retries attempt last_err explicit)"
  shows "\<exists>err. once k = Inl err \<and> is_retryable_error m err"
  using assms
proof (induction "Suc max_retries - attempt" arbitrary: attempt last_err explicit)
  case 0
  then show ?case by (simp add: request_loop_over)
next
  case (Suc x attempt last_err explicit)
  then have le: "attempt \<le> max_retries" "x = Suc max_retries - Suc attempt" "Suc attempt \<le> Suc max_retries"
    by simp_all
  from request_loop_turn [OF le(1), of m once wait jitter last_err explicit] show ?case
  proof
    assume "lr_attempts (request_loop m once wait jitter max_retries attempt last_err explicit) \<in> {attempt, Suc attempt}"
    with Suc.prems show ?thesis by auto
  next
    assume "\<exists>err. once attempt = Inl err \<and> is_retryable_error m err \<and>
       request_loop m once wait jitter max_retries attempt last_err explicit =
       request_loop m once wait jitter max_retries (Suc attempt) (Some err)
         (case err of ApiErr e \<Rightarrow> ae_retry_after e | _ \<Rightarrow> 0)"
    with Suc.hyps(1) [OF le(2,3)] Suc.prems show ?thesis by (cases "k = attempt") auto
  qed
qed

abbreviation no_wait :: "nat \<Rightarrow> duration \<Rightarrow> wait_result" where
  "no_wait \<equiv> \<lambda>_ _. Slept"

lemma request_loop_again:
  "attempt \<le> max_retries \<Longrightarrow> once attempt = Inl err \<Longrightarrow> is_retryable_error m err \<Longrightarrow>
   request_loop m once no_wait jitter max_retries attempt last_err explicit =
     request_loop m once no_wait jitter max_retries (Suc attempt) (Some err)
       (case err of ApiErr e \<Rightarrow> ae_retry_after e | _ \<Rightarrow> 0)"
  by (subst request_loop.simps) (simp add: Let_def)

lemma request_loop_stop:
  "attempt \<le> max_retries \<Longrightarrow> \<nexists>err. once attempt = Inl err \<and> is_retryable_error m err \<Longrightarrow>
   request_loop m once no_wait jitter max_retries attempt last_err explicit =
     \<lparr>lr_result = once attempt, lr_recorded = (case once attempt of Inl e \<Rightarrow> Some e | Inr _ \<Rightarrow> None),
      lr_attempts = Suc attempt\<rparr>"
  by (subst request_loop.simps) (auto simp: Let_def split: sum.splits)

lemma request_loop_exhausted:
  "request_loop m once wait jitter max_retries (Suc max_retries) (Some e) explicit =
     \<lparr>lr_result = Inl e, lr_recorded = Some e, lr_attempts = Suc max_retries\<rparr>"
  by (subst request_loop.simps) simp

lemma request_loop_result:
  assumes "attempt \<le> max_retries"
  shows "\<exists>k. attempt \<le> k \<and> request_loop m once no_wait jitter max_retries attempt last_err explicit =
     \<lparr>lr_result = once k, lr_recorded = (case once k of Inl e \<Rightarrow> Some e | Inr _ \<Rightarrow> None),
      lr_attempts = Suc k\<rparr>"
  using assms
proof (induction "max_retries - attempt" arbitrary: attempt last_err explicit)
  case (0 attempt last_err explicit)
  then have "attempt = max_retries" by simp
  then show ?case
    using request_loop_again [of attempt max_retries once _ m] request_loop_stop [of attempt max_retries once m]
    by (cases "\<exists>err. once attempt = Inl err \<and> is_retryable_error m err")
      (auto simp: request_loop_exhausted)
next
  case (Suc x attempt last_err explicit)
  then have lt: "Suc attempt \<le> max_retries" "x = max_retries - Suc attempt" by simp_all
  show ?case
  proof (cases "\<exists>err. once attempt = Inl err \<and> is_retryable_error m err")
    case True
    then obtain err where e: "once attempt = Inl err" "is_retryable_error m err" by blast
    from Suc.hyps(1) [OF lt(2,1)] show ?thesis
      unfolding request_loop_again [where attempt = attempt and once = once and m = m, OF Suc_leD [OF lt(1)] e]
      by (meson Suc_leD)
  next
    case False
    with lt show ?thesis by (intro exI [of _ attempt]) (simp add: request_loop_stop)
  qed
qed

lemma request_loop_first:
  "0 < lr_attempts (request_loop m once wait jitter max_retries 0 last_err explicit)"
proof (cases "\<exists>err. once 0 = Inl err \<and> is_retryable_error m err")
  case True
  then obtain err where e: "once 0 = Inl err" "is_retryable_error m err" by blast
  have "Suc 0 \<le> lr_attempts (request_loop m once wait jitter max_retries (Suc 0) (Some err)
      (case err of ApiErr e \<Rightarrow> ae_retry_after e | _ \<Rightarrow> 0))"
    by (rule request_loop_attempts [THEN conjunct1]) simp
  with e show ?thesis by (subst request_loop.simps) (simp add: Let_def)
next
  case False
  then show ?thesis by (subst request_loop.simps) (auto simp: Let_def split: sum.splits)
qed

text \<open>C24 (retry discipline): a call makes at most one attempt more than the retry budget, and
  exactly one, if it is admitted, when its method is not idempotent; every attempt that was followed
  by another one failed with a retryable error; a call the breaker rejects makes no attempt at all.\<close>

theorem retry_discipline:
  assumes "do_request breaker max_retries now0 now1 m path once wait jitter = (res, n, breaker')"
  shows "n \<le> Suc max_retries \<and>
    (\<not> is_idempotent_method m \<longrightarrow> n \<le> 1) \<and>
    (\<forall>k. Suc k < n \<longrightarrow> (\<exists>err. once k = Inl err \<and> is_retryable_error m err)) \<and>
    (n = 0 \<longleftrightarrow> fst (breaker_before breaker (normalize_endpoint path) m now0) \<noteq> None)"
proof (cases "breaker_before breaker (normalize_endpoint path) m now0")
  case (Pair r b')
  show ?thesis
  proof (cases r)
    case (Some e)
    with assms Pair show ?thesis by (auto simp: do_request_def)
  next
    case None
    define l where "l = request_loop m once wait jitter max_retries 0 None 0"
    have n: "n = lr_attempts l" using assms Pair None by (simp add: do_request_def l_def Let_def)
    have bound: "n \<le> Suc max_retries"
      using request_loop_attempts [of 0 max_retries m once wait jitter None 0] by (simp add: n l_def)
    have retried: "\<exists>err. once k = Inl err \<and> is_retryable_error m err" if "Suc k < n" for k
      using request_loop_retried [of 0 max_retries k m once wait jitter None 0] that
      by (simp add: n l_def)
    have "n \<le> 1" if "\<not> is_idempotent_method m"
      using retried [of 0] that by (cases "n \<le> 1") (auto simp: is_retryable_error_def)
    moreover have "n \<noteq> 0" using request_loop_first [of m once wait jitter max_retries None 0] by (simp add: n l_def)
    ultimately show ?thesis using bound retried None Pair by auto
  qed
qed

definition demo_api_error :: "int \<Rightarrow> api_error" where
  "demo_api_error code =
     \<lparr>ae_method = ''GET'', ae_path = ''/users'', ae_status_code = code, ae_status = [], ae_body = [],
      ae_retry_after = 0, ae_translation = None\<rparr>"

definition demo_once :: "nat \<Rightarrow> (http_error, nat) result" where
  "demo_once n = (if n < 2 then Inl (ApiErr (demo_api_error 503)) else Inr n)"

lemma demo_get: "do_request None 3 0 0 ''GET'' ''/users'' demo_once no_wait (\<lambda>_. 0) = (Inr 2, 3, None)"
proof -
  have r: "is_retryable_error ''GET'' (ApiErr (demo_api_error 503))" by code_simp
  have "request_loop ''GET'' demo_once no_wait (\<lambda>_. 0) 3 0 None 0 =
      \<lparr>lr_result = Inr 2, lr_recorded = None, lr_attempts = 3\<rparr>"
    by (simp add: request_loop_again [OF _ _ r] request_loop_stop demo_once_def numeral_2_eq_2)
  then show ?thesis by (simp add: do_request_def breaker_before_def breaker_after_def Let_def)
qed

lemma retry_discipline_witness:
  "\<exists>err. demo_once 1 = Inl err \<and> is_retryable_error ''GET'' err"
  using retry_discipline [OF demo_get] by (simp add: breaker_before_def)

text \<open>The breaker sees every admitted call once: an admitted call is followed by exactly
  one \<open>After\<close> on the same endpoint, an upstream failure when the last attempt's error is a 5xx or a
  transport failure; when no wait is cut short the result and the recorded outcome are those of the
  last attempt.\<close>

lemma call_recorded_once:
  assumes "breaker_before breaker (normalize_endpoint path) m now0 = (None, breaker')"
    and "\<And>n d. wait n d = Slept"
  shows "\<exists>k. do_request breaker max_retries now0 now1 m path once wait jitter =
    (once k, Suc k,
     breaker_after breaker' (normalize_endpoint path) m now1
       (is_upstream_failure (case once k of Inl e \<Rightarrow> Some e | Inr _ \<Rightarrow> None)))"
proof -
  have w: "wait = no_wait" by (intro ext assms(2))
  obtain k where "request_loop m once no_wait jitter max_retries 0 None 0 =
     \<lparr>lr_result = once k, lr_recorded = (case once k of Inl e \<Rightarrow> Some e | Inr _ \<Rightarrow> None),
      lr_attempts = Suc k\<rparr>"
    using request_loop_result [of 0 max_retries] by blast
  with assms(1) show ?thesis
    unfolding w by (intro exI [of _ k]) (simp add: do_request_def Let_def)
qed

lemma call_recorded_once_witness:
  "\<exists>k. do_request None 3 0 0 ''GET'' ''/users'' demo_once no_wait (\<lambda>_. 0) =
    (demo_once k, Suc k,
     breaker_after None (normalize_endpoint ''/users'') ''GET'' 0
       (is_upstream_failure (case demo_once k of Inl e \<Rightarrow> Some e | Inr _ \<Rightarrow> None)))"
  by (rule call_recorded_once) (simp_all add: breaker_before_def)

section \<open>Receiving a response\<close>

record http_response =
  rs_status_code :: int
  rs_status :: string
  rs_retry_after :: string
  rs_header :: "(string \<times> string) list"
  rs_body :: string

datatype out_kind = OutNone | OutRaw | OutJson

datatype 'v received = Discarded | RawBody "(string \<times> string) list" string | EmptyBody | Decoded 'v

definition response_limit :: int where "response_limit = 10 * 1024 * 1024"
definition error_body_limit :: nat where "error_body_limit = 64 * 1024"

text \<open>\<open>MaxResponseBodyBytes\<close> of a client whose cap is \<open>n\<close>.\<close>

definition max_response_body :: "int option \<Rightarrow> int" where
  "max_response_body n = (case n of None \<Rightarrow> response_limit | Some k \<Rightarrow> if k \<le> 0 then response_limit else k)"

definition set_max_response_body :: "int \<Rightarrow> int" where
  "set_max_response_body n = (if n \<le> 0 then response_limit else n)"

text \<open>The part of \<open>doOnceValues\<close> after the transport has answered; \<open>trim\<close> is \<open>trimBody\<close>,
  \<open>unmarshal\<close> decodes into the caller's \<open>out\<close>.\<close>

definition receive ::
  "payload_decoder \<Rightarrow> (string \<Rightarrow> string) \<Rightarrow> (string \<Rightarrow> instant option) \<Rightarrow> instant \<Rightarrow>
   (string \<Rightarrow> 'v option) \<Rightarrow> int option \<Rightarrow> string \<Rightarrow> string \<Rightarrow> out_kind \<Rightarrow> http_response \<Rightarrow>
   (http_error, 'v received) result" where
  "receive dec_payload trim parse_date now unmarshal cap m path out resp =
     (if rs_status_code resp \<ge> 400 then
        (let retry_after = (case parse_retry_after parse_date now (rs_retry_after resp) of
                              Some d \<Rightarrow> d | None \<Rightarrow> 0);
             body = trim (take error_body_limit (rs_body resp))
         in Inl (ApiErr \<lparr>ae_method = m, ae_path = path, ae_status_code = rs_status_code resp,
                   ae_status = rs_status resp, ae_body = body, ae_retry_after = retry_after,
                   ae_translation = Some (translate_api_error dec_payload (rs_status_code resp) body)\<rparr>))
      else
        (let limit = max_response_body cap in
         case out of
           OutNone \<Rightarrow> Inr Discarded
         | OutRaw \<Rightarrow>
             if int (length (rs_body resp)) > limit then Inl (TooLarge limit)
             else Inr (RawBody (rs_header resp) (rs_body resp))
         | OutJson \<Rightarrow>
             if int (length (rs_body resp)) > limit then Inl (TooLarge limit)
             else if rs_body resp = [] then Inr EmptyBody
             else (case unmarshal (rs_body resp) of
                     Some v \<Rightarrow> Inr (Decoded v)
                   | None \<Rightarrow> Inl (OtherErr ''invalid JSON''))))"

text \<open>The redirect policy: the number of hops so far, the first request's host and scheme, the next
  one's.\<close>

definition redirect_allowed :: "nat \<Rightarrow> string \<times> string \<Rightarrow> string \<times> string \<Rightarrow> bool" where
  "redirect_allowed hops first next_req =
     (if hops \<ge> 10 then False
      else if hops > 0 \<and> \<not> equal_fold (fst next_req) (fst first) then False
      else if hops > 0 \<and> equal_fold (snd first) ''https'' \<and> \<not> equal_fold (snd next_req) ''https'' then False
      else True)"

text \<open>The API key stays on its host: a redirect is followed only to the host of the original
  request, never from HTTPS to plain HTTP, and at most nine hops deep.\<close>

lemma redirect_stays_on_host:
  assumes "redirect_allowed hops first next_req" and "0 < hops"
  shows "equal_fold (fst next_req) (fst first) \<and> hops < 10 \<and>
         (equal_fold (snd first) ''https'' \<longrightarrow> equal_fold (snd next_req) ''https'')"
  using assms by (auto simp: redirect_allowed_def split: if_splits)

lemma redirect_stays_on_host_witness:
  "equal_fold (fst (''API.clockify.me'', ''https'')) (fst (''api.clockify.me'', ''https''))"
proof -
  have "redirect_allowed 1 (''api.clockify.me'', ''https'') (''API.clockify.me'', ''https'')" by code_simp
  from redirect_stays_on_host [OF this] show ?thesis by simp
qed

section \<open>Listing every page\<close>

type_synonym query_map = "(string \<times> string) list"

definition atoi_default :: "string \<Rightarrow> int \<Rightarrow> int" where
  "atoi_default s fallback =
     (case atoi s of None \<Rightarrow> fallback | Some v \<Rightarrow> if v \<le> 0 then fallback else v)"

definition values_from_query_map :: "query_map \<Rightarrow> query_map" where
  "values_from_query_map q = filter (\<lambda>(k, v). v \<noteq> []) q"

definition default_page_size :: int where "default_page_size = 200"
definition default_max_rows :: int where "default_max_rows = 5000"
definition safety_stop_pages :: nat where "safety_stop_pages = 1000"

datatype 'e list_error =
    FetchErr 'e
  | RowCap string int int nat int
  | PageStop string int

definition page_query :: "query_map \<Rightarrow> nat \<Rightarrow> query_map" where
  "page_query base page =
     (let q = AList.update ''page'' (itoa (int page)) base
      in if map_of q ''page-size'' = None
         then AList.update ''page-size'' (itoa default_page_size) q else q)"

definition query_page_size :: "query_map \<Rightarrow> int" where
  "query_page_size q =
     atoi_default (case map_of q ''page-size'' of Some s \<Rightarrow> s | None \<Rightarrow> []) default_page_size"

text \<open>\<open>ListAllFuncWithOptions\<close>; \<open>on_page\<close> is the callback acting on the caller's state.\<close>

function scan_pages ::
  "(query_map \<Rightarrow> ('e, 'a list) result) \<Rightarrow> string \<Rightarrow> query_map \<Rightarrow> int \<Rightarrow>
   ('s \<Rightarrow> 'a list \<Rightarrow> ('e list_error, 's) result) \<Rightarrow> nat \<Rightarrow> int \<Rightarrow> 's \<Rightarrow> ('e list_error, 's) result" where
  "scan_pages get path base max_rows on_page page rows s =
     (let q = page_query base page; page_size = query_page_size q in
      case get q of
        Inl e \<Rightarrow> Inl (FetchErr e)
      | Inr batch \<Rightarrow>
          (let rows' = rows + int (length batch) in
           if rows' > max_rows then Inl (RowCap path rows' max_rows page page_size)
           else bind_result (if batch \<noteq> [] then on_page s batch else Inr s) (\<lambda>s'.
             if batch = [] \<or> int (length batch) < page_size then Inr s'
             else if page \<ge> safety_stop_pages then Inl (PageStop path page_size)
             else scan_pages get path base max_rows on_page (Suc page) rows' s')))"
  by pat_completeness auto
termination
  by (relation "measure (\<lambda>(_, _, _, _, _, page, _, _). safety_stop_pages - page)") auto

declare scan_pages.simps [simp del]

definition list_all_func where
  "list_all_func get path base max_rows on_page s =
     scan_pages get path base (if max_rows \<le> 0 then default_max_rows else max_rows) on_page 1 0 s"

definition list_all_with_options ::
  "(query_map \<Rightarrow> ('e, 'a list) result) \<Rightarrow> string \<Rightarrow> query_map \<Rightarrow> int \<Rightarrow> ('e list_error, 'a list) result" where
  "list_all_with_options get path base max_rows =
     list_all_func get path base max_rows (\<lambda>acc batch. Inr (acc @ batch)) []"

definition list_all_pages ::
  "(query_map \<Rightarrow> ('e, 'a list) result) \<Rightarrow> string \<Rightarrow> query_map \<Rightarrow> ('e list_error, 'a list) result" where
  "list_all_pages get path base = list_all_with_options get path base 0"

lemma page_size_fixed: "query_page_size (page_query base p) = query_page_size (page_query base q)"
  by (simp add: query_page_size_def page_query_def Let_def update_conv')

text \<open>Reading from \<open>page\<close>: full pages \<open>batches\<close>, then a short one \<open>b\<close>.\<close>

definition reads_pages ::
  "(query_map \<Rightarrow> ('e, 'a list) result) \<Rightarrow> query_map \<Rightarrow> nat \<Rightarrow> 'a list list \<Rightarrow> 'a list \<Rightarrow> bool" where
  "reads_pages get base page batches b \<longleftrightarrow>
     (\<forall>i < length batches. get (page_query base (page + i)) = Inr (batches ! i) \<and>
        query_page_size (page_query base 1) \<le> int (length (batches ! i))) \<and>
     get (page_query base (page + length batches)) = Inr b \<and>
     (b = [] \<or> int (length b) < query_page_size (page_query base 1))"

lemma reads_pages_Nil:
  "get (page_query base page) = Inr b \<Longrightarrow> b = [] \<or> int (length b) < query_page_size (page_query base 1) \<Longrightarrow>
     reads_pages get base page [] b"
  by (simp add: reads_pages_def)

lemma reads_pages_Cons:
  assumes "get (page_query base page) = Inr c" and "query_page_size (page_query base 1) \<le> int (length c)"
    and "reads_pages get base (Suc page) batches b"
  shows "reads_pages get base page (c # batches) b"
  unfolding reads_pages_def
proof (intro conjI allI impI)
  fix i assume "i < length (c # batches)"
  then show "get (page_query base (page + i)) = Inr ((c # batches) ! i)"
    "query_page_size (page_query base 1) \<le> int (length ((c # batches) ! i))"
    using assms by (cases i; simp add: reads_pages_def)+
qed (use assms in \<open>simp_all add: reads_pages_def\<close>)

lemma scan_pages_collects:
  assumes "scan_pages get path base max_rows (\<lambda>acc batch. Inr (acc @ batch)) page rows s = Inr out"
  shows "\<exists>batches b. reads_pages get base page batches b \<and>
     out = s @ concat batches @ b \<and> rows + int (length (concat batches @ b)) \<le> max_rows"
  using assms
proof (induction "safety_stop_pages - page" arbitrary: page rows s rule: less_induct)
  case less
  note run = less.prems [unfolded scan_pages.simps [of get path base max_rows _ page rows s]]
  obtain b where b: "get (page_query base page) = Inr b"
    using run by (cases "get (page_query base page)") (auto simp: Let_def)
  have cap: "rows + int (length b) \<le> max_rows"
    using run b by (auto simp: Let_def split: if_splits)
  define ps where "ps = query_page_size (page_query base 1)"
  have ps: "query_page_size (page_query base page) = ps"
    unfolding ps_def by (rule page_size_fixed)
  show ?case
  proof (cases "b = [] \<or> int (length b) < ps")
    case True
    then have "out = s @ b" using run b cap by (auto simp: Let_def ps split: if_splits)
    with True b cap reads_pages_Nil [of get base page b] show ?thesis
      unfolding ps_def by (intro exI [of _ "[]"] exI [of _ b]) simp
  next
    case False
    with run b cap have lt: "page < safety_stop_pages"
      and rec: "scan_pages get path base max_rows (\<lambda>acc batch. Inr (acc @ batch)) (Suc page)
         (rows + int (length b)) (s @ b) = Inr out"
      by (auto simp: Let_def ps split: if_splits)
    have "safety_stop_pages - Suc page < safety_stop_pages - page" using lt by simp
    from less.hyps [OF this rec] obtain batches c where
      h: "reads_pages get base (Suc page) batches c" "out = (s @ b) @ concat batches @ c"
        "rows + int (length b) + int (length (concat batches @ c)) \<le> max_rows" by blast
    have "reads_pages get base page (b # batches) c"
      using reads_pages_Cons [OF b _ h(1)] False by (simp add: ps_def)
    with h(2,3) show ?thesis
      by (intro exI [of _ "b # batches"] exI [of _ c]) (simp add: algebra_simps)
  qed
qed

text \<open>ListAll returns every page, once, in order: a successful call has read the pages
  from 1 on, full ones followed by one short page, and its result is exactly their concatenation,
  never longer than the row cap.\<close>

lemma list_all_is_concat:
  assumes "list_all_with_options get path base max_rows = Inr out"
  shows "\<exists>batches b. reads_pages get base 1 batches b \<and> out = concat batches @ b \<and>
     int (length out) \<le> (if max_rows \<le> 0 then default_max_rows else max_rows)"
  using scan_pages_collects [OF assms [unfolded list_all_with_options_def list_all_func_def]]
  by fastforce

definition demo_pages :: "query_map \<Rightarrow> (unit, nat list) result" where
  "demo_pages q = Inr (case map_of q ''page'' of Some p \<Rightarrow> if p = ''1'' then [1, 2] else [3] | None \<Rightarrow> [])"

lemma list_all_is_concat_witness:
  "int (length [1, 2, 3 :: nat]) \<le> default_max_rows"
proof -
  have "list_all_with_options demo_pages ''/p'' [(''page-size'', ''2'')] 0 = Inr [1, 2, 3]" by code_simp
  from list_all_is_concat [OF this] show ?thesis by auto
qed

lemma scan_pages_server:
  assumes "\<And>p. 0 < p \<Longrightarrow> get (page_query base p) = Inr (take n (drop ((p - 1) * n) xs))"
    and "int n = query_page_size (page_query base 1)" and "0 < n"
    and "int (length xs) \<le> max_rows" and "length xs < safety_stop_pages * n"
    and "0 < page" and "(page - 1) * n \<le> length xs"
  shows "scan_pages get path base max_rows (\<lambda>acc batch. Inr (acc @ batch)) page (int ((page - 1) * n))
           (take ((page - 1) * n) xs) = Inr xs"
  using assms(6,7)
proof (induction "length xs - (page - 1) * n" arbitrary: page rule: less_induct)
  case less
  let ?b = "take n (drop ((page - 1) * n) xs)"
  have ps: "query_page_size (page_query base page) = int n"
    using assms(2) page_size_fixed [of base page 1] by simp
  have g: "get (page_query base page) = Inr ?b" using assms(1) less.prems(1) .
  have acc: "take ((page - 1) * n) xs @ ?b = take (page * n) xs"
  proof -
    have "page * n = (page - 1) * n + n" using less.prems(1) by (cases page) simp_all
    then show ?thesis by (simp only: take_add)
  qed
  have len: "length ?b = min n (length xs - (page - 1) * n)" by simp
  have rows: "int ((page - 1) * n) + int (length ?b) \<le> max_rows"
    using len less.prems(2) assms(4) by linarith
  note step = scan_pages.simps [of get path base max_rows _ page]
  show ?case
  proof (cases "length xs < page * n")
    case True
    then have "length ?b < n" using less.prems len assms(3) by (cases page) auto
    moreover have "take (page * n) xs = xs" using True by simp
    ultimately show ?thesis using rows acc
      by (subst step) (auto simp: Let_def g ps)
  next
    case False
    then have full: "length ?b = n" using less.prems(1) len by (cases page) auto
    have lt: "page < safety_stop_pages"
      using False assms(5) by (metis linorder_not_less mult_le_mono1 order.strict_trans1)
    have r: "int ((page - 1) * n) + int n = int ((Suc page - 1) * n)"
      using less.prems(1) by (cases page) simp_all
    have "length xs - (Suc page - 1) * n < length xs - (page - 1) * n"
      using False less.prems(1) assms(3) by (cases page) auto
    from less.hyps [OF this] False have
      rec: "scan_pages get path base max_rows (\<lambda>acc batch. Inr (acc @ batch)) (Suc page)
        (int ((Suc page - 1) * n)) (take ((Suc page - 1) * n) xs) = Inr xs" by simp
    have "?b \<noteq> []" using full assms(3) by auto
    then show ?thesis using rows acc rec full lt r assms(3)
      by (subst step) (simp add: Let_def g ps del: take_eq_Nil)
  qed
qed

text \<open>ListAll is complete: against a server that pages a list by the requested page size,
  the call returns the whole list, provided it fits the row cap and the page limit.\<close>

lemma list_all_complete:
  assumes "\<And>p. 0 < p \<Longrightarrow> get (page_query base p) = Inr (take n (drop ((p - 1) * n) xs))"
    and "int n = query_page_size (page_query base 1)" and "0 < n"
    and "int (length xs) \<le> default_max_rows" and "length xs < safety_stop_pages * n"
  shows "list_all_pages get path base = Inr xs"
  using scan_pages_server [OF assms, of 1 path]
  by (simp add: list_all_pages_def list_all_with_options_def list_all_func_def)

lemma atoi_nat_dec [simp]: "int p \<le> max_int64 \<Longrightarrow> atoi (itoa (int p)) = Some (int p)"
  by (rule atoi_itoa) (simp add: is_int64_def min_int64_def)

lemma list_all_complete_witness:
  "list_all_pages (\<lambda>q. case map_of q ''page'' of
       Some s \<Rightarrow> Inr (take 200 (drop ((nat (digits_val s) - 1) * 200) [1, 2, 3 :: nat]))
     | None \<Rightarrow> Inl ()) ''/p'' [] = Inr [1, 2, 3]"
proof (rule list_all_complete [where n = 200])
  show "int 200 = query_page_size (page_query [] 1)" by code_simp
  show "int (length [1, 2, 3 :: nat]) \<le> default_max_rows" by (simp add: default_max_rows_def)
  show "length [1, 2, 3 :: nat] < safety_stop_pages * 200" by (simp add: safety_stop_pages_def)
  fix p :: nat
  have "digits_val (nat_dec p) = int p" using nat_dec_correct [of p] by simp
  then show "(case map_of (page_query [] p) ''page'' of
       Some s \<Rightarrow> Inr (take 200 (drop ((nat (digits_val s) - 1) * 200) [1, 2, 3 :: nat]))
     | None \<Rightarrow> Inl ()) = Inr (take 200 (drop ((p - 1) * 200) [1, 2, 3]))"
    by (simp add: page_query_def Let_def itoa_def)
qed simp

section \<open>Hosts and verbs\<close>

definition host_main :: string where "host_main = ''https://api.clockify.me/api/v1''"
definition host_reports :: string where "host_reports = ''https://reports.api.clockify.me/v1''"
definition host_audit_log :: string where "host_audit_log = ''https://auditlog-api.api.clockify.me/v1''"

record http_client =
  hc_api_key :: string
  hc_base_url :: string
  hc_timeout :: duration
  hc_max_retries :: nat
  hc_user_agent :: string
  hc_max_body :: int
  hc_breaker :: "circuit_breaker option"

definition new_client :: "string \<Rightarrow> string \<Rightarrow> duration \<Rightarrow> int \<Rightarrow> http_client" where
  "new_client api_key base_url timeout max_retries =
     \<lparr>hc_api_key = api_key, hc_base_url = trim_right_char (CHR ''/'') base_url,
      hc_timeout = (if timeout \<le> 0 then 30 * second else timeout),
      hc_max_retries = (if max_retries < 0 then 0 else nat max_retries),
      hc_user_agent = ''clockify-mcp-go/dev'', hc_max_body = response_limit, hc_breaker = None\<rparr>"

definition set_circuit_breaker :: "http_client \<Rightarrow> breaker_config \<Rightarrow> http_client" where
  "set_circuit_breaker c cfg =
     (if \<not> bc_enabled cfg then c\<lparr>hc_breaker := None\<rparr> else c\<lparr>hc_breaker := Some (new_breaker cfg)\<rparr>)"

definition set_user_agent :: "http_client \<Rightarrow> string \<Rightarrow> http_client" where
  "set_user_agent c ua = c\<lparr>hc_user_agent := ua\<rparr>"

definition http_timeout :: "http_client option \<Rightarrow> duration" where
  "http_timeout co = (case co of None \<Rightarrow> 0 | Some c \<Rightarrow> hc_timeout c)"

definition reports_base_url :: "http_client \<Rightarrow> string" where
  "reports_base_url c = (if hc_base_url c = host_main then host_reports else hc_base_url c)"

definition audit_log_base_url :: "http_client \<Rightarrow> string" where
  "audit_log_base_url c = (if hc_base_url c = host_main then host_audit_log else hc_base_url c)"

definition documented_base_url :: "http_client \<Rightarrow> string \<Rightarrow> string" where
  "documented_base_url c host =
     (let h = trim_right_char (CHR ''/'') host in
      if h = host_reports then reports_base_url c
      else if h = host_audit_log then audit_log_base_url c
      else hc_base_url c)"

text \<open>What a verb method passes to \<open>doRequestValues\<close>: base URL, method, path, query, body.\<close>

record 'b http_call =
  call_base :: string
  call_method :: string
  call_path :: string
  call_query :: query_map
  call_body :: "'b option"

definition call where
  "call base m path query body =
     \<lparr>call_base = base, call_method = m, call_path = path, call_query = query, call_body = body\<rparr>"

definition hc_get where
  "hc_get c path query = call (hc_base_url c) ''GET'' path (values_from_query_map query) None"
definition hc_get_values where
  "hc_get_values c path query = call (hc_base_url c) ''GET'' path query None"
definition hc_post where
  "hc_post c path body = call (hc_base_url c) ''POST'' path (values_from_query_map []) body"
definition hc_post_with_query where
  "hc_post_with_query c path query body = call (hc_base_url c) ''POST'' path (values_from_query_map query) body"
definition hc_put where
  "hc_put c path body = call (hc_base_url c) ''PUT'' path (values_from_query_map []) body"
definition hc_put_with_query where
  "hc_put_with_query c path query body = call (hc_base_url c) ''PUT'' path (values_from_query_map query) body"
definition hc_patch where
  "hc_patch c path body = call (hc_base_url c) ''PATCH'' path (values_from_query_map []) body"
definition hc_delete where
  "hc_delete c path = call (hc_base_url c) ''DELETE'' path (values_from_query_map []) None"
definition hc_delete_with_query where
  "hc_delete_with_query c path query = call (hc_base_url c) ''DELETE'' path (values_from_query_map query) None"
definition hc_delete_values where
  "hc_delete_values c path query = call (hc_base_url c) ''DELETE'' path query None"
definition hc_delete_with_body where
  "hc_delete_with_body c path body = call (hc_base_url c) ''DELETE'' path (values_from_query_map []) body"
definition hc_request_raw_for_host where
  "hc_request_raw_for_host c host m path query body = call (documented_base_url c host) m path query body"
definition hc_request_raw where
  "hc_request_raw c reports_host m path query body =
     hc_request_raw_for_host c (if reports_host then host_reports else host_main) m path query body"
definition hc_get_reports where
  "hc_get_reports c path query = call (reports_base_url c) ''GET'' path (values_from_query_map query) None"
definition hc_get_reports_values where
  "hc_get_reports_values c path query = call (reports_base_url c) ''GET'' path query None"
definition hc_post_reports where
  "hc_post_reports c path body = call (reports_base_url c) ''POST'' path (values_from_query_map []) body"
definition hc_put_reports where
  "hc_put_reports c path body = call (reports_base_url c) ''PUT'' path (values_from_query_map []) body"
definition hc_delete_reports where
  "hc_delete_reports c path = call (reports_base_url c) ''DELETE'' path (values_from_query_map []) None"
definition hc_delete_reports_values where
  "hc_delete_reports_values c path query = call (reports_base_url c) ''DELETE'' path query None"
definition hc_post_audit_log where
  "hc_post_audit_log c path body = call (audit_log_base_url c) ''POST'' path (values_from_query_map []) body"

text \<open>Raw requests stay on the documented hosts: whatever host the caller names, a raw
  request goes to the configured base URL or, only when that is the production host, to the reports or
  audit-log host; a client with a custom base URL never contacts any other host.\<close>

lemma raw_request_hosts_fenced:
  "call_base (hc_request_raw_for_host c host m path query body) \<in> {hc_base_url c, host_reports, host_audit_log} \<and>
   (hc_base_url c = host_main \<or> call_base (hc_request_raw_for_host c host m path query body) = hc_base_url c)"
  by (simp add: hc_request_raw_for_host_def call_def documented_base_url_def reports_base_url_def
      audit_log_base_url_def Let_def)

section \<open>Multipart bodies\<close>

record multipart_file =
  mf_field :: string
  mf_filename :: string
  mf_content_type :: string
  mf_data :: string

datatype multipart_part =
    FormField string string
  | FilePart string string string string

datatype multipart_error = NoFieldName | NoFilename | EmptyFile string | FileTooLarge string

definition max_multipart_file :: nat where "max_multipart_file = 10 * 2 ^ 20"

fun multipart_files :: "multipart_file list \<Rightarrow> (multipart_error, multipart_part list) result" where
  "multipart_files [] = Inr []"
| "multipart_files (f # fs) =
     (let field = trim_space (mf_field f); filename = trim_space (mf_filename f) in
      if field = [] then Inl NoFieldName
      else if filename = [] then Inl NoFilename
      else if length (mf_data f) = 0 then Inl (EmptyFile filename)
      else if length (mf_data f) > max_multipart_file then Inl (FileTooLarge filename)
      else (let ct = trim_space (mf_content_type f);
                ct' = (if ct \<noteq> [] then ct else ''application/octet-stream'')
            in bind_result (multipart_files fs) (\<lambda>ps. Inr (FilePart field filename ct' (mf_data f) # ps))))"

text \<open>The parts written, in order; the framing is the standard library's.\<close>

definition encode_multipart ::
  "(string \<times> string list) list \<Rightarrow> multipart_file list \<Rightarrow> (multipart_error, multipart_part list) result" where
  "encode_multipart form files =
     bind_result (multipart_files files) (\<lambda>ps.
       Inr (concat (map (\<lambda>(k, vs). map (FormField k) vs) form) @ ps))"

end
