(* ===== verification/RateLimit.thy ===== *)
theory RateLimit
  imports Json GoTime "HOL-Library.Word" "HOL-Library.Multiset"
begin

unbundle bit_operations_syntax

text \<open>
  \<open>internal/mcp/risk.go\<close> and \<open>rate_limit.go\<close>: risk classes as 32-bit masks, the token bucket of
  each risk tier in \<open>float64\<close> arithmetic, the choice of the tier, and the per-family caps on
  concurrent calls. A nil bucket or limiter is \<open>None\<close>; the clock reading is an argument; a family
  semaphore is the number of its channel's occupied slots, and \<open>family_acquire\<close> is \<open>None\<close> when the
  call would block.
\<close>

section \<open>Risk classes\<close>

type_synonym risk_class = "32 word"

definition risk_read :: risk_class where "risk_read = 1"
definition risk_write :: risk_class where "risk_write = 2"
definition risk_sensitive_read :: risk_class where "risk_sensitive_read = 4"
definition risk_billing :: risk_class where "risk_billing = 8"
definition risk_admin :: risk_class where "risk_admin = 16"
definition risk_permission_change :: risk_class where "risk_permission_change = 32"
definition risk_external_side_effect :: risk_class where "risk_external_side_effect = 64"
definition risk_destructive :: risk_class where "risk_destructive = 128"

lemmas risk_bits = risk_read_def risk_write_def risk_sensitive_read_def risk_billing_def
  risk_admin_def risk_permission_change_def risk_external_side_effect_def risk_destructive_def

definition has_risk :: "risk_class \<Rightarrow> risk_class \<Rightarrow> bool" where
  "has_risk r m \<longleftrightarrow> r AND m = m"

definition risk_high_mask :: risk_class where
  "risk_high_mask = risk_billing OR risk_admin OR risk_permission_change OR risk_external_side_effect
     OR risk_destructive"

definition is_high_risk :: "risk_class \<Rightarrow> bool" where
  "is_high_risk r \<longleftrightarrow> r AND risk_high_mask \<noteq> 0"

lemma has_bit: "has_risk r (push_bit n 1) \<longleftrightarrow> bit r n \<or> 32 \<le> n"
proof -
  have "bit (push_bit n 1 :: risk_class) k \<longleftrightarrow> k = n \<and> k < 32" for k
    by (auto simp: bit_push_bit_iff bit_1_iff simp del: push_bit_of_1)
  note p = this
  show ?thesis
  proof
    assume "has_risk r (push_bit n 1)"
    then have "bit (r AND push_bit n 1) n = bit (push_bit n 1 :: risk_class) n"
      by (simp only: has_risk_def)
    then show "bit r n \<or> 32 \<le> n" unfolding bit_and_iff p by auto
  next
    assume "bit r n \<or> 32 \<le> n"
    then show "has_risk r (push_bit n 1)"
      unfolding has_risk_def by (intro bit_word_eqI) (auto simp only: bit_and_iff p)
  qed
qed

lemma has_risk_bits:
  "has_risk r risk_write \<longleftrightarrow> bit r 1" "has_risk r risk_sensitive_read \<longleftrightarrow> bit r 2"
  "has_risk r risk_billing \<longleftrightarrow> bit r 3" "has_risk r risk_admin \<longleftrightarrow> bit r 4"
  "has_risk r risk_permission_change \<longleftrightarrow> bit r 5" "has_risk r risk_external_side_effect \<longleftrightarrow> bit r 6"
  "has_risk r risk_destructive \<longleftrightarrow> bit r 7" "has_risk r risk_read \<longleftrightarrow> bit r 0"
  using has_bit [of r 0] has_bit [of r 1] has_bit [of r 2] has_bit [of r 3] has_bit [of r 4]
    has_bit [of r 5] has_bit [of r 6] has_bit [of r 7]
  by (simp_all add: risk_bits push_bit_eq_mult)

lemma is_high_risk_bits:
  "is_high_risk r \<longleftrightarrow> bit r 3 \<or> bit r 4 \<or> bit r 5 \<or> bit r 6 \<or> bit r 7"
proof -
  have m: "risk_high_mask = push_bit 3 (mask 5)"
    by (simp add: risk_high_mask_def risk_bits mask_eq_exp_minus_1 push_bit_eq_mult)
  have "bit risk_high_mask n \<longleftrightarrow> 3 \<le> n \<and> n < 8" for n
    unfolding m bit_push_bit_iff bit_mask_iff by auto
  then have "bit (r AND risk_high_mask) n \<longleftrightarrow> bit r n \<and> 3 \<le> n \<and> n < 8" for n
    by (simp only: bit_and_iff)
  moreover have "is_high_risk r \<longleftrightarrow> (\<exists>n. bit (r AND risk_high_mask) n)"
    unfolding is_high_risk_def by (metis bit_0_eq bit_eqI bot_apply bot_bool_def)
  moreover have "3 \<le> n \<and> n < 8 \<longleftrightarrow> n = 3 \<or> n = 4 \<or> n = 5 \<or> n = 6 \<or> n = 7" for n :: nat by auto
  ultimately show ?thesis by (simp only: ex_simps conj_disj_distribL ex_disj_distrib) blast
qed

section \<open>Token bucket\<close>

record token_bucket =
  tb_capacity :: rat
  tb_tokens :: rat
  tb_refill :: rat
  tb_last :: instant

definition new_token_bucket :: "int \<Rightarrow> instant \<Rightarrow> token_bucket option" where
  "new_token_bucket per_minute now =
     (if per_minute \<le> 0 then None
      else Some \<lparr>tb_capacity = fl64 (of_int per_minute), tb_tokens = fl64 (of_int per_minute),
                 tb_refill = fl64 (fl64 (of_int per_minute) / 60), tb_last = now\<rparr>)"

text \<open>\<open>Duration.Seconds\<close>.\<close>

definition duration_seconds :: "duration \<Rightarrow> rat" where
  "duration_seconds d =
     fl64 (fl64 (of_int (quot_go d second)) + fl64 (fl64 (of_int (rem_go d second)) / 1000000000))"

definition refilled :: "token_bucket \<Rightarrow> instant \<Rightarrow> rat" where
  "refilled b now =
     (let t = fl64 (tb_tokens b + fl64 (duration_seconds (now - tb_last b) * tb_refill b))
      in if tb_capacity b < t then tb_capacity b else t)"

definition allow_with_retry ::
  "token_bucket option \<Rightarrow> instant \<Rightarrow> (bool \<times> int) \<times> token_bucket option" where
  "allow_with_retry bo now =
     (case bo of
        None \<Rightarrow> ((True, 0), bo)
      | Some b \<Rightarrow>
          (let tokens = refilled b now; b1 = b\<lparr>tb_tokens := tokens, tb_last := now\<rparr> in
           if tokens < 1
           then (if tb_refill b \<le> 0 then ((False, 60), Some b1)
                 else ((False, max (int64_of_float (of_int \<lceil>fl64 (fl64 (1 - tokens) / tb_refill b)\<rceil>)) 1),
                       Some b1))
           else ((True, 0), Some (b1\<lparr>tb_tokens := fl64 (tokens - 1)\<rparr>))))"

record risk_limits =
  rl_read :: int
  rl_write :: int
  rl_billing_admin :: int
  rl_destructive :: int

datatype tier = TierRead | TierWrite | TierBillingAdmin | TierDestructive

type_synonym risk_limiter = "tier \<Rightarrow> token_bucket option"

definition new_risk_limiter :: "risk_limits \<Rightarrow> instant \<Rightarrow> risk_limiter option" where
  "new_risk_limiter l now =
     (if rl_read l \<le> 0 \<and> rl_write l \<le> 0 \<and> rl_billing_admin l \<le> 0 \<and> rl_destructive l \<le> 0 then None
      else Some (\<lambda>t. case t of
             TierRead \<Rightarrow> new_token_bucket (rl_read l) now
           | TierWrite \<Rightarrow> new_token_bucket (rl_write l) now
           | TierBillingAdmin \<Rightarrow> new_token_bucket (rl_billing_admin l) now
           | TierDestructive \<Rightarrow> new_token_bucket (rl_destructive l) now))"

definition bucket_tier :: "risk_class \<Rightarrow> tier" where
  "bucket_tier rc =
     (if has_risk rc risk_destructive then TierDestructive
      else if has_risk rc risk_billing \<or> has_risk rc risk_admin \<or> has_risk rc risk_permission_change
        \<or> has_risk rc risk_external_side_effect then TierBillingAdmin
      else if has_risk rc risk_write then TierWrite
      else TierRead)"

definition limiter_allow ::
  "risk_limiter option \<Rightarrow> risk_class \<Rightarrow> instant \<Rightarrow> (bool \<times> int) \<times> risk_limiter option" where
  "limiter_allow lo rc now =
     (case lo of
        None \<Rightarrow> ((True, 0), lo)
      | Some l \<Rightarrow>
          (let (r, b) = allow_with_retry (l (bucket_tier rc)) now
           in (r, Some (l(bucket_tier rc := b)))))"

definition rate_limit_message :: "risk_class \<Rightarrow> string" where
  "rate_limit_message rc =
     (if has_risk rc risk_destructive then ''destructive tool rate limit exceeded''
      else if has_risk rc risk_billing \<or> has_risk rc risk_admin \<or> has_risk rc risk_permission_change
        \<or> has_risk rc risk_external_side_effect then ''high-risk tool rate limit exceeded''
      else if has_risk rc risk_write then ''write tool rate limit exceeded''
      else if has_risk rc risk_sensitive_read then ''sensitive read tool rate limit exceeded''
      else ''tool invocation rate limit exceeded'')"

definition rate_limited_envelope :: "string \<Rightarrow> risk_class \<Rightarrow> int \<Rightarrow> json" where
  "rate_limited_envelope tool rc retry_after =
     JObj [(''ok'', JBool False), (''action'', JStr tool),
           (''error'', JObj [(''code'', JStr ''rate_limited''), (''message'', JStr (rate_limit_message rc))]),
           (''recovery'', JObj
              [(''hint'', JStr ''The server is rate-limiting tool calls. Wait and retry.''),
               (''retryable'', JBool True),
               (''retryAfterSeconds'', JInt (if retry_after \<le> 0 then 60 else retry_after))])]"

section \<open>Bucket properties\<close>

lemma fl64_nonneg: "0 \<le> x \<Longrightarrow> 0 \<le> fl64 x"
proof -
  assume x: "0 \<le> x"
  have "0 \<le> round_half_even y" if "0 \<le> y" for y :: rat
    using that by (auto simp: round_half_even_def Let_def)
  moreover have "0 \<le> \<bar>x\<bar> / pow2 e" for e
    by (simp add: less_imp_le)
  ultimately have "0 \<le> (of_int (round_half_even (\<bar>x\<bar> / pow2 e)) :: rat)" for e by simp
  with x show ?thesis unfolding fl64_def
    by (auto simp: Let_def sgn_if intro!: mult_nonneg_nonneg less_imp_le [OF pow2_pos])
qed

definition bucket_inv :: "token_bucket \<Rightarrow> bool" where
  "bucket_inv b \<longleftrightarrow> 0 \<le> tb_tokens b \<and> 0 \<le> tb_capacity b \<and> 0 \<le> tb_refill b"

lemma quot_rem_nonneg: "0 \<le> d \<Longrightarrow> 0 \<le> quot_go d second \<and> 0 \<le> rem_go d second"
proof -
  assume d: "0 \<le> d"
  then have "quot_go d second = d div second"
    by (cases "d = 0") (simp_all add: quot_go_def second_def)
  moreover have "0 \<le> d div second" using d by (simp add: second_def pos_imp_zdiv_nonneg_iff)
  moreover have "d - second * (d div second) = d mod second" by (simp add: minus_mult_div_eq_mod)
  moreover have "0 \<le> d mod second" by (simp add: second_def)
  ultimately show ?thesis by (simp add: rem_go_def)
qed

lemma duration_seconds_nonneg: "0 \<le> d \<Longrightarrow> 0 \<le> duration_seconds d"
  using quot_rem_nonneg [of d] unfolding duration_seconds_def
  by (intro fl64_nonneg add_nonneg_nonneg) (simp_all add: fl64_nonneg)

lemma refilled_bounds:
  assumes "bucket_inv b" and "tb_last b \<le> now"
  shows "0 \<le> refilled b now \<and> refilled b now \<le> tb_capacity b"
proof -
  have "0 \<le> fl64 (tb_tokens b + fl64 (duration_seconds (now - tb_last b) * tb_refill b))"
    using assms duration_seconds_nonneg [of "now - tb_last b"]
    by (intro fl64_nonneg add_nonneg_nonneg fl64_nonneg mult_nonneg_nonneg) (auto simp: bucket_inv_def)
  with assms show ?thesis by (auto simp: refilled_def Let_def bucket_inv_def)
qed

text \<open>The outcomes of calls made at the given times.\<close>

fun bucket_run :: "token_bucket option \<Rightarrow> instant list \<Rightarrow> (bool \<times> int) list" where
  "bucket_run b [] = []"
| "bucket_run b (t # ts) = (case allow_with_retry b t of (r, b') \<Rightarrow> r # bucket_run b' ts)"

lemma fl64_of_int_nonneg: "0 \<le> n \<Longrightarrow> 0 \<le> fl64 (of_int n)"
  by (rule fl64_nonneg) simp

lemma new_bucket_inv: "new_token_bucket p now = Some b \<Longrightarrow> bucket_inv b \<and> tb_last b = now"
  by (auto simp: new_token_bucket_def bucket_inv_def fl64_of_int_nonneg
      intro!: fl64_nonneg divide_nonneg_nonneg split: if_splits)

lemma allow_step:
  assumes "bucket_inv b" and "tb_last b \<le> now" and "allow_with_retry (Some b) now = ((ok, secs), Some b')"
  shows "bucket_inv b' \<and> tb_last b' = now \<and> (ok \<longleftrightarrow> 1 \<le> refilled b now) \<and> (\<not> ok \<longrightarrow> 1 \<le> secs)"
  using assms refilled_bounds [OF assms(1,2)]
  by (auto simp: allow_with_retry_def bucket_inv_def Let_def fl64_nonneg split: if_splits)

lemma allow_some: "\<exists>ok secs b'. allow_with_retry (Some b) now = ((ok, secs), Some b')"
  by (cases "allow_with_retry (Some b) now" rule: prod.exhaust)
    (auto simp: allow_with_retry_def Let_def split: if_splits)

lemma bucket_run_refusals:
  "bucket_inv b \<Longrightarrow> sorted (tb_last b # ts) \<Longrightarrow>
     (False, secs) \<in> set (bucket_run (Some b) ts) \<Longrightarrow> 1 \<le> secs"
proof (induction ts arbitrary: b)
  case (Cons t ts)
  obtain ok n b' where a: "allow_with_retry (Some b) t = ((ok, n), Some b')" using allow_some by blast
  with allow_step [OF Cons.prems(1) _ a] Cons.prems(2)
  have "bucket_inv b'" "tb_last b' = t" "\<not> ok \<longrightarrow> 1 \<le> n" by auto
  with a Cons show ?case by auto
qed simp

lemma fl64_0 [simp]: "fl64 0 = 0"
  by (simp add: fl64_def)

lemma refilled_same_instant:
  assumes "tb_tokens b = of_nat n" and "tb_capacity b = of_nat c" and "n \<le> c" and "c \<le> 2 ^ 53"
  shows "refilled b (tb_last b) = of_nat n"
proof -
  have "duration_seconds 0 = 0" by (simp add: duration_seconds_def quot_go_def rem_go_def)
  moreover have "fl64 (of_nat n) = of_nat n" using assms(3,4) by (intro fl64_of_nat) simp
  ultimately show ?thesis using assms by (simp add: refilled_def Let_def)
qed

lemma burst_run:
  assumes "tb_tokens b = of_nat n" and "tb_capacity b = of_nat c" and "n \<le> c" and "c \<le> 2 ^ 53"
  shows "map fst (bucket_run (Some b) (replicate k (tb_last b))) =
           replicate (min k n) True @ replicate (k - n) False"
  using assms
proof (induction k arbitrary: b n)
  case (Suc k b n)
  note r = refilled_same_instant [OF Suc.prems]
  show ?case
  proof (cases n)
    case 0
    define b' where "b' = b\<lparr>tb_tokens := 0\<rparr>"
    have "tb_tokens b' = of_nat 0" "tb_capacity b' = of_nat c" "tb_last b' = tb_last b"
      using Suc.prems by (simp_all add: b'_def)
    with Suc.IH [of b' 0] Suc.prems
    have "map fst (bucket_run (Some b') (replicate k (tb_last b))) = replicate k False" by simp
    with r 0 show ?thesis by (auto simp: allow_with_retry_def Let_def b'_def)
  next
    case (Suc m)
    define b' where "b' = b\<lparr>tb_tokens := of_nat m\<rparr>"
    have m: "fl64 (of_nat m :: rat) = of_nat m"
      using Suc.prems(3,4) \<open>n = Suc m\<close> by (intro fl64_of_nat) simp
    have "tb_tokens b' = of_nat m" "tb_capacity b' = of_nat c" "tb_last b' = tb_last b"
      using Suc.prems by (simp_all add: b'_def)
    with Suc.IH [of b' m] Suc.prems \<open>n = Suc m\<close>
    have "map fst (bucket_run (Some b') (replicate k (tb_last b))) =
        replicate (min k m) True @ replicate (k - m) False" by simp
    with r \<open>n = Suc m\<close> m show ?thesis by (simp add: allow_with_retry_def Let_def b'_def)
  qed
qed simp

text \<open>Rate limit of a tier: a fresh bucket of \<open>p\<close> calls per minute admits exactly the first
  \<open>p\<close> of \<open>k\<close> calls made at once and refuses the others; and whatever the times of the calls,
  every refusal names a wait of at least one second.\<close>

lemma bucket_burst_exact:
  assumes "0 < p" and "p \<le> 2 ^ 53"
  shows "map fst (bucket_run (new_token_bucket (int p) now) (replicate k now)) =
           replicate (min k p) True @ replicate (k - p) False \<and>
         (\<forall>ts secs. sorted (now # ts) \<longrightarrow>
            (False, secs) \<in> set (bucket_run (new_token_bucket (int p) now) ts) \<longrightarrow> 1 \<le> secs)"
proof -
  have f: "fl64 (of_nat p) = of_nat p" by (rule fl64_of_nat [OF assms(2)])
  obtain b where b: "new_token_bucket (int p) now = Some b" "tb_tokens b = of_nat p"
      "tb_capacity b = of_nat p"
    using assms(1) f by (simp add: new_token_bucket_def)
  from new_bucket_inv [OF b(1)] have "bucket_inv b" "tb_last b = now" by simp_all
  with b burst_run [OF b(2,3) _ assms(2), of k] bucket_run_refusals [of b] show ?thesis by auto
qed

lemma bucket_burst_exact_witness:
  "map fst (bucket_run (new_token_bucket (int 2) 0) (replicate 3 0)) = [True, True, False]"
  using bucket_burst_exact [of 2 0 3] by (simp add: numeral_3_eq_3)

section \<open>Concurrency caps per family\<close>

datatype sem = SemWrite | SemHigh

record family_limiter =
  fl_write :: nat
  fl_high :: nat

definition new_family_limiter :: family_limiter where
  "new_family_limiter = \<lparr>fl_write = 0, fl_high = 0\<rparr>"

fun sem_cap :: "sem \<Rightarrow> nat" where
  "sem_cap SemWrite = 2"
| "sem_cap SemHigh = 1"

fun sem_used :: "sem \<Rightarrow> family_limiter \<Rightarrow> nat" where
  "sem_used SemWrite l = fl_write l"
| "sem_used SemHigh l = fl_high l"

fun sem_send :: "sem \<Rightarrow> family_limiter \<Rightarrow> family_limiter option" where
  "sem_send SemWrite l = (if fl_write l < 2 then Some (l\<lparr>fl_write := fl_write l + 1\<rparr>) else None)"
| "sem_send SemHigh l = (if fl_high l < 1 then Some (l\<lparr>fl_high := fl_high l + 1\<rparr>) else None)"

fun sem_receive :: "sem \<Rightarrow> family_limiter \<Rightarrow> family_limiter" where
  "sem_receive SemWrite l = l\<lparr>fl_write := fl_write l - 1\<rparr>"
| "sem_receive SemHigh l = l\<lparr>fl_high := fl_high l - 1\<rparr>"

definition family_sem :: "risk_class \<Rightarrow> sem option" where
  "family_sem rc =
     (if has_risk rc risk_destructive \<or> has_risk rc risk_billing \<or> has_risk rc risk_admin
        \<or> has_risk rc risk_permission_change \<or> has_risk rc risk_external_side_effect then Some SemHigh
      else if has_risk rc risk_write then Some SemWrite
      else None)"

text \<open>\<open>acquire\<close>: the slot to release later and the new state; \<open>Inl ()\<close> when the context ends
  (\<open>ctx_done\<close>) before a slot is free, \<open>None\<close> while the call waits.\<close>

definition family_acquire ::
  "family_limiter option \<Rightarrow> bool \<Rightarrow> risk_class \<Rightarrow> (unit, sem option) result option \<times> family_limiter option" where
  "family_acquire lo ctx_done rc =
     (case lo of
        None \<Rightarrow> (Some (Inr None), lo)
      | Some l \<Rightarrow>
          (case family_sem rc of
             None \<Rightarrow> (Some (Inr None), lo)
           | Some sm \<Rightarrow>
               (case sem_send sm l of
                  Some l' \<Rightarrow> (Some (Inr (Some sm)), Some l')
                | None \<Rightarrow> if ctx_done then (Some (Inl ()), lo) else (None, lo))))"

text \<open>The contract of a semaphore, for the calls that hold its slots.\<close>

fun sem_run :: "('s \<Rightarrow> 's option) \<Rightarrow> ('s \<Rightarrow> 's) \<Rightarrow> 's \<Rightarrow> nat \<Rightarrow> bool list \<Rightarrow> 's \<times> nat" where
  "sem_run acq rel s held [] = (s, held)"
| "sem_run acq rel s held (True # ops) =
     (case acq s of Some s' \<Rightarrow> sem_run acq rel s' (Suc held) ops | None \<Rightarrow> sem_run acq rel s held ops)"
| "sem_run acq rel s held (False # ops) =
     (if 0 < held then sem_run acq rel (rel s) (held - 1) ops else sem_run acq rel s held ops)"

locale counting_semaphore =
  fixes acq :: "'s \<Rightarrow> 's option" and rel :: "'s \<Rightarrow> 's" and used :: "'s \<Rightarrow> nat" and cap :: nat
  assumes acquired: "acq s = Some s' \<Longrightarrow> used s < cap \<and> used s' = Suc (used s)"
    and blocked: "acq s = None \<Longrightarrow> cap \<le> used s"
    and released: "used (rel s) = used s - 1"
begin

lemma held_counted:
  "used s = held \<Longrightarrow> held \<le> cap \<Longrightarrow> sem_run acq rel s held ops = (s', held') \<Longrightarrow>
     used s' = held' \<and> held' \<le> cap"
proof (induction ops arbitrary: s held)
  case (Cons op ops)
  show ?case
  proof (cases op)
    case True
    show ?thesis
    proof (cases "acq s")
      case None
      with Cons True show ?thesis by auto
    next
      case (Some s1)
      then have "sem_run acq rel s1 (Suc held) ops = (s', held')" using Cons.prems True by simp
      moreover have "used s1 = Suc held \<and> Suc held \<le> cap"
        using acquired [OF Some] Cons.prems by simp
      ultimately show ?thesis using Cons.IH by blast
    qed
  next
    case False
    show ?thesis
    proof (cases "0 < held")
      case True
      then have "sem_run acq rel (rel s) (held - 1) ops = (s', held')" using Cons.prems False by simp
      moreover have "used (rel s) = held - 1 \<and> held - 1 \<le> cap" using released [of s] Cons.prems by simp
      ultimately show ?thesis using Cons.IH by blast
    next
      case False
      then have "sem_run acq rel s held ops = (s', held')" using Cons.prems \<open>\<not> op\<close> by simp
      then show ?thesis using Cons.IH Cons.prems by blast
    qed
  qed
qed simp

lemma never_stuck_below_cap: "used s < cap \<Longrightarrow> \<exists>s'. acq s = Some s'"
  using blocked [of s] by (cases "acq s") auto

end

interpretation writes: counting_semaphore "sem_send SemWrite" "sem_receive SemWrite" "sem_used SemWrite" "sem_cap SemWrite"
  by unfold_locales (auto split: if_splits)

interpretation high: counting_semaphore "sem_send SemHigh" "sem_receive SemHigh" "sem_used SemHigh" "sem_cap SemHigh"
  by unfold_locales (auto split: if_splits)

lemma family_sem_high: "family_sem rc = Some SemHigh \<longleftrightarrow> is_high_risk rc"
  by (auto simp: family_sem_def has_risk_bits is_high_risk_bits)

text \<open>High-risk calls are serialised and limited by the high tiers: exactly the high-risk
  classes take the single high slot and draw on the destructive or billing/admin budget; plain reads
  take no slot at all; and over any sequence of attempts and releases at most one high-risk and two
  write slots are held.\<close>

lemma high_risk_serialised:
  "(family_sem rc = Some SemHigh \<longleftrightarrow> is_high_risk rc) \<and>
   (is_high_risk rc \<longleftrightarrow> bucket_tier rc \<in> {TierDestructive, TierBillingAdmin}) \<and>
   (family_sem rc = None \<longleftrightarrow> bucket_tier rc = TierRead) \<and>
   snd (sem_run (sem_send SemHigh) (sem_receive SemHigh) new_family_limiter 0 ops) \<le> 1 \<and>
   snd (sem_run (sem_send SemWrite) (sem_receive SemWrite) new_family_limiter 0 ops) \<le> 2"
proof -
  have "snd (sem_run (sem_send SemHigh) (sem_receive SemHigh) new_family_limiter 0 ops) \<le> 1"
    using high.held_counted [of new_family_limiter 0 ops]
    by (cases "sem_run (sem_send SemHigh) (sem_receive SemHigh) new_family_limiter 0 ops")
      (auto simp: new_family_limiter_def)
  moreover have "snd (sem_run (sem_send SemWrite) (sem_receive SemWrite) new_family_limiter 0 ops) \<le> 2"
    using writes.held_counted [of new_family_limiter 0 ops]
    by (cases "sem_run (sem_send SemWrite) (sem_receive SemWrite) new_family_limiter 0 ops")
      (auto simp: new_family_limiter_def)
  ultimately show ?thesis
    by (auto simp: family_sem_def bucket_tier_def has_risk_bits is_high_risk_bits)
qed

end
