(* ===== verification/McpTypes.thy ===== *)
theory McpTypes
  imports Json
begin

text \<open>
  The JSON-RPC types of \<open>internal/mcp/types.go\<close> and the decoding of parameters into Go structs.
  An \<open>any\<close> that is \<open>nil\<close> (an absent id, absent params) is \<open>JNull\<close>. \<open>decode_params\<close>
  marshals and unmarshals again, so a struct field takes the value of the keys that equal its tag up
  to case, in the sorted order in which \<open>json.Marshal\<close> writes a map; a value of another type makes
  the decoding fail.
\<close>

record rpc_request =
  rq_jsonrpc :: string
  rq_id :: json
  rq_method :: string
  rq_params :: json

record rpc_error =
  re_code :: int
  re_message :: string
  re_data :: members

record 'r rpc_response =
  rr_jsonrpc :: string
  rr_id :: json
  rr_result :: "'r option"
  rr_error :: "rpc_error option"

text \<open>The zero \<open>Response{}\<close>, which tells the transport to write nothing.\<close>

definition no_response :: "'r rpc_response" where
  "no_response = \<lparr>rr_jsonrpc = [], rr_id = JNull, rr_result = None, rr_error = None\<rparr>"

definition rpc_err :: "int \<Rightarrow> string \<Rightarrow> rpc_error" where
  "rpc_err code message = \<lparr>re_code = code, re_message = message, re_data = []\<rparr>"

definition code_server_not_initialized :: int where
  "code_server_not_initialized = - 32002"

section \<open>Struct fields\<close>

definition field_values :: "string \<Rightarrow> members \<Rightarrow> json list" where
  "field_values tag m = map snd (filter (\<lambda>(k, _). equal_fold k tag) (sort_key fst m))"

fun last_string :: "json list \<Rightarrow> string \<Rightarrow> string option" where
  "last_string [] acc = Some acc"
| "last_string (JStr s # vs) acc = last_string vs s"
| "last_string (JNull # vs) acc = last_string vs acc"
| "last_string (v # vs) acc = None"

definition struct_string :: "string \<Rightarrow> json \<Rightarrow> string option" where
  "struct_string tag raw =
     (case raw of
        JNull \<Rightarrow> Some []
      | JObj m \<Rightarrow> last_string (field_values tag m) []
      | _ \<Rightarrow> None)"

lemma struct_string_example:
  "struct_string ''uri'' (JObj [(''uri'', JStr ''clockify://x''), (''extra'', JBool True)]) = Some ''clockify://x''"
  by code_simp

end
