(* ===== verification/Resources.thy ===== *)
theory Resources
  imports McpTypes
begin

text \<open>
  \<open>internal/mcp/resources.go\<close> and \<open>notifier_hub.go\<close>: resource subscriptions per peer with their
  per-URI reference counts, the hub of connected notifiers, and the \<open>resources/*\<close> handlers. A
  notifier is \<open>Peer n\<close> or the sentinel \<open>Broadcast\<close>; a nil \<open>Notifier\<close> argument is \<open>None\<close>. The
  resource provider is a parameter of the handlers that call it.
\<close>

section \<open>Subscriptions\<close>

datatype 'n subscriber = Broadcast | Peer 'n

record 'n subscriptions =
  sub_by_notifier :: "'n subscriber \<rightharpoonup> string set"
  sub_refcount :: "string \<rightharpoonup> nat"

definition no_subscriptions :: "'n subscriptions" where
  "no_subscriptions = \<lparr>sub_by_notifier = Map.empty, sub_refcount = Map.empty\<rparr>"

definition or_broadcast :: "'n subscriber option \<Rightarrow> 'n subscriber" where
  "or_broadcast n = (case n of None \<Rightarrow> Broadcast | Some s \<Rightarrow> s)"

text \<open>Reading a Go map of counters, and decrementing one, deleting it at zero.\<close>

definition count_of :: "(string \<rightharpoonup> nat) \<Rightarrow> string \<Rightarrow> nat" where
  "count_of rc uri = (case rc uri of None \<Rightarrow> 0 | Some n \<Rightarrow> n)"

definition dec_count :: "(string \<rightharpoonup> nat) \<Rightarrow> string \<Rightarrow> nat option" where
  "dec_count rc uri =
     (if count_of rc uri > 0
      then (if count_of rc uri - 1 = 0 then None else Some (count_of rc uri - 1))
      else rc uri)"

definition sub_add :: "'n subscriptions \<Rightarrow> 'n subscriber option \<Rightarrow> string \<Rightarrow> 'n subscriptions" where
  "sub_add r n0 uri =
     (let n = or_broadcast n0;
          uris = (case sub_by_notifier r n of Some s \<Rightarrow> s | None \<Rightarrow> {})
      in if uri \<in> uris then r
         else r\<lparr>sub_by_notifier := (sub_by_notifier r)(n \<mapsto> insert uri uris),
                sub_refcount := (sub_refcount r)(uri \<mapsto> count_of (sub_refcount r) uri + 1)\<rparr>)"

definition sub_remove :: "'n subscriptions \<Rightarrow> 'n subscriber option \<Rightarrow> string \<Rightarrow> 'n subscriptions" where
  "sub_remove r n0 uri =
     (let n = or_broadcast n0 in
      case sub_by_notifier r n of
        None \<Rightarrow> r
      | Some uris \<Rightarrow>
          if uri \<notin> uris then r
          else r\<lparr>sub_by_notifier := (sub_by_notifier r)
                   (n := (if uris - {uri} = {} then None else Some (uris - {uri}))),
                 sub_refcount := (sub_refcount r)(uri := dec_count (sub_refcount r) uri)\<rparr>)"

text \<open>\<open>dropNotifier\<close> decrements the count of each of the peer's URIs once.\<close>

definition sub_drop :: "'n subscriptions \<Rightarrow> 'n subscriber option \<Rightarrow> 'n subscriptions" where
  "sub_drop r n0 =
     (case n0 of
        None \<Rightarrow> r
      | Some n \<Rightarrow>
          (case sub_by_notifier r n of
             None \<Rightarrow> r
           | Some uris \<Rightarrow>
               r\<lparr>sub_by_notifier := (sub_by_notifier r)(n := None),
                 sub_refcount := (\<lambda>u. if u \<in> uris then dec_count (sub_refcount r) u else sub_refcount r u)\<rparr>))"

definition has_any_uri :: "'n subscriptions \<Rightarrow> string \<Rightarrow> bool" where
  "has_any_uri r uri \<longleftrightarrow> count_of (sub_refcount r) uri > 0"

definition subscribed :: "'n subscriptions \<Rightarrow> 'n subscriber \<Rightarrow> string \<Rightarrow> bool" where
  "subscribed r n uri \<longleftrightarrow> (case sub_by_notifier r n of Some s \<Rightarrow> uri \<in> s | None \<Rightarrow> False)"

definition targets_for :: "'n subscriptions \<Rightarrow> string \<Rightarrow> 'n set \<times> bool" where
  "targets_for r uri =
     (if count_of (sub_refcount r) uri = 0 then ({}, False)
      else ({n. subscribed r (Peer n) uri}, subscribed r Broadcast uri))"

section \<open>Notifier hub\<close>

record 'n hub =
  hub_notifiers :: "nat \<rightharpoonup> 'n"
  hub_next_id :: nat

definition new_hub :: "'n hub" where
  "new_hub = \<lparr>hub_notifiers = Map.empty, hub_next_id = 0\<rparr>"

definition hub_add :: "'n hub \<Rightarrow> 'n \<Rightarrow> nat \<times> 'n hub" where
  "hub_add h n =
     (hub_next_id h,
      \<lparr>hub_notifiers = (hub_notifiers h)(hub_next_id h \<mapsto> n), hub_next_id = hub_next_id h + 1\<rparr>)"

text \<open>The closure returned by \<open>add\<close>: removes the entry and, if it was there, runs \<open>onRemove\<close>,
  which the server sets to \<open>dropNotifier\<close>.\<close>

definition hub_remove :: "'n hub \<Rightarrow> 'n subscriptions \<Rightarrow> nat \<Rightarrow> 'n \<Rightarrow> 'n hub \<times> 'n subscriptions" where
  "hub_remove h r ident n =
     (h\<lparr>hub_notifiers := (hub_notifiers h)(ident := None)\<rparr>,
      if hub_notifiers h ident \<noteq> None then sub_drop r (Some (Peer n)) else r)"

definition hub_recipients :: "'n hub \<Rightarrow> 'n set" where
  "hub_recipients h = ran (hub_notifiers h)"

section \<open>Notifications\<close>

record update_delta =
  ud_format :: string
  ud_patch :: json

definition update_params :: "string \<Rightarrow> update_delta \<Rightarrow> json" where
  "update_params uri delta =
     JObj ([(''uri'', JStr uri)] @
       (if ud_format delta \<noteq> []
        then [(''format'', JStr (ud_format delta))] @
             (if ud_format delta \<noteq> ''none'' \<and> ud_format delta \<noteq> ''deleted''
              then [(''patch'', ud_patch delta)] else [])
        else []))"

text \<open>\<open>NotifyResourceUpdated\<close>: who is notified, and with what.\<close>

definition notify_resource_updated ::
  "'n hub \<Rightarrow> 'n subscriptions \<Rightarrow> string \<Rightarrow> update_delta \<Rightarrow> 'n set \<times> json option" where
  "notify_resource_updated h r uri delta =
     (if uri = [] then ({}, None)
      else (case targets_for r uri of (targets, broadcast) \<Rightarrow>
              if targets = {} \<and> \<not> broadcast then ({}, None)
              else if broadcast then (hub_recipients h, Some (update_params uri delta))
              else (targets, Some (update_params uri delta))))"

definition has_resource_subscription :: "'n subscriptions \<Rightarrow> string \<Rightarrow> bool" where
  "has_resource_subscription r uri \<longleftrightarrow> uri \<noteq> [] \<and> has_any_uri r uri"

section \<open>Handlers\<close>

definition resources_disabled :: rpc_error where
  "resources_disabled = rpc_err (- 32601) ''resources capability disabled''"

text \<open>\<open>handleResourcesList\<close>, \<open>handleResourcesTemplatesList\<close> and \<open>handleResourcesRead\<close>; \<open>list0\<close>
  and \<open>read0\<close> are the provider's methods (their error text on the left), \<open>None\<close> a nil provider.\<close>

definition handle_resources_list :: "string \<Rightarrow> string \<Rightarrow> (string, json list) result option \<Rightarrow> (rpc_error, json) result" where
  "handle_resources_list meth key provider =
     (case provider of
        None \<Rightarrow> Inl resources_disabled
      | Some (Inl e) \<Rightarrow> Inl (rpc_err (- 32603) (meth @ '': '' @ e))
      | Some (Inr items) \<Rightarrow> Inr (JObj [(key, JArr items)]))"

definition handle_resources_read ::
  "(string \<Rightarrow> (string, json list) result) option \<Rightarrow> json \<Rightarrow> (rpc_error, json) result" where
  "handle_resources_read provider raw =
     (case provider of
        None \<Rightarrow> Inl resources_disabled
      | Some read0 \<Rightarrow>
          (case struct_string ''uri'' raw of
             None \<Rightarrow> Inl (rpc_err (- 32602) ''invalid resources/read params: missing uri'')
           | Some uri \<Rightarrow>
               if uri = [] then Inl (rpc_err (- 32602) ''invalid resources/read params: missing uri'')
               else (case read0 uri of
                       Inl e \<Rightarrow> Inl (rpc_err (- 32603) (''resources/read: '' @ e))
                     | Inr contents \<Rightarrow> Inr (JObj [(''contents'', JArr contents)]))))"

definition handle_resources_subscribe ::
  "bool \<Rightarrow> 'n subscriptions \<Rightarrow> 'n subscriber option \<Rightarrow> json \<Rightarrow> (rpc_error, json) result \<times> 'n subscriptions" where
  "handle_resources_subscribe has_provider r caller raw =
     (if \<not> has_provider then (Inl resources_disabled, r)
      else (case struct_string ''uri'' raw of
              None \<Rightarrow> (Inl (rpc_err (- 32602) ''invalid resources/subscribe params: missing uri''), r)
            | Some uri \<Rightarrow>
                if uri = [] then (Inl (rpc_err (- 32602) ''invalid resources/subscribe params: missing uri''), r)
                else (Inr (JObj []), sub_add r caller uri)))"

definition handle_resources_unsubscribe ::
  "bool \<Rightarrow> 'n subscriptions \<Rightarrow> 'n subscriber option \<Rightarrow> json \<Rightarrow> (rpc_error, json) result \<times> 'n subscriptions" where
  "handle_resources_unsubscribe has_provider r caller raw =
     (if \<not> has_provider then (Inl resources_disabled, r)
      else (case struct_string ''uri'' raw of
              None \<Rightarrow> (Inl (rpc_err (- 32602) ''invalid resources/unsubscribe params: missing uri''), r)
            | Some uri \<Rightarrow>
                if uri = [] then (Inl (rpc_err (- 32602) ''invalid resources/unsubscribe params: missing uri''), r)
                else (Inr (JObj []), sub_remove r caller uri)))"

section \<open>The reference counts are right\<close>

definition subscribers :: "'n subscriptions \<Rightarrow> string \<Rightarrow> 'n subscriber set" where
  "subscribers r uri = {n. subscribed r n uri}"

definition subs_inv :: "'n subscriptions \<Rightarrow> bool" where
  "subs_inv r \<longleftrightarrow>
     finite (dom (sub_by_notifier r)) \<and>
     (\<forall>uri. sub_refcount r uri =
        (if subscribers r uri = {} then None else Some (card (subscribers r uri))))"

lemma subscribers_finite: "subs_inv r \<Longrightarrow> finite (subscribers r uri)"
  unfolding subs_inv_def subscribers_def subscribed_def
  by (rule finite_subset [of _ "dom (sub_by_notifier r)"]) (auto split: option.splits)

lemma subs_inv_count: "subs_inv r \<Longrightarrow> count_of (sub_refcount r) uri = card (subscribers r uri)"
  by (auto simp: subs_inv_def count_of_def)

lemma subscribers_add:
  "subscribers (sub_add r n uri) u = (if u = uri then insert (or_broadcast n) (subscribers r u) else subscribers r u)"
  by (auto simp: subscribers_def subscribed_def sub_add_def Let_def split: option.splits)

lemma subscribers_remove:
  "subscribers (sub_remove r n uri) u = (if u = uri then subscribers r u - {or_broadcast n} else subscribers r u)"
  by (auto simp: subscribers_def subscribed_def sub_remove_def Let_def split: option.splits if_splits)

lemma subscribers_drop:
  "subscribers (sub_drop r (Some n)) u = subscribers r u - {n}"
  by (auto simp: subscribers_def subscribed_def sub_drop_def split: option.splits if_splits)

lemma sub_add_inv: "subs_inv r \<Longrightarrow> subs_inv (sub_add r n uri)"
proof (cases "or_broadcast n \<in> subscribers r uri")
  case True
  then have "sub_add r n uri = r"
    by (auto simp: subscribers_def subscribed_def sub_add_def Let_def split: option.splits)
  then show "subs_inv r \<Longrightarrow> subs_inv (sub_add r n uri)" by simp
next
  case False
  assume i: "subs_inv r"
  have rc: "sub_refcount (sub_add r n uri) = (sub_refcount r)(uri \<mapsto> card (subscribers r uri) + 1)"
    using False subs_inv_count [OF i]
    by (auto simp: subscribers_def subscribed_def sub_add_def Let_def split: option.splits)
  have fin: "finite (dom (sub_by_notifier (sub_add r n uri)))"
    using i by (auto simp: subs_inv_def sub_add_def Let_def)
  have "sub_refcount (sub_add r n uri) u =
      (if subscribers (sub_add r n uri) u = {} then None else Some (card (subscribers (sub_add r n uri) u)))" for u
    using i False subscribers_finite [OF i, of uri]
    by (simp add: rc subscribers_add subs_inv_def)
  with fin show "subs_inv (sub_add r n uri)" unfolding subs_inv_def by blast
qed

lemma dec_count_card:
  assumes "subs_inv r" and "n \<in> subscribers r u"
  shows "dec_count (sub_refcount r) u =
    (if subscribers r u - {n} = {} then None else Some (card (subscribers r u - {n})))"
proof -
  have f: "finite (subscribers r u)" by (rule subscribers_finite [OF assms(1)])
  then have c: "card (subscribers r u) = Suc (card (subscribers r u - {n}))"
    using assms(2) by (metis card_Suc_Diff1)
  have "card (subscribers r u - {n}) = 0 \<longleftrightarrow> subscribers r u - {n} = {}" using f by simp
  then show ?thesis
    unfolding dec_count_def subs_inv_count [OF assms(1)] c by simp
qed

lemma sub_remove_inv: "subs_inv r \<Longrightarrow> subs_inv (sub_remove r n uri)"
proof (cases "or_broadcast n \<in> subscribers r uri")
  case False
  then have "sub_remove r n uri = r"
    by (auto simp: subscribers_def subscribed_def sub_remove_def Let_def split: option.splits)
  then show "subs_inv r \<Longrightarrow> subs_inv (sub_remove r n uri)" by simp
next
  case True
  assume i: "subs_inv r"
  have rc: "sub_refcount (sub_remove r n uri) = (sub_refcount r)(uri := dec_count (sub_refcount r) uri)"
    using True by (auto simp: subscribers_def subscribed_def sub_remove_def Let_def split: option.splits)
  have fin: "finite (dom (sub_by_notifier (sub_remove r n uri)))"
    using i by (auto simp: subs_inv_def sub_remove_def Let_def split: option.splits)
  have "sub_refcount (sub_remove r n uri) u =
      (if subscribers (sub_remove r n uri) u = {} then None else Some (card (subscribers (sub_remove r n uri) u)))" for u
    using i dec_count_card [OF i True] by (simp add: rc subscribers_remove subs_inv_def)
  with fin show "subs_inv (sub_remove r n uri)" unfolding subs_inv_def by blast
qed

lemma sub_drop_inv: "subs_inv r \<Longrightarrow> subs_inv (sub_drop r n)"
proof (cases n)
  case (Some m)
  assume i: "subs_inv r"
  show "subs_inv (sub_drop r n)"
  proof (cases "sub_by_notifier r m")
    case None
    with i Some show ?thesis by (simp add: sub_drop_def)
  next
    case (Some uris)
    have mem: "u \<in> uris \<longleftrightarrow> m \<in> subscribers r u" for u
      using Some by (simp add: subscribers_def subscribed_def)
    have "sub_refcount (sub_drop r n) u =
        (if subscribers r u - {m} = {} then None else Some (card (subscribers r u - {m})))" for u
      using Some \<open>n = Some m\<close> mem [of u] dec_count_card [OF i, of m u] i
      by (auto simp: sub_drop_def subs_inv_def)
    moreover have "finite (dom (sub_by_notifier (sub_drop r n)))"
      using i Some \<open>n = Some m\<close> by (auto simp: sub_drop_def subs_inv_def)
    ultimately show ?thesis
      using \<open>n = Some m\<close> unfolding subs_inv_def by (simp add: subscribers_drop)
  qed
qed (simp add: sub_drop_def)

section \<open>Runs of the subscription book\<close>

text \<open>What connections and clients do to the book: a stream connects, disconnects, subscribes or
  unsubscribes (\<open>None\<close>: a caller without a notifier, as on stdio).\<close>

datatype 'n sub_event =
    Connect 'n
  | Disconnect nat
  | Subscribe "'n subscriber option" string
  | Unsubscribe "'n subscriber option" string

fun book_step :: "'n hub \<times> 'n subscriptions \<Rightarrow> 'n sub_event \<Rightarrow> 'n hub \<times> 'n subscriptions" where
  "book_step (h, r) (Connect n) = (snd (hub_add h n), r)"
| "book_step (h, r) (Disconnect i) =
     (case hub_notifiers h i of None \<Rightarrow> (h, r) | Some n \<Rightarrow> hub_remove h r i n)"
| "book_step (h, r) (Subscribe n uri) = (h, sub_add r n uri)"
| "book_step (h, r) (Unsubscribe n uri) = (h, sub_remove r n uri)"

definition book_run :: "'n sub_event list \<Rightarrow> 'n hub \<times> 'n subscriptions" where
  "book_run es = foldl book_step (new_hub, no_subscriptions) es"

text \<open>The specification: a set of pairs, updated pointwise, beside the connected streams.\<close>

fun book_spec :: "(nat \<rightharpoonup> 'n) \<times> nat \<times> ('n subscriber \<times> string) set \<Rightarrow> 'n sub_event \<Rightarrow>
    (nat \<rightharpoonup> 'n) \<times> nat \<times> ('n subscriber \<times> string) set" where
  "book_spec (c, i, w) (Connect n) = (c(i \<mapsto> n), i + 1, w)"
| "book_spec (c, i, w) (Disconnect k) =
     (case c k of None \<Rightarrow> (c, i, w) | Some n \<Rightarrow> (c(k := None), i, {p \<in> w. fst p \<noteq> Peer n}))"
| "book_spec (c, i, w) (Subscribe n uri) = (c, i, insert (or_broadcast n, uri) w)"
| "book_spec (c, i, w) (Unsubscribe n uri) = (c, i, w - {(or_broadcast n, uri)})"

definition book_abs :: "'n hub \<times> 'n subscriptions \<Rightarrow> (nat \<rightharpoonup> 'n) \<times> nat \<times> ('n subscriber \<times> string) set" where
  "book_abs s = (hub_notifiers (fst s), hub_next_id (fst s), {(n, uri). n \<in> subscribers (snd s) uri})"

lemma book_step_refines: "book_abs (book_step s e) = book_spec (book_abs s) e"
  by (cases "(s, e)" rule: book_step.cases)
    (auto simp: book_abs_def hub_add_def hub_remove_def subscribers_add subscribers_remove subscribers_drop
      split: option.splits if_splits)

lemma book_step_inv: "subs_inv (snd s) \<Longrightarrow> subs_inv (snd (book_step s e))"
  by (cases "(s, e)" rule: book_step.cases)
    (auto simp: hub_remove_def sub_add_inv sub_remove_inv sub_drop_inv split: option.splits)

lemma book_run_inv: "subs_inv (snd (book_run es))"
proof -
  have "subs_inv (snd s) \<Longrightarrow> subs_inv (snd (foldl book_step s es))" for s :: "'a hub \<times> 'a subscriptions"
    by (induction es arbitrary: s) (simp_all add: book_step_inv)
  then show ?thesis
    by (auto simp: book_run_def subs_inv_def no_subscriptions_def subscribers_def subscribed_def)
qed

lemma book_run_refines:
  "book_abs (book_run es) = foldl book_spec (Map.empty, 0, {}) es"
proof -
  have "book_abs (foldl book_step s es) = foldl book_spec (book_abs s) es" for s :: "'a hub \<times> 'a subscriptions"
    by (induction es arbitrary: s) (simp_all add: book_step_refines)
  then show ?thesis
    by (simp add: book_run_def book_abs_def new_hub_def no_subscriptions_def subscribers_def subscribed_def)
qed

lemma targets_of_inv:
  assumes "subs_inv r"
  shows "targets_for r uri = ({n. Peer n \<in> subscribers r uri}, Broadcast \<in> subscribers r uri)"
proof (cases "subscribers r uri = {}")
  case True
  then show ?thesis using subs_inv_count [OF assms] by (simp add: targets_for_def)
next
  case False
  then have "card (subscribers r uri) \<noteq> 0" using subscribers_finite [OF assms] by simp
  then show ?thesis using subs_inv_count [OF assms] by (simp add: targets_for_def subscribers_def)
qed

lemma gate_of_inv: "subs_inv r \<Longrightarrow> has_any_uri r uri \<longleftrightarrow> subscribers r uri \<noteq> {}"
  using subs_inv_count [of r uri] subscribers_finite [of r uri] by (auto simp: has_any_uri_def card_gt_0_iff)

text \<open>C26 (subscriptions refine a set of pairs; the skip-fetch gate is exact): after any sequence of
  connections, disconnections, subscriptions and unsubscriptions the reference-counted book holds
  exactly the pairs that the plain set specification holds, and \<open>HasResourceSubscription\<close>, which
  reads only the reference counts, is true exactly when some subscriber wants the URI.\<close>

theorem subscription_book_refines:
  "book_abs (book_run es) = foldl book_spec (Map.empty, 0, {}) es \<and>
   (has_resource_subscription (snd (book_run es)) uri \<longleftrightarrow>
      uri \<noteq> [] \<and> (\<exists>n. (n, uri) \<in> snd (snd (foldl book_spec (Map.empty, 0, {}) es))))"
proof -
  have "snd (snd (foldl book_spec (Map.empty, 0, {}) es)) = {(n, u). n \<in> subscribers (snd (book_run es)) u}"
    by (simp add: book_run_refines [symmetric] book_abs_def)
  then show ?thesis
    by (auto simp: book_run_refines has_resource_subscription_def gate_of_inv [OF book_run_inv])
qed

text \<open>No cross-talk between streams: \<open>NotifyResourceUpdated\<close> delivers to a stream exactly when
  that stream itself wants the URI, or when a caller without a notifier subscribed to it and the stream
  is connected; a stream that has just been disconnected is never a recipient through its own
  subscriptions.\<close>

lemma updates_reach_subscribers_only:
  "(n \<in> fst (notify_resource_updated (fst (book_run es)) (snd (book_run es)) uri delta)) =
     (uri \<noteq> [] \<and>
      (if Broadcast \<in> subscribers (snd (book_run es)) uri then n \<in> hub_recipients (fst (book_run es))
       else Peer n \<in> subscribers (snd (book_run es)) uri)) \<and>
   \<not> (hub_notifiers (fst (book_run es)) i = Some m \<and>
      Peer m \<in> subscribers (snd (book_step (book_run es) (Disconnect i))) uri)"
proof -
  have "hub_notifiers (fst (book_run es)) i = Some m \<Longrightarrow>
      Peer m \<notin> subscribers (snd (book_step (book_run es) (Disconnect i))) uri"
    by (cases "book_run es") (simp add: hub_remove_def subscribers_drop)
  then show ?thesis
    using targets_of_inv [OF book_run_inv, of es uri]
    by (auto simp: notify_resource_updated_def)
qed

text \<open>The handlers answer a bad request without touching the book.\<close>

lemma subscribe_errors_are_inert:
  "fst (handle_resources_subscribe p r caller raw) = Inl e \<Longrightarrow>
     snd (handle_resources_subscribe p r caller raw) = r \<and> (re_code e = - 32601 \<or> re_code e = - 32602)"
  by (auto simp: handle_resources_subscribe_def resources_disabled_def rpc_err_def split: if_splits option.splits)

end
