(* ===== verification/ToolRegistry.thy ===== *)
theory ToolRegistry
  imports McpTypes RateLimit Safety "HOL-Library.Product_Lexorder"
begin

text \<open>
  The tool registry of \<open>internal/mcp\<close>: tools and their descriptors (\<open>types.go\<close>, \<open>server.go\<close>),
  and \<open>tools/list\<close> of \<open>tools.go\<close> with its two caches, its sort order and its cursor pages. The
  registry map is a list of entries with distinct names, in the order in which \<open>range\<close> visits it;
  a nil Go map is \<open>None\<close>. A handler is a function of its arguments and of the outside world \<open>'w\<close>.
  \<open>clone_tool\<close> copies what the Go code copies; on values a copy is the value itself.
\<close>

section \<open>Tools\<close>

record tool =
  tool_id :: string
  tool_title :: string
  tool_description :: string
  input_schema :: "members option"
  output_schema :: "members option"
  tool_annotations :: "members option"

datatype handler_error = HandlerDeadline | HandlerCancelled | HandlerFailed string

type_synonym 'w tool_handler = "members \<Rightarrow> 'w \<Rightarrow> (handler_error, json) result \<times> 'w"

record 'w tool_descriptor =
  td_tool :: tool
  td_handler :: "'w tool_handler"
  td_advertise_output :: bool
  td_risk :: risk_class
  td_audit_keys :: "string list"
  td_safety_fn :: "(members \<Rightarrow> requirement) option"
  td_central_preview :: bool
  td_exemption :: string

text \<open>The registry of \<open>NewServer\<close>: a later descriptor replaces an earlier one of the same name.\<close>

type_synonym 'w tool_map = "(string \<times> 'w tool_descriptor) list"

definition tool_map_of :: "'w tool_descriptor list \<Rightarrow> 'w tool_map" where
  "tool_map_of ds = foldl (\<lambda>m d. AList.update (tool_id (td_tool d)) d m) [] ds"

record 'w registry =
  rg_tools :: "'w tool_map"
  rg_advertised :: "string set option"
  rg_page_size :: int
  rg_list :: "tool list"
  rg_list_valid :: bool
  rg_json :: string
  rg_json_valid :: bool

definition new_registry :: "'w tool_descriptor list \<Rightarrow> int \<Rightarrow> 'w registry" where
  "new_registry ds page_size =
     \<lparr>rg_tools = tool_map_of ds, rg_advertised = None, rg_page_size = page_size, rg_list = [],
      rg_list_valid = False, rg_json = [], rg_json_valid = False\<rparr>"

definition invalidate_tool_list :: "'w registry \<Rightarrow> 'w registry" where
  "invalidate_tool_list r = r\<lparr>rg_list := [], rg_list_valid := False, rg_json := [], rg_json_valid := False\<rparr>"

definition set_advertised_tools :: "'w registry \<Rightarrow> 'w tool_descriptor list option \<Rightarrow> 'w registry" where
  "set_advertised_tools r advertised =
     (case advertised of
        None \<Rightarrow> invalidate_tool_list (r\<lparr>rg_advertised := None\<rparr>)
      | Some ds \<Rightarrow> invalidate_tool_list (r\<lparr>rg_advertised := Some (set (map (\<lambda>d. tool_id (td_tool d)) ds))\<rparr>))"

definition is_advertised :: "'w registry \<Rightarrow> string \<Rightarrow> bool" where
  "is_advertised r name = (case rg_advertised r of None \<Rightarrow> True | Some s \<Rightarrow> name \<in> s)"

lemma tool_map_of_snoc:
  "tool_map_of (ds @ [d]) = AList.update (tool_id (td_tool d)) d (tool_map_of ds)"
  by (simp add: tool_map_of_def)

lemma distinct_tool_map: "distinct (map fst (tool_map_of ds))"
  by (induction ds rule: rev_induct) (simp_all add: tool_map_of_snoc distinct_update tool_map_of_def [of "[]"])

lemma tool_map_names: "(n, d) \<in> set (tool_map_of ds) \<Longrightarrow> tool_id (td_tool d) = n"
proof -
  have "map_of (tool_map_of ds) n = Some d \<Longrightarrow> tool_id (td_tool d) = n" for n d
    by (induction ds rule: rev_induct)
      (auto simp: tool_map_of_snoc update_conv' tool_map_of_def [of "[]"] split: if_splits)
  moreover assume "(n, d) \<in> set (tool_map_of ds)"
  ultimately show ?thesis using distinct_tool_map by (metis map_of_is_SomeI)
qed

lemma fst_tool_map: "fst ` set (tool_map_of ds) = (\<lambda>d. tool_id (td_tool d)) ` set ds"
  by (induction ds rule: rev_induct)
    (simp_all add: tool_map_of_snoc dom_update tool_map_of_def [of "[]"])

section \<open>Copies\<close>

fun deep_copy :: "json \<Rightarrow> json" where
  "deep_copy (JObj m) = JObj (map (\<lambda>(k, v). (k, deep_copy v)) m)"
| "deep_copy (JArr xs) = JArr (map deep_copy xs)"
| "deep_copy (JStrs ss) = JStrs (map (\<lambda>s. s) ss)"
| "deep_copy v = v"

definition deep_copy_map :: "members option \<Rightarrow> members option" where
  "deep_copy_map m = map_option (map (\<lambda>(k, v). (k, deep_copy v))) m"

definition clone_tool :: "tool \<Rightarrow> tool" where
  "clone_tool t = t\<lparr>input_schema := deep_copy_map (input_schema t),
                    output_schema := deep_copy_map (output_schema t),
                    tool_annotations := deep_copy_map (tool_annotations t)\<rparr>"

lemma deep_copy_id [simp]: "deep_copy v = v"
proof (induction v rule: deep_copy.induct)
  case (1 m)
  then have "map (\<lambda>(k, v). (k, deep_copy v)) m = m" by (intro map_idI) auto
  then show ?case by simp
next
  case (2 xs)
  then show ?case by (simp add: map_idI)
qed simp_all

lemma clone_tool_id [simp]: "clone_tool t = t"
proof -
  have "deep_copy_map m = m" for m by (cases m) (simp_all add: deep_copy_map_def)
  then show ?thesis by (simp add: clone_tool_def)
qed

section \<open>Building the list\<close>

definition compact_output_schema :: members where
  "compact_output_schema =
     (let ty = (\<lambda>t. JObj [(''type'', JStr t)]) in
      [(''type'', JStr ''object''),
       (''properties'', JObj
         [(''ok'', ty ''boolean''), (''supported'', ty ''boolean''), (''performed'', ty ''boolean''),
          (''action'', ty ''string''),
          (''ids'', JObj [(''type'', JStr ''object''), (''additionalProperties'', ty ''string'')]),
          (''data'', JObj []), (''changed'', ty ''object''), (''warnings'', ty ''array''),
          (''next'', ty ''array''), (''meta'', ty ''object''), (''error'', ty ''object''),
          (''recovery'', ty ''object'')]),
       (''required'', JStrs [''ok'', ''action''])])"

definition tool_priority :: "tool \<Rightarrow> int option" where
  "tool_priority t =
     (case tool_annotations t of
        None \<Rightarrow> None
      | Some a \<Rightarrow> (case map_of a ''priority'' of
                    Some (JInt n) \<Rightarrow> Some n
                  | Some (JFlt x) \<Rightarrow> Some (int64_of_float x)
                  | _ \<Rightarrow> None))"

definition list_tool :: "'w tool_descriptor \<Rightarrow> tool" where
  "list_tool d = (if td_advertise_output d then td_tool d
                  else (td_tool d)\<lparr>output_schema := Some compact_output_schema\<rparr>)"

definition visible_entries :: "'w registry \<Rightarrow> 'w tool_map" where
  "visible_entries r = filter (\<lambda>(name, d). is_advertised r name) (rg_tools r)"

definition item_priority :: "'w tool_descriptor \<Rightarrow> int" where
  "item_priority d = (case tool_priority (td_tool d) of None \<Rightarrow> 50 | Some p \<Rightarrow> p)"

definition build_tool_list :: "'w registry \<Rightarrow> tool list" where
  "build_tool_list r =
     (let items = visible_entries r;
          priority_aware = list_ex (\<lambda>(name, d). tool_priority (td_tool d) \<noteq> None) items
      in map (\<lambda>(name, d). list_tool d)
           (if priority_aware then sort_key (\<lambda>(name, d). (item_priority d, name)) items
            else sort_key fst items))"

section \<open>Pages\<close>

definition default_page_size :: int where "default_page_size = 80"

definition page_size :: "'w registry \<Rightarrow> int" where
  "page_size r = (if rg_page_size r \<le> 0 then default_page_size else rg_page_size r)"

definition list_page :: "tool list \<Rightarrow> int \<Rightarrow> int \<Rightarrow> tool list \<times> string" where
  "list_page tools size0 cursor0 =
     (let n = int (length tools);
          c = (if cursor0 < 0 then 0 else cursor0);
          cursor = (if n < c then n else c);
          last = (if 0 < size0 \<and> size0 < n \<and> cursor + size0 < n then cursor + size0 else n)
      in (map clone_tool (take (nat (last - cursor)) (drop (nat cursor) tools)),
          if last < n then itoa last else []))"

definition parse_cursor :: "json \<Rightarrow> (string, int) result" where
  "parse_cursor raw =
     (case raw of
        JNull \<Rightarrow> Inr 0
      | JObj m \<Rightarrow>
          (case map_of m ''cursor'' of
             None \<Rightarrow> Inr 0
           | Some JNull \<Rightarrow> Inr 0
           | Some (JStr s) \<Rightarrow>
               (if trim_space s = [] then Inl ''invalid tools/list cursor''
                else (case atoi (trim_space s) of
                        None \<Rightarrow> Inl ''invalid tools/list cursor''
                      | Some n \<Rightarrow> if n < 0 then Inl ''invalid tools/list cursor'' else Inr n))
           | Some _ \<Rightarrow> Inl ''invalid tools/list cursor'')
      | _ \<Rightarrow> Inl ''invalid tools/list params'')"

definition params_empty :: "json \<Rightarrow> bool" where
  "params_empty raw = (raw = JNull \<or> raw = JObj [])"

section \<open>The cached operations\<close>

definition fill_list :: "'w registry \<Rightarrow> 'w registry" where
  "fill_list r = (if rg_list_valid r then r else r\<lparr>rg_list := build_tool_list r, rg_list_valid := True\<rparr>)"

definition list_tools :: "'w registry \<Rightarrow> tool list \<times> 'w registry" where
  "list_tools r = (map clone_tool (rg_list (fill_list r)), fill_list r)"

definition handle_tools_list :: "'w registry \<Rightarrow> json \<Rightarrow> (rpc_error, tool list \<times> string) result \<times> 'w registry" where
  "handle_tools_list r raw =
     (case parse_cursor raw of
        Inl e \<Rightarrow> (Inl (rpc_err (- 32602) e), r)
      | Inr cursor \<Rightarrow> (Inr (list_page (rg_list (fill_list r)) (page_size r) cursor), fill_list r))"

text \<open>\<open>toolsListResultJSONBytes\<close>; \<open>enc\<close> is \<open>json.Marshal\<close> of a page, \<open>None\<close> its error.\<close>

definition result_json_bytes ::
  "(tool list \<times> string \<Rightarrow> string option) \<Rightarrow> 'w registry \<Rightarrow> string option \<times> 'w registry" where
  "result_json_bytes enc r =
     (if rg_json_valid r then (Some (rg_json r), r)
      else (case enc (list_page (rg_list (fill_list r)) (page_size r) 0) of
              None \<Rightarrow> (None, fill_list r)
            | Some out \<Rightarrow> (Some out, (fill_list r)\<lparr>rg_json := out, rg_json_valid := True\<rparr>)))"

fun checked_capacity :: "int \<Rightarrow> int list \<Rightarrow> int option" where
  "checked_capacity acc [] = Some acc"
| "checked_capacity acc (part # ps) =
     (if part < 0 \<or> max_int64 - part < acc then None else checked_capacity (acc + part) ps)"

lemma checked_capacity_sum:
  "0 \<le> acc \<Longrightarrow> acc \<le> max_int64 \<Longrightarrow> checked_capacity acc ps = Some n \<Longrightarrow>
     n = acc + sum_list ps \<and> n \<le> max_int64"
proof (induction ps arbitrary: acc)
  case (Cons p ps)
  then have "0 \<le> acc + p" "acc + p \<le> max_int64" "checked_capacity (acc + p) ps = Some n"
    by (auto split: if_splits)
  from Cons.IH [OF this] show ?case by simp
qed simp

text \<open>\<open>marshalCachedToolsListResponse\<close> and \<open>tryMarshalCachedToolsListResponse\<close> (\<open>None\<close>: not the fast
  path; then \<open>None\<close> inside: an error).\<close>

definition marshal_cached_response ::
  "(tool list \<times> string \<Rightarrow> string option) \<Rightarrow> (json \<Rightarrow> string option) \<Rightarrow> 'w registry \<Rightarrow> json \<Rightarrow>
   string option \<times> 'w registry" where
  "marshal_cached_response enc enc_id r ident =
     (case result_json_bytes enc r of
        (None, r') \<Rightarrow> (None, r')
      | (Some result, r') \<Rightarrow>
          (case enc_id ident of
             None \<Rightarrow> (None, r')
           | Some idb \<Rightarrow>
               (let prefix = ''{\"jsonrpc\":\"2.0\",\"id\":''; key = '',\"result\":'' in
                case checked_capacity 0 (map int [length prefix, length idb, length key, length result, 1]) of
                  None \<Rightarrow> (None, r')
                | Some _ \<Rightarrow> (Some (prefix @ idb @ key @ result @ ''}''), r'))))"

definition try_cached_tools_list ::
  "(tool list \<times> string \<Rightarrow> string option) \<Rightarrow> (json \<Rightarrow> string option) \<Rightarrow> bool \<Rightarrow> 'w registry \<Rightarrow> rpc_request \<Rightarrow>
   string option option \<times> 'w registry" where
  "try_cached_tools_list enc enc_id initialized r req =
     (if rq_method req \<noteq> ''tools/list'' \<or> rq_id req = JNull \<or> \<not> initialized \<or> \<not> params_empty (rq_params req)
      then (None, r)
      else (case marshal_cached_response enc enc_id r (rq_id req) of (out, r') \<Rightarrow> (Some out, r')))"

section \<open>The caches are transparent\<close>

text \<open>A memoised view: reading it gives what computing it gives, and keeps the memo right.\<close>

locale memoised_view =
  fixes read0 :: "'s \<Rightarrow> 'v \<times> 's" and compute :: "'s \<Rightarrow> 'v" and fresh :: "'s \<Rightarrow> bool"
  assumes read_value: "fresh s \<Longrightarrow> fst (read0 s) = compute s"
    and read_fresh: "fresh s \<Longrightarrow> fresh (snd (read0 s))"
    and read_compute: "fresh s \<Longrightarrow> compute (snd (read0 s)) = compute s"
begin

lemma reads_agree: "fresh s \<Longrightarrow> fst (read0 (snd (read0 s))) = fst (read0 s)"
  by (simp add: read_value read_fresh read_compute)

lemma many_reads: "fresh s \<Longrightarrow> fst (read0 (((\<lambda>s. snd (read0 s)) ^^ n) s)) = compute s"
proof (induction n arbitrary: s)
  case (Suc n)
  then show ?case
    by (simp add: funpow_Suc_right read_fresh read_compute del: funpow.simps(2))
qed (simp add: read_value)

end

definition cache_ok :: "(tool list \<times> string \<Rightarrow> string option) \<Rightarrow> 'w registry \<Rightarrow> bool" where
  "cache_ok enc r \<longleftrightarrow>
     \<not> (rg_list_valid r \<and> rg_list r \<noteq> build_tool_list r) \<and>
     \<not> (rg_json_valid r \<and> enc (list_page (build_tool_list r) (page_size r) 0) \<noteq> Some (rg_json r))"

lemma build_tool_list_cong:
  "rg_tools r = rg_tools r' \<Longrightarrow> rg_advertised r = rg_advertised r' \<Longrightarrow> build_tool_list r = build_tool_list r'"
  by (simp add: build_tool_list_def visible_entries_def is_advertised_def)

lemma fill_list_facts:
  assumes "cache_ok enc r"
  shows "rg_list (fill_list r) = build_tool_list r" "cache_ok enc (fill_list r)"
    "build_tool_list (fill_list r) = build_tool_list r" "page_size (fill_list r) = page_size r"
proof -
  have b: "build_tool_list (r\<lparr>rg_list := x, rg_list_valid := True\<rparr>) = build_tool_list r" for x
    by (rule build_tool_list_cong) simp_all
  show "rg_list (fill_list r) = build_tool_list r" "cache_ok enc (fill_list r)"
    "build_tool_list (fill_list r) = build_tool_list r" "page_size (fill_list r) = page_size r"
    using assms by (auto simp: fill_list_def cache_ok_def b page_size_def)
qed

interpretation tool_list: memoised_view list_tools build_tool_list "cache_ok enc"
  for enc :: "tool list \<times> string \<Rightarrow> string option"
  by unfold_locales (simp_all add: list_tools_def fill_list_facts map_idI)

lemma result_json_facts:
  assumes "cache_ok enc r"
  shows "fst (result_json_bytes enc r) = enc (list_page (build_tool_list r) (page_size r) 0)"
    "cache_ok enc (snd (result_json_bytes enc r))"
    "build_tool_list (snd (result_json_bytes enc r)) = build_tool_list r"
    "page_size (snd (result_json_bytes enc r)) = page_size r"
proof -
  have b: "build_tool_list ((fill_list r)\<lparr>rg_json := x, rg_json_valid := True\<rparr>) = build_tool_list r" for x
    using fill_list_facts(3) [OF assms] by (metis build_tool_list_cong registry.select_convs(1,2) registry.surjective registry.update_convs(6,7))
  show "fst (result_json_bytes enc r) = enc (list_page (build_tool_list r) (page_size r) 0)"
    using assms fill_list_facts [OF assms]
    by (auto simp: result_json_bytes_def cache_ok_def split: option.split)
  show "build_tool_list (snd (result_json_bytes enc r)) = build_tool_list r"
    using fill_list_facts [OF assms] b by (simp add: result_json_bytes_def split: option.split)
  have p: "page_size ((fill_list r)\<lparr>rg_json := x, rg_json_valid := True\<rparr>) = page_size r" for x
    by (simp add: page_size_def fill_list_def)
  show "page_size (snd (result_json_bytes enc r)) = page_size r"
    using fill_list_facts [OF assms] p by (simp add: result_json_bytes_def split: option.split)
  show "cache_ok enc (snd (result_json_bytes enc r))"
    using assms fill_list_facts [OF assms] b p
    by (auto simp: result_json_bytes_def cache_ok_def split: option.split)
qed

interpretation tools_json: memoised_view "result_json_bytes enc"
    "\<lambda>r. enc (list_page (build_tool_list r) (page_size r) 0)" "cache_ok enc"
  for enc :: "tool list \<times> string \<Rightarrow> string option"
  by unfold_locales (simp_all add: result_json_facts)

lemma handle_tools_list_value:
  "cache_ok enc r \<Longrightarrow> fst (handle_tools_list r raw) =
     (case parse_cursor raw of
        Inl e \<Rightarrow> Inl (rpc_err (- 32602) e)
      | Inr c \<Rightarrow> Inr (list_page (build_tool_list r) (page_size r) c))"
  by (simp add: handle_tools_list_def fill_list_facts split: sum.split)

datatype 'w registry_event =
    ListTools
  | ToolsListRequest json
  | CachedResult
  | SetAdvertised "'w tool_descriptor list option"

fun registry_step :: "(tool list \<times> string \<Rightarrow> string option) \<Rightarrow> 'w registry \<Rightarrow> 'w registry_event \<Rightarrow> 'w registry" where
  "registry_step enc r ListTools = snd (list_tools r)"
| "registry_step enc r (ToolsListRequest raw) = snd (handle_tools_list r raw)"
| "registry_step enc r CachedResult = snd (result_json_bytes enc r)"
| "registry_step enc r (SetAdvertised a) = set_advertised_tools r a"

lemma cache_ok_invalidate: "cache_ok enc (invalidate_tool_list r)"
  by (simp add: cache_ok_def invalidate_tool_list_def)

lemma registry_step_ok: "cache_ok enc r \<Longrightarrow> cache_ok enc (registry_step enc r e)"
proof (cases e)
  case (ToolsListRequest raw)
  then show "cache_ok enc r \<Longrightarrow> ?thesis"
    by (auto simp: handle_tools_list_def fill_list_facts split: sum.split)
next
  case (SetAdvertised a)
  then show ?thesis
    by (auto simp: set_advertised_tools_def cache_ok_invalidate split: option.split)
qed (simp_all add: tool_list.read_fresh tools_json.read_fresh)

lemma registry_run_ok: "cache_ok enc (foldl (registry_step enc) (new_registry ds ps) es)"
proof -
  have "cache_ok enc r \<Longrightarrow> cache_ok enc (foldl (registry_step enc) r es)" for r
    by (induction es arbitrary: r) (simp_all add: registry_step_ok)
  then show ?thesis by (simp add: cache_ok_def new_registry_def)
qed

text \<open>C30 (the tools/list caches are transparent): after any sequence of listings, cached responses and
  changes of the advertised set, a listing returns exactly the list built from the registry as it is
  now, the cached JSON equals the encoding of its first page, and \<open>tools/list\<close> answers from it.\<close>

theorem tool_list_caches_transparent:
  "fst (list_tools (foldl (registry_step enc) (new_registry ds ps) es)) =
     build_tool_list (foldl (registry_step enc) (new_registry ds ps) es) \<and>
   fst (result_json_bytes enc (foldl (registry_step enc) (new_registry ds ps) es)) =
     enc (list_page (build_tool_list (foldl (registry_step enc) (new_registry ds ps) es))
           (page_size (foldl (registry_step enc) (new_registry ds ps) es)) 0) \<and>
   fst (handle_tools_list (foldl (registry_step enc) (new_registry ds ps) es) raw) =
     (case parse_cursor raw of
        Inl e \<Rightarrow> Inl (rpc_err (- 32602) e)
      | Inr c \<Rightarrow> Inr (list_page (build_tool_list (foldl (registry_step enc) (new_registry ds ps) es))
                   (page_size (foldl (registry_step enc) (new_registry ds ps) es)) c))"
  by (intro conjI tool_list.read_value [OF registry_run_ok] tools_json.read_value [OF registry_run_ok]
      handle_tools_list_value [OF registry_run_ok])

section \<open>Walking the pages\<close>

text \<open>What a client does: it asks for the first page and follows \<open>nextCursor\<close>.\<close>

fun walk_pages :: "nat \<Rightarrow> tool list \<Rightarrow> int \<Rightarrow> json \<Rightarrow> tool list list option" where
  "walk_pages 0 tools size0 raw = None"
| "walk_pages (Suc fuel) tools size0 raw =
     (case parse_cursor raw of
        Inl e \<Rightarrow> None
      | Inr c \<Rightarrow>
          (case list_page tools size0 c of
             (page, cursor) \<Rightarrow>
               if cursor = [] then Some [page]
               else map_option (Cons page) (walk_pages fuel tools size0 (JObj [(''cursor'', JStr cursor)]))))"

lemma itoa_not_Nil [simp]: "itoa n \<noteq> []"
  using nat_dec_correct [of "nat n"] by (simp add: itoa_def)

lemma parse_cursor_itoa:
  "0 \<le> n \<Longrightarrow> is_int64 n \<Longrightarrow> parse_cursor (JObj [(''cursor'', JStr (itoa n))]) = Inr n"
  by (simp add: parse_cursor_def trim_space_itoa)

lemma walk_from:
  assumes "int (length tools) \<le> max_int64" and "0 < size0" and "c \<le> length tools"
    and "parse_cursor raw = Inr (int c)" and "length tools - c < fuel"
  shows "\<exists>pages. walk_pages fuel tools size0 raw = Some pages \<and> concat pages = drop c tools \<and>
           list_all (\<lambda>p. int (length p) \<le> size0) pages"
  using assms(3-5)
proof (induction fuel arbitrary: c raw)
  case (Suc fuel)
  let ?n = "length tools"
  show ?case
  proof (cases "int c + size0 < int ?n")
    case False
    then have "list_page tools size0 (int c) = (drop c tools, [])"
      using Suc.prems(1) assms(2) by (auto simp: list_page_def Let_def map_idI)
    then show ?thesis using Suc.prems False by (intro exI [of _ "[drop c tools]"]) simp
  next
    case True
    define d where "d = c + nat size0"
    have d: "int d = int c + size0" "c < d" "d < ?n" using True assms(2) by (auto simp: d_def)
    have page: "list_page tools size0 (int c) = (take (nat size0) (drop c tools), itoa (int d))"
      using True assms(2) Suc.prems(1) d by (simp add: list_page_def Let_def map_idI)
    have "is_int64 (int d)" using assms(1) d by (simp add: is_int64_def min_int64_def)
    then have "parse_cursor (JObj [(''cursor'', JStr (itoa (int d)))]) = Inr (int d)"
      by (simp add: parse_cursor_itoa)
    moreover have "length tools - d < fuel" using d Suc.prems by linarith
    ultimately obtain pages where
      w: "walk_pages fuel tools size0 (JObj [(''cursor'', JStr (itoa (int d)))]) = Some pages"
        "concat pages = drop d tools" "list_all (\<lambda>p. int (length p) \<le> size0) pages"
      using Suc.IH [of d] d by auto
    have "take (nat size0) (drop c tools) @ drop d tools = drop c tools"
      unfolding d_def by (metis add.commute append_take_drop_id drop_drop)
    then show ?thesis
      using w page Suc.prems assms(2)
      by (intro exI [of _ "take (nat size0) (drop c tools) # pages"]) simp
  qed
qed simp

text \<open>C32 (following the cursors lists every tool once): a client that starts \<open>tools/list\<close> without
  parameters and follows \<open>nextCursor\<close> gets, after at most one request per tool and one more, pages
  no longer than the page size whose concatenation is exactly the advertised list.\<close>

theorem tools_list_pages_complete:
  assumes "int (length (build_tool_list r)) \<le> max_int64"
  shows "\<exists>pages. walk_pages (Suc (length (build_tool_list r))) (build_tool_list r) (page_size r) JNull = Some pages \<and>
           concat pages = build_tool_list r \<and> list_all (\<lambda>p. int (length p) \<le> page_size r) pages"
proof -
  have "0 < page_size r" by (simp add: page_size_def default_page_size_def)
  then show ?thesis
    using walk_from [OF assms, of "page_size r" 0 JNull "Suc (length (build_tool_list r))"]
    by (simp add: parse_cursor_def)
qed

definition sample_tool :: "string \<Rightarrow> tool" where
  "sample_tool n = \<lparr>tool_id = n, tool_title = [], tool_description = [], input_schema = Some [],
     output_schema = None, tool_annotations = None\<rparr>"

definition sample_descriptor :: "string \<Rightarrow> unit tool_descriptor" where
  "sample_descriptor n = \<lparr>td_tool = sample_tool n, td_handler = (\<lambda>a w. (Inr (JObj []), w)),
     td_advertise_output = True, td_risk = risk_read, td_audit_keys = [], td_safety_fn = None,
     td_central_preview = False, td_exemption = []\<rparr>"

lemma sample_facts:
  "list_tool (sample_descriptor n) = sample_tool n" "td_tool (sample_descriptor n) = sample_tool n"
  "tool_id (sample_tool n) = n" "tool_priority (sample_tool n) = None"
  by (simp_all add: list_tool_def sample_descriptor_def sample_tool_def tool_priority_def)

lemma sample_list:
  "build_tool_list (new_registry [sample_descriptor ''b'', sample_descriptor ''a''] 1) =
     [sample_tool ''a'', sample_tool ''b'']"
proof -
  have v: "visible_entries (new_registry [sample_descriptor ''b'', sample_descriptor ''a''] 1) =
      [(''b'', sample_descriptor ''b''), (''a'', sample_descriptor ''a'')]"
    by (simp add: visible_entries_def is_advertised_def new_registry_def tool_map_of_def sample_facts)
  have "\<not> ''b'' \<le> ''a''" by code_simp
  then have "insort_key fst (''b'', sample_descriptor ''b'') [(''a'', sample_descriptor ''a'')] =
      [(''a'', sample_descriptor ''a''), (''b'', sample_descriptor ''b'')]"
    by simp
  then show ?thesis
    unfolding build_tool_list_def Let_def v by (simp add: sort_key_def sample_facts)
qed

lemma tools_list_pages_complete_witness:
  "\<exists>pages. walk_pages (Suc (Suc (Suc 0))) [sample_tool ''a'', sample_tool ''b''] 1 JNull = Some pages \<and>
     concat pages = [sample_tool ''a'', sample_tool ''b''] \<and> list_all (\<lambda>p. int (length p) \<le> 1) pages"
proof -
  have "page_size (new_registry [sample_descriptor ''b'', sample_descriptor ''a''] 1) = 1"
    by (simp add: page_size_def new_registry_def)
  then show ?thesis
    using tools_list_pages_complete [of "new_registry [sample_descriptor ''b'', sample_descriptor ''a''] 1"]
    unfolding sample_list by (simp add: max_int64_def del: walk_pages.simps)
qed

text \<open>What is listed, in which order: every registered and advertised tool appears exactly once
  in the list and nothing else does, and the list does not depend on the order in which the registry
  map is visited.\<close>

lemma tool_list_content:
  fixes r :: "'w registry"
  assumes "rg_tools r = tool_map_of ds" and "mset (rg_tools r') = mset (rg_tools r)"
    and "rg_advertised r' = rg_advertised r"
  shows "distinct (map tool_id (build_tool_list r)) \<and>
    set (map tool_id (build_tool_list r)) =
      {n \<in> (\<lambda>d. tool_id (td_tool d)) ` set ds. is_advertised r n} \<and>
    build_tool_list r' = build_tool_list r"
proof -
  let ?key = "\<lambda>(name :: string, d :: 'w tool_descriptor). (item_priority d, name)"
  have dist: "distinct (map fst (visible_entries r))"
    using distinct_tool_map [of ds] by (simp add: visible_entries_def assms(1) distinct_map_filter)
  have ms: "mset (visible_entries r') = mset (visible_entries r)"
    using assms(2,3) by (simp add: visible_entries_def is_advertised_def cong: filter_cong)
  have inj: "inj_on fst (set (visible_entries r'))" "inj_on ?key (set (visible_entries r'))"
    unfolding mset_eq_setD [OF ms] by (auto intro!: inj_onI intro: eq_key_imp_eq_value [OF dist])
  have e: "list_ex P (visible_entries r') = list_ex P (visible_entries r)" for P
    using mset_eq_setD [OF ms] by (simp add: list_ex_iff)
  have "sort_key fst (visible_entries r') = sort_key fst (visible_entries r)"
    by (rule sort_key_inj_key_eq) (use ms inj in simp_all)
  moreover have "sort_key ?key (visible_entries r') = sort_key ?key (visible_entries r)"
    by (rule sort_key_inj_key_eq) (use ms inj in simp_all)
  ultimately have order: "build_tool_list r' = build_tool_list r"
    by (simp add: build_tool_list_def Let_def e)
  have ids: "map (\<lambda>x. tool_id (case x of (name, d) \<Rightarrow> list_tool d)) xs = map fst xs"
    if "set xs \<subseteq> set (rg_tools r)" for xs
    using that by (auto simp: assms(1) list_tool_def dest!: tool_map_names)
  have sub: "set (visible_entries r) \<subseteq> set (rg_tools r)" by (auto simp: visible_entries_def)
  define xs where "xs = (if list_ex (\<lambda>(name, d). tool_priority (td_tool d) \<noteq> None) (visible_entries r)
    then sort_key ?key (visible_entries r) else sort_key fst (visible_entries r))"
  have xs: "mset xs = mset (visible_entries r)" "build_tool_list r = map (\<lambda>(name, d). list_tool d) xs"
    by (simp_all add: xs_def build_tool_list_def Let_def)
  have m: "map tool_id (build_tool_list r) = map fst xs"
    using ids [of xs] sub mset_eq_setD [OF xs(1)] by (simp add: xs(2) comp_def)
  have "mset (map fst xs) = mset (map fst (visible_entries r))" using xs(1) by simp
  then have "distinct (map fst xs)" "set (map fst xs) = set (map fst (visible_entries r))"
    using dist by (metis mset_eq_imp_distinct_iff) (metis \<open>mset (map fst xs) = _\<close> mset_eq_setD)
  moreover have "set (map fst (visible_entries r)) =
      {n \<in> (\<lambda>d. tool_id (td_tool d)) ` set ds. is_advertised r n}"
    unfolding fst_tool_map [symmetric] by (force simp: visible_entries_def assms(1))
  ultimately show ?thesis using m order by simp
qed

definition two_tools :: "unit registry" where
  "two_tools = new_registry [sample_descriptor ''b'', sample_descriptor ''a''] 1"

lemma tool_list_content_witness:
  "distinct (map tool_id (build_tool_list two_tools)) \<and>
   set (map tool_id (build_tool_list two_tools)) =
     {n \<in> (\<lambda>d. tool_id (td_tool d)) ` set [sample_descriptor ''b'', sample_descriptor ''a''].
        is_advertised two_tools n} \<and>
   build_tool_list (two_tools\<lparr>rg_tools := rev (rg_tools two_tools)\<rparr>) = build_tool_list two_tools"
  by (rule tool_list_content) (simp_all add: two_tools_def new_registry_def)

end
