(* ===== verification/AuditLog.thy ===== *)
theory AuditLog
  imports ToolRegistry
begin

text \<open>
  \<open>internal/mcp/audit_log.go\<close>: the audit records of tool calls, what is scrubbed from them, and the
  log file with its rotation. Files are a map from paths to contents; which system calls fail in a
  given call is the argument \<open>io_faults\<close>; \<open>enc\<close> is the encoder of a record (\<open>None\<close>: it fails).
\<close>

section \<open>Names and scrubbing\<close>

definition risk_class_names :: "risk_class \<Rightarrow> string list" where
  "risk_class_names rc =
     map snd (filter (\<lambda>(b, n). has_risk rc b)
       [(risk_read, ''read''), (risk_write, ''write''), (risk_sensitive_read, ''sensitive_read''),
        (risk_billing, ''billing''), (risk_admin, ''admin''), (risk_permission_change, ''permission_change''),
        (risk_external_side_effect, ''external_side_effect''), (risk_destructive, ''destructive'')])"

definition audit_needles :: "string list" where
  "audit_needles = [''api_key'', ''apikey'', ''authorization'', ''bearer'', ''email'', ''secret'', ''token'',
     ''webhook_secret'']"

definition audit_key_blocked :: "string \<Rightarrow> bool" where
  "audit_key_blocked key = list_ex (str_contains (to_lower (trim_space key))) audit_needles"

definition audit_value_blocked :: "json \<Rightarrow> bool" where
  "audit_value_blocked v = (case v of JStr s \<Rightarrow> str_contains s ''@'' | _ \<Rightarrow> False)"

text \<open>\<open>auditArguments\<close> builds its map by assigning the allow-listed keys in turn.\<close>

definition audit_arguments :: "string list \<Rightarrow> members \<Rightarrow> members option" where
  "audit_arguments keys args =
     (if keys = [] \<or> args = [] then None
      else let out = foldl (\<lambda>out key.
               if audit_key_blocked key then out
               else (case map_of args key of
                       Some v \<Rightarrow> if audit_value_blocked v then out else AList.update key v out
                     | None \<Rightarrow> out)) [] keys
           in if out = [] then None else Some out)"

definition audit_confirmation :: "members \<Rightarrow> members option" where
  "audit_confirmation m =
     (let out = filter (\<lambda>(key, v). \<not> (key \<noteq> ''tokenSuffix'' \<and> (audit_key_blocked key \<or> audit_value_blocked v))) m
      in if out = [] then None else Some out)"

fun bool_audit_arg :: "members \<Rightarrow> string list \<Rightarrow> bool" where
  "bool_audit_arg args [] = False"
| "bool_audit_arg args (key # keys) =
     (case map_of args key of Some (JBool b) \<Rightarrow> b | _ \<Rightarrow> bool_audit_arg args keys)"

definition audit_id_suffix :: "string \<Rightarrow> string" where
  "audit_id_suffix ident =
     (let t = trim_space ident in if length t < 4 then [] else ''...'' @ drop (length t - 4) t)"

section \<open>Logger\<close>

datatype audit_mode = AuditOff | AuditSideEffectsOnly | AuditAll

definition normalize_audit_mode :: "string \<Rightarrow> audit_mode" where
  "normalize_audit_mode m =
     (if m = ''all'' then AuditAll else if m = ''side_effects_only'' then AuditSideEffectsOnly else AuditOff)"

record audit_logger =
  al_path :: string
  al_mode :: audit_mode
  al_suffix :: string

record audit_record =
  ar_ts :: string
  ar_tool :: string
  ar_risk :: "string list"
  ar_workspace_suffix :: string
  ar_arguments :: "members option"
  ar_dry_run :: bool
  ar_confirmation :: "members option"
  ar_result :: string
  ar_error_code :: string

type_synonym files = "string \<rightharpoonup> string"

record io_faults =
  mkdir_fails :: bool
  stat_fails :: bool
  remove_fails :: bool
  rename_fails :: bool
  open_fails :: bool

definition no_faults :: io_faults where
  "no_faults = \<lparr>mkdir_fails = False, stat_fails = False, remove_fails = False, rename_fails = False,
     open_fails = False\<rparr>"

datatype audit_error = MkdirError | StatError | RenameError | OpenError | EncodeError

definition max_audit_bytes :: nat where
  "max_audit_bytes = 10 * 1024 * 1024"

definition new_audit_logger ::
  "io_faults \<Rightarrow> string \<Rightarrow> string \<Rightarrow> string \<Rightarrow> (audit_error, audit_logger option) result" where
  "new_audit_logger io path mode wsid =
     (if trim_space path = [] \<or> normalize_audit_mode mode = AuditOff then Inr None
      else if mkdir_fails io then Inl MkdirError
      else Inr (Some \<lparr>al_path = trim_space path, al_mode = normalize_audit_mode mode,
                      al_suffix = audit_id_suffix wsid\<rparr>))"

definition rotate_if_needed :: "io_faults \<Rightarrow> audit_logger \<Rightarrow> files \<Rightarrow> (audit_error, unit) result \<times> files" where
  "rotate_if_needed io l fs =
     (if stat_fails io then (Inl StatError, fs)
      else (case fs (al_path l) of
              None \<Rightarrow> (Inr (), fs)
            | Some content \<Rightarrow>
                if length content < max_audit_bytes then (Inr (), fs)
                else (let rotated = al_path l @ ''.1'';
                          fs1 = (if remove_fails io then fs else fs(rotated := None))
                      in if rename_fails io then (Inl RenameError, fs1)
                         else (Inr (), fs1(rotated \<mapsto> content, al_path l := None)))))"

definition audit_record_for ::
  "audit_logger \<Rightarrow> instant \<Rightarrow> 'w tool_descriptor \<Rightarrow> members \<Rightarrow> string \<Rightarrow> string \<Rightarrow> members \<Rightarrow> audit_record" where
  "audit_record_for l now d args result error_code confirmation =
     \<lparr>ar_ts = format_rfc3339 now, ar_tool = tool_id (td_tool d), ar_risk = risk_class_names (td_risk d),
      ar_workspace_suffix = al_suffix l, ar_arguments = audit_arguments (td_audit_keys d) args,
      ar_dry_run = bool_audit_arg args [''dry_run'', ''dryRun''],
      ar_confirmation = audit_confirmation confirmation, ar_result = result, ar_error_code = error_code\<rparr>"

definition record_with_confirmation ::
  "(audit_record \<Rightarrow> string option) \<Rightarrow> io_faults \<Rightarrow> instant \<Rightarrow> audit_logger option \<Rightarrow> 'w tool_descriptor \<Rightarrow>
   members \<Rightarrow> string \<Rightarrow> string \<Rightarrow> members \<Rightarrow> files \<Rightarrow> (audit_error, unit) result \<times> files" where
  "record_with_confirmation enc io now lo d args result error_code confirmation fs =
     (case lo of
        None \<Rightarrow> (Inr (), fs)
      | Some l \<Rightarrow>
          if al_mode l = AuditOff then (Inr (), fs)
          else if al_mode l = AuditSideEffectsOnly \<and> \<not> has_risk (td_risk d) risk_write \<and> \<not> is_high_risk (td_risk d)
          then (Inr (), fs)
          else (let rec = audit_record_for l now d args result error_code confirmation in
                case rotate_if_needed io l fs of
                  (Inl e, fs1) \<Rightarrow> (Inl e, fs1)
                | (Inr _, fs1) \<Rightarrow>
                    if open_fails io then (Inl OpenError, fs1)
                    else (let old = (case fs1 (al_path l) of None \<Rightarrow> [] | Some c \<Rightarrow> c) in
                          case enc rec of
                            None \<Rightarrow> (Inl EncodeError, fs1(al_path l \<mapsto> old))
                          | Some line \<Rightarrow> (Inr (), fs1(al_path l \<mapsto> old @ line @ ''\<newline>'')))))"

section \<open>What a record can hold\<close>

lemma map_of_audit_fold:
  "map_of (foldl (\<lambda>out key.
       if audit_key_blocked key then out
       else (case map_of args key of
               Some v \<Rightarrow> if audit_value_blocked v then out else AList.update key v out
             | None \<Rightarrow> out)) out keys) k =
     (if k \<in> set keys \<and> \<not> audit_key_blocked k \<and> (\<exists>v. map_of args k = Some v \<and> \<not> audit_value_blocked v)
      then map_of args k else map_of out k)"
  by (induction keys arbitrary: out) (auto simp: update_conv' split: option.splits)

lemma omitempty [simp]: "(case (if xs = [] then None else Some xs) of None \<Rightarrow> [] | Some m \<Rightarrow> m) = xs"
  by simp

text \<open>C35 (audit records carry no secrets): the arguments of a record are exactly the allow-listed
  arguments whose key names no credential or e-mail field and whose value is not a string with an
  \<open>@\<close>; of a confirmation only such fields and the token's hash suffix are kept.\<close>

theorem audit_record_scrubbed:
  "map_of (case ar_arguments (audit_record_for l now d args result code conf) of None \<Rightarrow> [] | Some m \<Rightarrow> m) k =
     (if k \<in> set (td_audit_keys d) \<and> \<not> audit_key_blocked k \<and>
         (\<exists>v. map_of args k = Some v \<and> \<not> audit_value_blocked v)
      then map_of args k else None) \<and>
   set (case ar_confirmation (audit_record_for l now d args result code conf) of None \<Rightarrow> [] | Some m \<Rightarrow> m) =
     {(key, v) \<in> set conf. key = ''tokenSuffix'' \<or> (\<not> audit_key_blocked key \<and> \<not> audit_value_blocked v)}"
proof -
  have "map_of (case audit_arguments (td_audit_keys d) args of None \<Rightarrow> [] | Some m \<Rightarrow> m) k =
     (if k \<in> set (td_audit_keys d) \<and> \<not> audit_key_blocked k \<and>
         (\<exists>v. map_of args k = Some v \<and> \<not> audit_value_blocked v)
      then map_of args k else None)"
    using map_of_audit_fold [of args "[]" "td_audit_keys d" k]
    by (auto simp: audit_arguments_def Let_def)
  moreover have "set (case audit_confirmation conf of None \<Rightarrow> [] | Some m \<Rightarrow> m) =
     {(key, v) \<in> set conf. key = ''tokenSuffix'' \<or> (\<not> audit_key_blocked key \<and> \<not> audit_value_blocked v)}"
    unfolding audit_confirmation_def Let_def omitempty by auto
  ultimately show ?thesis
    by (simp add: audit_record_for_def)
qed

section \<open>The log file\<close>

definition written :: "files \<Rightarrow> audit_logger \<Rightarrow> string" where
  "written fs l = (case fs (al_path l) of None \<Rightarrow> [] | Some c \<Rightarrow> c)"

definition is_recorded :: "audit_logger \<Rightarrow> 'w tool_descriptor \<Rightarrow> bool" where
  "is_recorded l d \<longleftrightarrow> al_mode l = AuditAll \<or>
     al_mode l = AuditSideEffectsOnly \<and> (has_risk (td_risk d) risk_write \<or> is_high_risk (td_risk d))"

text \<open>One whole line per recorded call, none lost by a write: without I/O faults a call that the
  mode selects appends exactly its encoded line to the log, after moving a log that has reached
  10 MiB aside unchanged; a call the mode does not select changes no file; and no other file is ever
  touched, whatever fails.\<close>

lemma audit_append:
  "record_with_confirmation enc no_faults now (Some l) d args result code conf fs =
     (if \<not> is_recorded l d then (Inr (), fs)
      else let log = (if length (written fs l) < max_audit_bytes then written fs l else []);
               fs1 = (if length (written fs l) < max_audit_bytes then fs
                      else fs(al_path l @ ''.1'' \<mapsto> written fs l))
           in case enc (audit_record_for l now d args result code conf) of
                None \<Rightarrow> (Inl EncodeError, fs1(al_path l \<mapsto> log))
              | Some line \<Rightarrow> (Inr (), fs1(al_path l \<mapsto> log @ line @ ''\<newline>''))) \<and>
   \<not> (p \<noteq> al_path l \<and> p \<noteq> al_path l @ ''.1'' \<and>
      snd (record_with_confirmation enc io now (Some l) d args result code conf fs) p \<noteq> fs p)"
proof -
  have m: "al_mode l = AuditOff \<or> al_mode l = AuditAll \<or> al_mode l = AuditSideEffectsOnly"
    by (cases "al_mode l") auto
  have m0: "0 < max_audit_bytes" by (simp add: max_audit_bytes_def)
  have "record_with_confirmation enc no_faults now (Some l) d args result code conf fs =
     (if \<not> is_recorded l d then (Inr (), fs)
      else let log = (if length (written fs l) < max_audit_bytes then written fs l else []);
               fs1 = (if length (written fs l) < max_audit_bytes then fs
                      else fs(al_path l @ ''.1'' \<mapsto> written fs l))
           in case enc (audit_record_for l now d args result code conf) of
                None \<Rightarrow> (Inl EncodeError, fs1(al_path l \<mapsto> log))
              | Some line \<Rightarrow> (Inr (), fs1(al_path l \<mapsto> log @ line @ ''\<newline>'')))"
    using m m0
    by (auto simp: record_with_confirmation_def rotate_if_needed_def no_faults_def is_recorded_def
        written_def Let_def fun_upd_twist split: option.split)
  moreover have "snd (record_with_confirmation enc io now (Some l) d args result code conf fs) p = fs p"
    if "p \<noteq> al_path l" "p \<noteq> al_path l @ ''.1''"
    using that by (simp add: record_with_confirmation_def rotate_if_needed_def Let_def split: option.split sum.split)
  ultimately show ?thesis by blast
qed

end
