(* ===== verification/ToolDispatch.thy ===== *)
theory ToolDispatch
  imports AuditLog JsonSchema
begin

text \<open>
  \<open>callTool\<close> of \<open>internal/mcp/tools.go\<close>: the path of a \<open>tools/call\<close> from the registry to the
  handler. Between the moments at which the call may wait, the code is a function of the server's
  state: \<open>admit\<close> (lookup, rate limit, schema validation, dry run and confirmation), \<open>start_call\<close>
  (the family semaphore) and \<open>finish_call\<close> (handler, token issue, audit, release). The clock
  readings, the random token and the I/O faults of one call are its \<open>call_env\<close>; the library
  functions it uses are \<open>dispatch_lib\<close>. The tracing span and the log lines are left out.
\<close>

section \<open>State\<close>

record dispatch_lib =
  lib_rx :: regexp_engine
  lib_sha :: "string \<Rightarrow> string"
  lib_enc :: "json \<Rightarrow> string"
  lib_preview :: "payload \<Rightarrow> string"
  lib_audit_enc :: "audit_record \<Rightarrow> string option"

datatype ctx_state = CtxActive | CtxDeadline | CtxCancelled

record call_env =
  ce_limit_now :: instant
  ce_store_now :: instant
  ce_audit_now :: instant
  ce_random :: "string option"
  ce_ctx :: ctx_state
  ce_io :: io_faults

record 'w server =
  sv_registry :: "'w registry"
  sv_enforce :: bool
  sv_limiter :: "risk_limiter option"
  sv_family :: "family_limiter option"
  sv_store :: "token_store option"
  sv_confirmation_mode :: string
  sv_workspace :: string
  sv_audit :: "audit_logger option"
  sv_files :: files
  sv_world :: 'w

datatype call_error =
    UnknownTool string
  | InvalidParams verror
  | IssueFailed token_error
  | FamilyTimeout
  | HandlerError handler_error

type_synonym call_result = "(call_error, json) result"

text \<open>What is left to do once a call is admitted.\<close>

record 'w pending =
  pd_desc :: "'w tool_descriptor"
  pd_args :: members
  pd_handler_args :: members
  pd_issue :: bool
  pd_confirmation :: members
  pd_slot :: "sem option"

datatype 'w admission = Answer call_result | Proceed "'w pending"

section \<open>Arguments\<close>

definition strip_confirmation_token :: "members \<Rightarrow> members" where
  "strip_confirmation_token args =
     (if args = [] then args
      else if map_of args ''confirm_token'' = None then args
      else filter (\<lambda>(k, v). k \<noteq> ''confirm_token'') args)"

definition bool_arg :: "members \<Rightarrow> string \<Rightarrow> bool" where
  "bool_arg args key = bool_member args key"

definition schema_required_names :: "members \<Rightarrow> string list" where
  "schema_required_names schema =
     (case map_of schema ''required'' of
        Some (JStrs ss) \<Rightarrow> ss
      | Some (JArr xs) \<Rightarrow> List.map_filter as_str xs
      | _ \<Rightarrow> [])"

fun alias_arguments :: "members \<Rightarrow> members \<Rightarrow> string list \<Rightarrow> members \<Rightarrow> members" where
  "alias_arguments props args [] out = out"
| "alias_arguments props args (name # names) out =
     (if map_of args name \<noteq> None then alias_arguments props args names out
      else if map_of props (name @ ''_id'') = None then alias_arguments props args names out
      else (case map_of args (name @ ''_id'') of
              None \<Rightarrow> alias_arguments props args names out
            | Some v \<Rightarrow> alias_arguments props args names (AList.update name v out)))"

definition schema_validation_arguments :: "members option \<Rightarrow> members \<Rightarrow> members" where
  "schema_validation_arguments schema0 args =
     (let schema = (case schema0 of None \<Rightarrow> [] | Some s \<Rightarrow> s) in
      if schema = [] \<or> args = [] then args
      else let props = (case map_of schema ''properties'' of Some (JObj p) \<Rightarrow> p | _ \<Rightarrow> []) in
           if props = [] then args
           else if schema_required_names schema = [] then args
           else alias_arguments props args (schema_required_names schema) args)"

section \<open>Confirmation\<close>

definition confirmation_enabled :: "'w server \<Rightarrow> bool" where
  "confirmation_enabled sv \<longleftrightarrow>
     sv_store sv \<noteq> None \<and> trim_space (sv_confirmation_mode sv) \<noteq> ''disabled_for_local_dev''"

definition confirmation_requirement :: "'w tool_descriptor \<Rightarrow> members \<Rightarrow> requirement" where
  "confirmation_requirement d args =
     (if trim_space (td_exemption d) \<noteq> [] then no_requirement
      else (case td_safety_fn d of
              Some f \<Rightarrow> f args
            | None \<Rightarrow> requirement_for_risk (risk_class_names (td_risk d))
                        (has_risk (td_risk d) risk_destructive) []))"

definition confirmation_payload :: "dispatch_lib \<Rightarrow> 'w server \<Rightarrow> 'w tool_descriptor \<Rightarrow> members \<Rightarrow> payload" where
  "confirmation_payload L sv d args =
     \<lparr>tool_name = tool_id (td_tool d), workspace_id = sv_workspace sv,
      risk_class = join_with ''+'' (risk_class_names (td_risk d)),
      args_hash = hash_canonical (lib_sha L) (lib_enc L) (JObj args), preview_hash = []\<rparr>"

definition confirmation_required_envelope :: "string \<Rightarrow> requirement \<Rightarrow> json" where
  "confirmation_required_envelope name req =
     JObj [(''ok'', JBool False), (''action'', JStr name),
           (''error'', JObj
              [(''code'', JStr ''confirmation_required''),
               (''message'', JStr ''Run this high-risk tool with dry_run:true first, inspect the preview, then retry with confirm_token.'')]),
           (''recovery'', JObj
              [(''tool'', JStr name),
               (''hint'', JStr ''Use dry_run:true to get a short-lived confirmation token.'')]),
           (''confirmation'', JObj [(''required'', JBool True), (''reason'', JStr (req_reason req))])]"

text \<open>The error texts of \<open>Validate\<close>; a failing random source only occurs when issuing.\<close>

definition token_error_text :: "token_error \<Rightarrow> string" where
  "token_error_text e =
     (case e of
        StoreNotConfigured \<Rightarrow> ''confirmation token store is not configured''
      | RandomFailed \<Rightarrow> []
      | TokenUnknown \<Rightarrow> ''confirmation token was not issued or was already used''
      | TokenExpired \<Rightarrow> ''confirmation token expired''
      | TokenMismatch \<Rightarrow> ''confirmation token does not match this tool call'')"

definition confirmation_rejected_envelope :: "string \<Rightarrow> token_error \<Rightarrow> json" where
  "confirmation_rejected_envelope name e =
     JObj [(''ok'', JBool False), (''action'', JStr name),
           (''error'', JObj [(''code'', JStr ''confirmation_mismatch''), (''message'', JStr (token_error_text e))]),
           (''recovery'', JObj
              [(''tool'', JStr name),
               (''hint'', JStr ''Run dry_run:true again and retry with the new confirm_token before it expires.'')])]"

definition central_dry_run_preview :: "'w tool_descriptor \<Rightarrow> requirement \<Rightarrow> json" where
  "central_dry_run_preview d req =
     JObj [(''ok'', JBool True), (''action'', JStr (tool_id (td_tool d))), (''dry_run'', JBool True),
           (''changed'', JBool False),
           (''data'', JObj [(''would_execute'', JObj
              [(''tool'', JStr (tool_id (td_tool d))), (''risk_class'', JStrs (risk_class_names (td_risk d))),
               (''reason'', JStr (req_reason req))])]),
           (''warnings'', JStrs [''No changes were made. Re-run with confirm_token to execute this high-risk operation.''])]"

text \<open>A result that is, or marshals to, a JSON object gets the metadata as a member; any other result
  is wrapped.\<close>

definition merge_confirmation_metadata :: "json \<Rightarrow> members \<Rightarrow> json" where
  "merge_confirmation_metadata result confirmation =
     (case result of
        JObj m \<Rightarrow> JObj (AList.update ''confirmation'' (JObj confirmation) (map (\<lambda>(k, v). (k, deep_copy v)) m))
      | _ \<Rightarrow> JObj [(''ok'', JBool True), (''confirmation'', JObj confirmation), (''data'', result)])"

definition issue_confirmation ::
  "dispatch_lib \<Rightarrow> call_env \<Rightarrow> 'w server \<Rightarrow> 'w tool_descriptor \<Rightarrow> members \<Rightarrow> json \<Rightarrow>
   (token_error, json \<times> members) result \<times> 'w server" where
  "issue_confirmation L env sv d args result =
     (case issue_token (lib_preview L) (sv_store sv) (ce_store_now env) (ce_random env)
             (confirmation_payload L sv d args) of
        (Inl e, st) \<Rightarrow> (Inl e, sv\<lparr>sv_store := st\<rparr>)
      | (Inr (token, ph, expires), st) \<Rightarrow>
          (Inr (merge_confirmation_metadata result
                  [(''required'', JBool True), (''risk_class'', JStrs (risk_class_names (td_risk d))),
                   (''preview_hash'', JStr ph), (''confirm_token'', JStr token),
                   (''expires_at'', JStr (format_rfc3339 expires)),
                   (''instructions'', JStr ''Call the same tool with these arguments, omit dry_run, and include confirm_token to execute.'')],
                [(''status'', JStr ''issued''), (''tokenSuffix'', JStr (token_audit_suffix (lib_sha L) token)),
                 (''previewHash'', JStr ph), (''expiresAt'', JStr (format_rfc3339 expires))]),
           sv\<lparr>sv_store := st\<rparr>))"

definition audit_call ::
  "dispatch_lib \<Rightarrow> call_env \<Rightarrow> 'w server \<Rightarrow> 'w tool_descriptor \<Rightarrow> members \<Rightarrow> string \<Rightarrow> string \<Rightarrow> members \<Rightarrow> 'w server" where
  "audit_call L env sv d args result code confirmation =
     sv\<lparr>sv_files := snd (record_with_confirmation (lib_audit_enc L) (ce_io env) (ce_audit_now env) (sv_audit sv)
          d args result code confirmation (sv_files sv))\<rparr>"

section \<open>The stages of a call\<close>

definition proceed :: "'w tool_descriptor \<Rightarrow> members \<Rightarrow> bool \<Rightarrow> members \<Rightarrow> 'w admission" where
  "proceed d args issue conf =
     Proceed \<lparr>pd_desc = d, pd_args = args, pd_handler_args = strip_confirmation_token args, pd_issue = issue,
              pd_confirmation = conf, pd_slot = None\<rparr>"

text \<open>\<open>callTool\<close> lines 404 to 451, once the arguments are valid.\<close>

definition admit_confirmed ::
  "dispatch_lib \<Rightarrow> call_env \<Rightarrow> 'w server \<Rightarrow> 'w tool_descriptor \<Rightarrow> string \<Rightarrow> members \<Rightarrow> 'w admission \<times> 'w server" where
  "admit_confirmed L env sv d name args =
     (let req = confirmation_requirement d args; hargs = strip_confirmation_token args in
      if \<not> (confirmation_enabled sv \<and> requires_confirmation req) then (proceed d args False [], sv)
      else if bool_arg args ''dry_run''
      then (if td_central_preview d
            then (case issue_confirmation L env sv d hargs (central_dry_run_preview d req) of
                    (Inl e, sv1) \<Rightarrow>
                      (Answer (Inl (IssueFailed e)),
                       audit_call L env sv1 d hargs ''error'' ''confirmation_issue_failed'' [])
                  | (Inr (result, meta), sv1) \<Rightarrow>
                      (Answer (Inr result), audit_call L env sv1 d hargs ''success'' [] meta))
            else (proceed d args True [], sv))
      else (let token = trim_space (str_member args ''confirm_token'') in
            if token = []
            then (Answer (Inr (confirmation_required_envelope name req)),
                  audit_call L env sv d args ''rejected'' ''confirmation_required''
                    [(''status'', JStr ''required''), (''required'', JBool True), (''reason'', JStr (req_reason req))])
            else (case validate_token (sv_store sv) (ce_store_now env) token (confirmation_payload L sv d hargs) of
                    (Inl e, st) \<Rightarrow>
                      (Answer (Inr (confirmation_rejected_envelope name e)),
                       audit_call L env (sv\<lparr>sv_store := st\<rparr>) d args ''rejected'' ''confirmation_mismatch''
                         [(''status'', JStr ''rejected''), (''tokenSuffix'', JStr (token_audit_suffix (lib_sha L) token))])
                  | (Inr _, st) \<Rightarrow>
                      (proceed d args False
                         [(''status'', JStr ''accepted''), (''tokenSuffix'', JStr (token_audit_suffix (lib_sha L) token))],
                       sv\<lparr>sv_store := st\<rparr>))))"

definition admit ::
  "dispatch_lib \<Rightarrow> call_env \<Rightarrow> 'w server \<Rightarrow> string \<Rightarrow> members option \<Rightarrow> 'w admission \<times> 'w server" where
  "admit L env sv name args0 =
     (case map_of (rg_tools (sv_registry sv)) name of
        None \<Rightarrow> (Answer (Inl (UnknownTool name)), sv)
      | Some d \<Rightarrow>
          if sv_enforce sv \<and> \<not> is_advertised (sv_registry sv) name then (Answer (Inl (UnknownTool name)), sv)
          else (case limiter_allow (sv_limiter sv) (td_risk d) (ce_limit_now env) of
                  ((allowed, retry), lm) \<Rightarrow>
                    let sv1 = sv\<lparr>sv_limiter := lm\<rparr>; args = (case args0 of None \<Rightarrow> [] | Some a \<Rightarrow> a) in
                    if \<not> allowed then (Answer (Inr (rate_limited_envelope name (td_risk d) retry)), sv1)
                    else (case validate_root (lib_rx L) (input_schema (td_tool d))
                                 (JObj (schema_validation_arguments (input_schema (td_tool d)) args)) of
                            Some e \<Rightarrow> (Answer (Inl (InvalidParams e)), sv1)
                          | None \<Rightarrow> admit_confirmed L env sv1 d name args)))"

text \<open>Lines 461 to 469: \<open>None\<close> while the call waits for a slot.\<close>

definition start_call :: "call_env \<Rightarrow> 'w server \<Rightarrow> 'w pending \<Rightarrow> (call_error, 'w pending) result option \<times> 'w server" where
  "start_call env sv p =
     (case family_acquire (sv_family sv) (ce_ctx env \<noteq> CtxActive) (td_risk (pd_desc p)) of
        (None, fl) \<Rightarrow> (None, sv\<lparr>sv_family := fl\<rparr>)
      | (Some (Inl _), fl) \<Rightarrow> (Some (Inl FamilyTimeout), sv\<lparr>sv_family := fl\<rparr>)
      | (Some (Inr slot), fl) \<Rightarrow> (Some (Inr (p\<lparr>pd_slot := slot\<rparr>)), sv\<lparr>sv_family := fl\<rparr>))"

definition release_slot :: "'w server \<Rightarrow> sem option \<Rightarrow> 'w server" where
  "release_slot sv slot =
     (case slot of None \<Rightarrow> sv | Some s \<Rightarrow> sv\<lparr>sv_family := map_option (sem_receive s) (sv_family sv)\<rparr>)"

definition handler_outcome :: "call_env \<Rightarrow> handler_error \<Rightarrow> string" where
  "handler_outcome env e =
     (if e = HandlerDeadline \<or> ce_ctx env = CtxDeadline then ''timeout''
      else if e = HandlerCancelled \<or> ce_ctx env = CtxCancelled then ''cancelled''
      else ''tool_error'')"

text \<open>Lines 471 to 500, and the deferred release.\<close>

definition finish_call :: "dispatch_lib \<Rightarrow> call_env \<Rightarrow> 'w server \<Rightarrow> 'w pending \<Rightarrow> call_result \<times> 'w server" where
  "finish_call L env sv p =
     (let d = pd_desc p in
      case td_handler d (pd_handler_args p) (sv_world sv) of (r, w) \<Rightarrow>
        let sv1 = sv\<lparr>sv_world := w\<rparr> in
        case r of
          Inl e \<Rightarrow>
            (Inl (HandlerError e),
             release_slot (audit_call L env sv1 d (pd_args p) ''error'' (handler_outcome env e) []) (pd_slot p))
        | Inr result \<Rightarrow>
            if pd_issue p
            then (case issue_confirmation L env sv1 d (pd_handler_args p) result of
                    (Inl e, sv2) \<Rightarrow>
                      (Inl (IssueFailed e),
                       release_slot (audit_call L env sv2 d (pd_handler_args p) ''error''
                         ''confirmation_issue_failed'' []) (pd_slot p))
                  | (Inr (result', meta), sv2) \<Rightarrow>
                      (Inr result',
                       release_slot (audit_call L env sv2 d (pd_handler_args p) ''success'' [] meta) (pd_slot p)))
            else (Inr result,
                  release_slot (audit_call L env sv1 d (pd_handler_args p) ''success'' [] (pd_confirmation p))
                    (pd_slot p)))"

text \<open>The whole of \<open>callTool\<close> when nothing else runs in between; \<open>None\<close> when it waits.\<close>

definition call_tool ::
  "dispatch_lib \<Rightarrow> call_env \<Rightarrow> 'w server \<Rightarrow> string \<Rightarrow> members option \<Rightarrow> call_result option \<times> 'w server" where
  "call_tool L env sv name args0 =
     (case admit L env sv name args0 of
        (Answer r, sv1) \<Rightarrow> (Some r, sv1)
      | (Proceed p, sv1) \<Rightarrow>
          (case start_call env sv1 p of
             (None, sv2) \<Rightarrow> (None, sv2)
           | (Some (Inl e), sv2) \<Rightarrow> (Some (Inl e), sv2)
           | (Some (Inr q), sv2) \<Rightarrow> (case finish_call L env sv2 q of (r, sv3) \<Rightarrow> (Some r, sv3))))"

section \<open>Interleaved calls\<close>

text \<open>
  Any number of calls may be in progress: the ones that wait for a slot and the ones that run their
  handler. A step admits a new call, gives a waiting call its slot (or ends it when its context ends), or
  runs a started call to its end. Two ghost lists record the confirmation tokens that were issued and the
  confirmed calls that passed \<open>Validate\<close>, with the payload of each.
\<close>

record 'w dispatcher =
  dp_server :: "'w server"
  dp_waiting :: "'w pending list"
  dp_running :: "'w pending list"
  dp_issued :: "(string \<times> payload) list"
  dp_confirmed :: "(string \<times> payload) list"

definition token_entry :: "'w server \<Rightarrow> string \<Rightarrow> issued_token option" where
  "token_entry sv t = (case sv_store sv of None \<Rightarrow> None | Some st \<Rightarrow> ts_tokens st t)"

text \<open>The entry a stage inserted into the store, if it inserted one: only the random token of the
  stage can be new.\<close>

definition issued_by :: "call_env \<Rightarrow> 'w server \<Rightarrow> 'w server \<Rightarrow> (string \<times> payload) list" where
  "issued_by env sv sv' =
     (case ce_random env of
        None \<Rightarrow> []
      | Some t \<Rightarrow> (case token_entry sv' t of
                     None \<Rightarrow> []
                   | Some i \<Rightarrow> if token_entry sv t = Some i then [] else [(t, it_payload i)]))"

definition needs_token :: "'w server \<Rightarrow> 'w pending \<Rightarrow> bool" where
  "needs_token sv p \<longleftrightarrow>
     confirmation_enabled sv \<and> requires_confirmation (confirmation_requirement (pd_desc p) (pd_args p)) \<and>
     \<not> bool_arg (pd_args p) ''dry_run''"

definition confirmed_by :: "dispatch_lib \<Rightarrow> 'w server \<Rightarrow> 'w pending \<Rightarrow> (string \<times> payload) list" where
  "confirmed_by L sv p =
     (if needs_token sv p
      then [(trim_space (str_member (pd_args p) ''confirm_token''),
             confirmation_payload L sv (pd_desc p) (pd_handler_args p))]
      else [])"

inductive dispatch_step :: "dispatch_lib \<Rightarrow> 'w dispatcher \<Rightarrow> 'w dispatcher \<Rightarrow> bool" for L where
  answered: "admit L env (dp_server s) name args = (Answer r, sv) \<Longrightarrow>
     dispatch_step L s (s\<lparr>dp_server := sv, dp_issued := issued_by env (dp_server s) sv @ dp_issued s\<rparr>)"
| admitted: "admit L env (dp_server s) name args = (Proceed p, sv) \<Longrightarrow>
     dispatch_step L s (s\<lparr>dp_server := sv, dp_waiting := p # dp_waiting s,
       dp_issued := issued_by env (dp_server s) sv @ dp_issued s,
       dp_confirmed := confirmed_by L (dp_server s) p @ dp_confirmed s\<rparr>)"
| started: "p \<in> set (dp_waiting s) \<Longrightarrow> start_call env (dp_server s) p = (Some (Inr q), sv) \<Longrightarrow>
     dispatch_step L s (s\<lparr>dp_server := sv, dp_waiting := remove1 p (dp_waiting s), dp_running := q # dp_running s\<rparr>)"
| gave_up: "p \<in> set (dp_waiting s) \<Longrightarrow> start_call env (dp_server s) p = (Some (Inl e), sv) \<Longrightarrow>
     dispatch_step L s (s\<lparr>dp_server := sv, dp_waiting := remove1 p (dp_waiting s)\<rparr>)"
| finished: "p \<in> set (dp_running s) \<Longrightarrow> finish_call L env (dp_server s) p = (r, sv) \<Longrightarrow>
     dispatch_step L s (s\<lparr>dp_server := sv, dp_running := remove1 p (dp_running s),
       dp_issued := issued_by env (dp_server s) sv @ dp_issued s\<rparr>)"

definition initial_server :: "'w server \<Rightarrow> bool" where
  "initial_server sv \<longleftrightarrow> (\<forall>t. token_entry sv t = None) \<and> sv_family sv = Some new_family_limiter"

definition start_dispatcher :: "'w server \<Rightarrow> 'w dispatcher" where
  "start_dispatcher sv = \<lparr>dp_server = sv, dp_waiting = [], dp_running = [], dp_issued = [], dp_confirmed = []\<rparr>"

inductive dispatch_reachable :: "dispatch_lib \<Rightarrow> 'w server \<Rightarrow> 'w dispatcher \<Rightarrow> bool" for L sv where
  dr_start: "dispatch_reachable L sv (start_dispatcher sv)"
| dr_step: "dispatch_reachable L sv s \<Longrightarrow> dispatch_step L s s' \<Longrightarrow> dispatch_reachable L sv s'"

inductive_cases dispatch_stepE: "dispatch_step L s s'"

section \<open>The effect of a stage on the token store\<close>

lemma audit_call_fields [simp]:
  "sv_store (audit_call L env sv d args r c m) = sv_store sv"
  "sv_family (audit_call L env sv d args r c m) = sv_family sv"
  "sv_world (audit_call L env sv d args r c m) = sv_world sv"
  "sv_registry (audit_call L env sv d args r c m) = sv_registry sv"
  "sv_limiter (audit_call L env sv d args r c m) = sv_limiter sv"
  "sv_confirmation_mode (audit_call L env sv d args r c m) = sv_confirmation_mode sv"
  "sv_workspace (audit_call L env sv d args r c m) = sv_workspace sv"
  by (simp_all add: audit_call_def)

lemma release_slot_fields [simp]:
  "sv_store (release_slot sv sl) = sv_store sv" "sv_world (release_slot sv sl) = sv_world sv"
  "sv_family (release_slot sv sl) =
     (case sl of None \<Rightarrow> sv_family sv | Some s \<Rightarrow> map_option (sem_receive s) (sv_family sv))"
  by (simp_all add: release_slot_def split: option.split)

definition grows_by_issue :: "call_env \<Rightarrow> 'w server \<Rightarrow> 'w server \<Rightarrow> bool" where
  "grows_by_issue env sv sv' \<longleftrightarrow>
     (\<forall>t i. token_entry sv' t = Some i \<longrightarrow> token_entry sv t = Some i \<or> ce_random env = Some t)"

lemma token_entry_cong: "sv_store sv = sv_store sv' \<Longrightarrow> token_entry sv t = token_entry sv' t"
  by (simp add: token_entry_def)

lemma grows_same_store: "sv_store sv' = sv_store sv \<Longrightarrow> grows_by_issue env sv sv'"
  by (simp add: grows_by_issue_def token_entry_def)

lemma grows_by_issue_cong:
  "grows_by_issue env sv sv1 \<Longrightarrow> sv_store sv2 = sv_store sv1 \<Longrightarrow> grows_by_issue env sv sv2"
  by (simp add: grows_by_issue_def token_entry_def)

lemma token_entry_simps [simp]:
  "token_entry (audit_call L env sv d args r c m) t = token_entry sv t"
  "token_entry (release_slot sv sl) t = token_entry sv t"
  "token_entry (sv\<lparr>sv_world := w\<rparr>) t = token_entry sv t"
  "token_entry (sv\<lparr>sv_limiter := lm\<rparr>) t = token_entry sv t"
  "token_entry (sv\<lparr>sv_family := fl\<rparr>) t = token_entry sv t"
  by (simp_all add: token_entry_def)

lemma grows_simps [simp]:
  "grows_by_issue env sv (audit_call L env' sv' d args r c m) = grows_by_issue env sv sv'"
  "grows_by_issue env sv (release_slot sv' sl) = grows_by_issue env sv sv'"
  "grows_by_issue env (sv\<lparr>sv_world := w\<rparr>) sv' = grows_by_issue env sv sv'"
  "grows_by_issue env (sv\<lparr>sv_limiter := lm\<rparr>) sv' = grows_by_issue env sv sv'"
  by (simp_all add: grows_by_issue_def)

lemma issue_grows:
  "issue_confirmation L env sv d args result = (r, sv') \<Longrightarrow>
     grows_by_issue env sv sv' \<and> sv_world sv' = sv_world sv \<and> sv_family sv' = sv_family sv"
  by (auto simp: issue_confirmation_def issue_token_def grows_by_issue_def token_entry_def Let_def
      split: option.splits if_splits)

lemma validate_entry:
  "validate_token (sv_store sv) now tok pl = (r, st) \<Longrightarrow>
     token_entry (sv\<lparr>sv_store := st\<rparr>) t = (if t = tok then None else token_entry sv t) \<and>
     (\<forall>u. r = Inr u \<longrightarrow> (\<exists>i. token_entry sv tok = Some i \<and> it_payload i = pl \<and> now < it_expires i))"
  by (auto simp: validate_token_def token_entry_def split: option.splits if_splits)

lemma validate_grows:
  "validate_token (sv_store sv) now tok pl = (r, st) \<Longrightarrow> sv_store sv' = st \<Longrightarrow> grows_by_issue env sv sv'"
  using validate_entry [of sv now tok pl r st] token_entry_cong [of sv' "sv\<lparr>sv_store := st\<rparr>"]
  by (auto simp: grows_by_issue_def split: if_splits)

lemma admit_confirmed_effect:
  assumes "admit_confirmed L env sv d name args = (a, sv')"
  shows "grows_by_issue env sv sv' \<and> sv_world sv' = sv_world sv \<and> sv_family sv' = sv_family sv"
  using assms unfolding admit_confirmed_def Let_def
  by (auto simp: proceed_def grows_same_store issue_grows split: if_splits prod.splits sum.splits
      intro: validate_grows grows_same_store dest: issue_grows elim: grows_by_issue_cong)

text \<open>An admitted call holds either no obligation, a dry run, or a token that was live for it.\<close>

lemma admit_confirmed_proceed:
  assumes "admit_confirmed L env sv d name args = (Proceed p, sv')"
  shows "pd_desc p = d \<and> pd_args p = args \<and> pd_handler_args p = strip_confirmation_token args \<and> pd_slot p = None \<and>
    (if needs_token sv p
     then \<exists>i. token_entry sv (trim_space (str_member args ''confirm_token'')) = Some i \<and>
            it_payload i = confirmation_payload L sv d (strip_confirmation_token args) \<and>
            ce_store_now env < it_expires i \<and>
            (\<forall>t. token_entry sv' t =
               (if t = trim_space (str_member args ''confirm_token'') then None else token_entry sv t))
     else \<forall>t. token_entry sv' t = token_entry sv t)"
proof -
  let ?req = "confirmation_requirement d args"
  let ?tok = "trim_space (str_member args ''confirm_token'')"
  let ?pl = "confirmation_payload L sv d (strip_confirmation_token args)"
  consider (free) "\<not> (confirmation_enabled sv \<and> requires_confirmation ?req)"
    | (dry) "confirmation_enabled sv" "requires_confirmation ?req" "bool_arg args ''dry_run''"
    | (token) "confirmation_enabled sv" "requires_confirmation ?req" "\<not> bool_arg args ''dry_run''"
    by blast
  then show ?thesis
  proof cases
    case free
    with assms show ?thesis by (auto simp: admit_confirmed_def proceed_def needs_token_def Let_def)
  next
    case dry
    with assms show ?thesis
      by (auto simp: admit_confirmed_def proceed_def needs_token_def Let_def split: if_splits sum.splits prod.splits)
  next
    case token
    obtain r st where v: "validate_token (sv_store sv) (ce_store_now env) ?tok ?pl = (r, st)" by force
    with assms token obtain u where "r = Inr u" "sv' = sv\<lparr>sv_store := st\<rparr>"
      and p: "pd_desc p = d" "pd_args p = args" "pd_handler_args p = strip_confirmation_token args" "pd_slot p = None"
      by (auto simp: admit_confirmed_def proceed_def Let_def split: if_splits sum.splits)
    with validate_entry [OF v] token show ?thesis by (auto simp: needs_token_def)
  qed
qed

lemma admit_effect:
  assumes "admit L env sv name args = (a, sv')"
  shows "grows_by_issue env sv sv' \<and> sv_world sv' = sv_world sv \<and> sv_family sv' = sv_family sv"
  using assms unfolding admit_def Let_def
  by (auto simp: grows_same_store split: option.splits if_splits prod.splits
      dest!: admit_confirmed_effect)

lemma payload_limiter [simp]: "confirmation_payload L (sv\<lparr>sv_limiter := lm\<rparr>) d args = confirmation_payload L sv d args"
  by (simp add: confirmation_payload_def)

lemma needs_token_limiter [simp]: "needs_token (sv\<lparr>sv_limiter := lm\<rparr>) p = needs_token sv p"
  by (simp add: needs_token_def confirmation_enabled_def)

lemma admit_proceed:
  assumes "admit L env sv name args0 = (Proceed p, sv')"
  shows "map_of (rg_tools (sv_registry sv)) name = Some (pd_desc p)"
    "sv_enforce sv \<Longrightarrow> is_advertised (sv_registry sv) name"
    "fst (fst (limiter_allow (sv_limiter sv) (td_risk (pd_desc p)) (ce_limit_now env)))"
    "validate_root (lib_rx L) (input_schema (td_tool (pd_desc p)))
       (JObj (schema_validation_arguments (input_schema (td_tool (pd_desc p))) (pd_args p))) = None"
    "pd_args p = (case args0 of None \<Rightarrow> [] | Some a \<Rightarrow> a)"
    "pd_handler_args p = strip_confirmation_token (pd_args p)" "pd_slot p = None"
    "if needs_token sv p
     then \<exists>i. token_entry sv (trim_space (str_member (pd_args p) ''confirm_token'')) = Some i \<and>
            it_payload i = confirmation_payload L sv (pd_desc p) (pd_handler_args p) \<and>
            ce_store_now env < it_expires i \<and>
            (\<forall>t. token_entry sv' t =
               (if t = trim_space (str_member (pd_args p) ''confirm_token'') then None else token_entry sv t))
     else \<forall>t. token_entry sv' t = token_entry sv t"
  using assms unfolding admit_def Let_def
  by (auto split: option.splits if_splits prod.splits dest!: admit_confirmed_proceed)

lemma start_effect:
  "start_call env sv p = (r, sv') \<Longrightarrow> sv_store sv' = sv_store sv \<and> sv_world sv' = sv_world sv"
  by (auto simp: start_call_def split: prod.splits option.splits sum.splits)

lemma finish_effect:
  assumes "finish_call L env sv p = (r, sv')"
  shows "grows_by_issue env sv sv' \<and> sv_family sv' = sv_family (release_slot sv (pd_slot p))"
proof -
  obtain hr w where h: "td_handler (pd_desc p) (pd_handler_args p) (sv_world sv) = (hr, w)" by force
  show ?thesis
  proof (cases "\<exists>x. hr = Inr x \<and> pd_issue p")
    case True
    then obtain x ir sv2 where x: "hr = Inr x" "pd_issue p"
      "issue_confirmation L env (sv\<lparr>sv_world := w\<rparr>) (pd_desc p) (pd_handler_args p) x = (ir, sv2)"
      by force
    with issue_grows [OF x(3)] assms h show ?thesis
      by (cases ir) (auto simp: finish_call_def Let_def split: prod.splits option.splits)
  next
    case False
    with assms h show ?thesis
      by (auto simp: finish_call_def Let_def grows_by_issue_def split: sum.splits if_splits option.splits)
  qed
qed

section \<open>Every confirmed execution has its own preview\<close>

definition live_count :: "'w server \<Rightarrow> string \<times> payload \<Rightarrow> nat" where
  "live_count sv e = (if map_option it_payload (token_entry sv (fst e)) = Some (snd e) then 1 else 0)"

definition ghosts_ok :: "'w dispatcher \<Rightarrow> bool" where
  "ghosts_ok s \<longleftrightarrow>
     (\<forall>e. count (mset (dp_confirmed s)) e + live_count (dp_server s) e \<le> count (mset (dp_issued s)) e)"

lemma live_count_grows:
  assumes "grows_by_issue env sv sv'"
  shows "live_count sv' e \<le> live_count sv e + count (mset (issued_by env sv sv')) e"
proof (cases "live_count sv' e = 0 \<or> live_count sv e = 1")
  case False
  then obtain i where i: "token_entry sv' (fst e) = Some i" "it_payload i = snd e"
    and o: "live_count sv e = 0" by (auto simp: live_count_def split: if_splits)
  then have "token_entry sv (fst e) \<noteq> Some i" by (auto simp: live_count_def)
  with assms i have "ce_random env = Some (fst e)" by (auto simp: grows_by_issue_def)
  with i \<open>token_entry sv (fst e) \<noteq> Some i\<close> have "issued_by env sv sv' = [e]"
    by (cases e) (auto simp: issued_by_def)
  then show ?thesis by (simp add: live_count_def)
qed (auto simp: live_count_def split: if_splits)

lemma live_count_cong: "(\<And>t. token_entry sv' t = token_entry sv t) \<Longrightarrow> live_count sv' e = live_count sv e"
  by (simp add: live_count_def)

lemma ghosts_ok_grow:
  assumes "ghosts_ok s" and "grows_by_issue env (dp_server s) sv"
  shows "ghosts_ok (s\<lparr>dp_server := sv, dp_issued := issued_by env (dp_server s) sv @ dp_issued s\<rparr>)"
  unfolding ghosts_ok_def
proof
  fix e
  have "count (mset (dp_confirmed s)) e + live_count (dp_server s) e \<le> count (mset (dp_issued s)) e"
    using assms(1) unfolding ghosts_ok_def by blast
  with live_count_grows [OF assms(2), of e]
  show "count (mset (dp_confirmed (s\<lparr>dp_server := sv, dp_issued := issued_by env (dp_server s) sv @ dp_issued s\<rparr>))) e +
      live_count (dp_server (s\<lparr>dp_server := sv, dp_issued := issued_by env (dp_server s) sv @ dp_issued s\<rparr>)) e
      \<le> count (mset (dp_issued (s\<lparr>dp_server := sv, dp_issued := issued_by env (dp_server s) sv @ dp_issued s\<rparr>))) e"
    by simp
qed

lemma ghosts_ok_admitted:
  assumes "ghosts_ok s" and a: "admit L env (dp_server s) name args = (Proceed p, sv)"
  shows "ghosts_ok (s\<lparr>dp_server := sv, dp_waiting := ws, dp_issued := issued_by env (dp_server s) sv @ dp_issued s,
    dp_confirmed := confirmed_by L (dp_server s) p @ dp_confirmed s\<rparr>)"
proof (cases "needs_token (dp_server s) p")
  case False
  then show ?thesis
    using ghosts_ok_grow [OF assms(1)] admit_effect [OF a]
    by (simp add: ghosts_ok_def confirmed_by_def)
next
  case True
  let ?t = "trim_space (str_member (pd_args p) ''confirm_token'')"
  from admit_proceed(8) [OF a] True obtain i where
    i: "token_entry (dp_server s) ?t = Some i"
      "it_payload i = confirmation_payload L (dp_server s) (pd_desc p) (pd_handler_args p)"
    and after: "\<And>t. token_entry sv t = (if t = ?t then None else token_entry (dp_server s) t)" by auto
  have c: "count (mset (confirmed_by L (dp_server s) p)) e + live_count sv e = live_count (dp_server s) e" for e
    using i after True by (cases e) (auto simp: confirmed_by_def live_count_def)
  have "count (mset (confirmed_by L (dp_server s) p @ dp_confirmed s)) e + live_count sv e
      \<le> count (mset (issued_by env (dp_server s) sv @ dp_issued s)) e" for e
  proof -
    have "count (mset (dp_confirmed s)) e + live_count (dp_server s) e \<le> count (mset (dp_issued s)) e"
      using assms(1) unfolding ghosts_ok_def by blast
    with c [of e] show ?thesis unfolding mset_append count_union by linarith
  qed
  then show ?thesis by (simp only: ghosts_ok_def dispatcher.simps) simp
qed

lemma ghosts_ok_step: "dispatch_step L s s' \<Longrightarrow> ghosts_ok s \<Longrightarrow> ghosts_ok s'"
proof (induction rule: dispatch_step.induct)
  case (answered env s name args r sv)
  then show ?case using ghosts_ok_grow admit_effect by blast
next
  case (admitted env s name args p sv)
  then show ?case by (intro ghosts_ok_admitted)
next
  case (started p s env q sv)
  from start_effect [OF started(2)] have "live_count sv e = live_count (dp_server s) e" for e
    by (intro live_count_cong token_entry_cong) simp
  with started show ?case by (simp add: ghosts_ok_def)
next
  case (gave_up p s env e sv)
  from start_effect [OF gave_up(2)] have "live_count sv e = live_count (dp_server s) e" for e
    by (intro live_count_cong token_entry_cong) simp
  with gave_up show ?case by (simp add: ghosts_ok_def)
next
  case (finished p s env r sv)
  from ghosts_ok_grow [OF finished(3)] finish_effect [OF finished(2)] show ?case
    by (simp add: ghosts_ok_def)
qed

lemma ghosts_ok_reachable: "dispatch_reachable L sv s \<Longrightarrow> initial_server sv \<Longrightarrow> ghosts_ok s"
proof (induction rule: dispatch_reachable.induct)
  case dr_start
  then show ?case by (simp add: ghosts_ok_def start_dispatcher_def initial_server_def live_count_def)
qed (blast intro: ghosts_ok_step)

section \<open>Slots\<close>

definition slots_ok :: "'w dispatcher \<Rightarrow> bool" where
  "slots_ok s \<longleftrightarrow>
     (\<exists>fl. sv_family (dp_server s) = Some fl \<and>
        (\<forall>sm. sem_used sm fl = length (filter (\<lambda>p. pd_slot p = Some sm) (dp_running s)) \<and>
              sem_used sm fl \<le> sem_cap sm)) \<and>
     (\<forall>p \<in> set (dp_running s). pd_slot p = family_sem (td_risk (pd_desc p)))"

lemma slots_okI:
  "sv_family (dp_server s) = Some fl \<Longrightarrow>
   (\<And>sm. sem_used sm fl = length (filter (\<lambda>p. pd_slot p = Some sm) (dp_running s)) \<and>
         sem_used sm fl \<le> sem_cap sm) \<Longrightarrow>
   (\<And>p. p \<in> set (dp_running s) \<Longrightarrow> pd_slot p = family_sem (td_risk (pd_desc p))) \<Longrightarrow> slots_ok s"
  unfolding slots_ok_def by blast

lemma sem_send_used:
  "sem_send sm fl = Some fl' \<Longrightarrow>
     sem_used sm' fl' = (if sm' = sm then Suc (sem_used sm fl) else sem_used sm' fl) \<and> sem_used sm fl' \<le> sem_cap sm"
  by (cases sm; cases sm') (auto split: if_splits)

lemma sem_receive_used: "sem_used sm' (sem_receive sm fl) = (if sm' = sm then sem_used sm fl - 1 else sem_used sm' fl)"
  by (cases sm; cases sm') auto

lemma length_filter_remove1:
  "p \<in> set xs \<Longrightarrow> length (filter P (remove1 p xs)) = length (filter P xs) - (if P p then 1 else 0)"
proof (induction xs)
  case (Cons x xs)
  have "p \<in> set xs \<Longrightarrow> P p \<Longrightarrow> 0 < length (filter P xs)" by (auto simp: filter_empty_conv)
  with Cons show ?case by (auto simp: Suc_diff_le)
qed simp

lemma start_slot:
  assumes "start_call env sv p = (Some (Inr q), sv')" and "sv_family sv = Some fl"
  shows "pd_desc q = pd_desc p \<and> pd_slot q = family_sem (td_risk (pd_desc p)) \<and>
    (case pd_slot q of
       None \<Rightarrow> sv_family sv' = Some fl
     | Some sm \<Rightarrow> \<exists>fl'. sv_family sv' = Some fl' \<and> sem_send sm fl = Some fl')"
  using assms by (auto simp: start_call_def family_acquire_def split: option.splits if_splits prod.splits)

lemma slots_ok_step: "dispatch_step L s s' \<Longrightarrow> slots_ok s \<Longrightarrow> slots_ok s'"
proof (induction rule: dispatch_step.induct)
  case (answered env s name args r sv)
  with admit_effect [OF answered(1)] show ?case by (simp add: slots_ok_def)
next
  case (admitted env s name args p sv)
  with admit_effect [OF admitted(1)] show ?case by (simp add: slots_ok_def)
next
  case (started p s env q sv)
  from started(3) obtain fl where fl: "sv_family (dp_server s) = Some fl"
    and u: "\<And>sm. sem_used sm fl = length (filter (\<lambda>p. pd_slot p = Some sm) (dp_running s)) \<and> sem_used sm fl \<le> sem_cap sm"
    by (auto simp: slots_ok_def)
  show ?case
  proof (cases "pd_slot q")
    case None
    with start_slot [OF started(2) fl] u started(3) fl show ?thesis by (auto simp: slots_ok_def)
  next
    case (Some sm)
    with start_slot [OF started(2) fl] obtain fl' where fl': "sv_family sv = Some fl'" "sem_send sm fl = Some fl'"
      and q: "pd_slot q = family_sem (td_risk (pd_desc q))" by auto
    have us: "sem_used sm' fl' = length (filter (\<lambda>p. pd_slot p = Some sm') (q # dp_running s)) \<and>
        sem_used sm' fl' \<le> sem_cap sm'" for sm'
      using sem_send_used [OF fl'(2), of sm'] u [of sm'] Some by auto
    show ?thesis
    proof (rule slots_okI [of _ fl'], goal_cases)
      case (2 sm')
      then show ?case using us [of sm'] by simp
    qed (use fl' q started(3) in \<open>auto simp: slots_ok_def\<close>)
  qed
next
  case (gave_up p s env e sv)
  then show ?case
    by (auto simp: slots_ok_def start_call_def family_acquire_def split: option.splits if_splits prod.splits)
next
  case (finished p s env r sv)
  from finished(3) obtain fl where fl: "sv_family (dp_server s) = Some fl"
    and u: "\<And>sm. sem_used sm fl = length (filter (\<lambda>p. pd_slot p = Some sm) (dp_running s)) \<and> sem_used sm fl \<le> sem_cap sm"
    by (auto simp: slots_ok_def)
  define fl' where "fl' = (case pd_slot p of None \<Rightarrow> fl | Some sm \<Rightarrow> sem_receive sm fl)"
  have f: "sv_family sv = Some fl'"
    using finish_effect [OF finished(2)] fl by (auto simp: fl'_def split: option.splits)
  have us: "sem_used sm fl' = length (filter (\<lambda>q. pd_slot q = Some sm) (remove1 p (dp_running s))) \<and>
      sem_used sm fl' \<le> sem_cap sm" for sm
    using u [of sm] length_filter_remove1 [OF finished(1), of "\<lambda>q. pd_slot q = Some sm"]
    by (auto simp: fl'_def sem_receive_used split: option.split)
  show ?case
  proof (rule slots_okI [of _ fl'], goal_cases)
    case (2 sm)
    then show ?case using us [of sm] by simp
  qed (use f finished(3) in \<open>auto simp: slots_ok_def dest: set_remove1_subset [THEN subsetD]\<close>)
qed

lemma slots_ok_reachable: "dispatch_reachable L sv s \<Longrightarrow> initial_server sv \<Longrightarrow> slots_ok s"
proof (induction rule: dispatch_reachable.induct)
  case dr_start
  have "sem_used sm new_family_limiter = 0" for sm by (cases sm) (simp_all add: new_family_limiter_def)
  with dr_start show ?case by (simp add: slots_ok_def start_dispatcher_def initial_server_def)
qed (blast intro: slots_ok_step)

text \<open>C2 (one preview, one execution): however calls interleave, every call that passed the
  confirmation check is matched by its own earlier token issue for the same tool, workspace, risk class
  and argument hash: counting both, no token and payload was accepted more often than it was issued.\<close>

theorem confirmed_calls_backed:
  assumes "dispatch_reachable L sv s" and "initial_server sv"
  shows "mset (dp_confirmed s) \<subseteq># mset (dp_issued s)"
  using ghosts_ok_reachable [OF assms] unfolding ghosts_ok_def subseteq_mset_def
  by (metis add_leD1)

text \<open>C7 (high-risk calls never overlap): in every reachable state of the dispatcher at most one
  high-risk handler and at most two ordinary write handlers are running.\<close>

theorem high_risk_never_overlaps:
  assumes "dispatch_reachable L sv s" and "initial_server sv"
  shows "length (filter (\<lambda>p. is_high_risk (td_risk (pd_desc p))) (dp_running s)) \<le> 1 \<and>
    length (filter (\<lambda>p. family_sem (td_risk (pd_desc p)) = Some SemWrite) (dp_running s)) \<le> 2"
proof -
  from slots_ok_reachable [OF assms] obtain fl where
    u: "\<And>sm. sem_used sm fl = length (filter (\<lambda>p. pd_slot p = Some sm) (dp_running s)) \<and> sem_used sm fl \<le> sem_cap sm"
    and sl: "\<forall>p \<in> set (dp_running s). pd_slot p = family_sem (td_risk (pd_desc p))"
    by (auto simp: slots_ok_def)
  have "filter (\<lambda>p. pd_slot p = Some sm) (dp_running s) =
      filter (\<lambda>p. family_sem (td_risk (pd_desc p)) = Some sm) (dp_running s)" for sm
    using sl by (intro filter_cong) auto
  then have "length (filter (\<lambda>p. family_sem (td_risk (pd_desc p)) = Some sm) (dp_running s)) \<le> sem_cap sm" for sm
    using u [of sm] by simp
  from this [of SemHigh] this [of SemWrite] show ?thesis by (simp add: family_sem_high)
qed

text \<open>C1 (what guards a handler): a call that is admitted names a registered tool, advertised when
  advertising is enforced, within its rate limit, with arguments that the tool's schema accepts; the
  handler never sees the token; and if the tool needs confirmation the arguments either ask for a dry run
  or carry a token that the store held, unexpired, for this very tool, workspace, risk class and
  arguments, and that is gone afterwards. Admission itself runs no handler.\<close>

theorem admission_guarded:
  assumes "admit L env sv name args0 = (Proceed p, sv')"
  shows "map_of (rg_tools (sv_registry sv)) name = Some (pd_desc p) \<and>
    (sv_enforce sv \<longrightarrow> is_advertised (sv_registry sv) name) \<and>
    fst (fst (limiter_allow (sv_limiter sv) (td_risk (pd_desc p)) (ce_limit_now env))) \<and>
    validate_root (lib_rx L) (input_schema (td_tool (pd_desc p)))
      (JObj (schema_validation_arguments (input_schema (td_tool (pd_desc p))) (pd_args p))) = None \<and>
    map_of (pd_handler_args p) ''confirm_token'' = None \<and>
    (confirmation_enabled sv \<and> requires_confirmation (confirmation_requirement (pd_desc p) (pd_args p)) \<longrightarrow>
       bool_arg (pd_args p) ''dry_run'' \<or>
       (\<exists>i tok. tok = trim_space (str_member (pd_args p) ''confirm_token'') \<and> token_entry sv tok = Some i \<and>
          it_payload i = confirmation_payload L sv (pd_desc p) (pd_handler_args p) \<and>
          ce_store_now env < it_expires i \<and> token_entry sv' tok = None)) \<and>
    sv_world sv' = sv_world sv"
proof -
  have "map_of (strip_confirmation_token m) ''confirm_token'' = None" for m
    by (auto simp: strip_confirmation_token_def map_of_eq_None_iff)
  then show ?thesis
    using admit_proceed [OF assms] admit_effect [OF assms]
    by (auto simp: needs_token_def split: if_splits)
qed

section \<open>A run with one confirmed call\<close>

definition demo_lib :: dispatch_lib where
  "demo_lib = \<lparr>lib_rx = (\<lambda>_. None), lib_sha = id, lib_enc = (\<lambda>_. []), lib_preview = (\<lambda>_. []),
     lib_audit_enc = (\<lambda>_. Some [])\<rparr>"

definition demo_env :: call_env where
  "demo_env = \<lparr>ce_limit_now = 0, ce_store_now = 0, ce_audit_now = 0, ce_random = Some ''tok'',
     ce_ctx = CtxActive, ce_io = no_faults\<rparr>"

definition demo_tool :: "unit tool_descriptor" where
  "demo_tool = \<lparr>td_tool = \<lparr>tool_id = ''risky'', tool_title = [], tool_description = [], input_schema = None,
       output_schema = None, tool_annotations = None\<rparr>, td_handler = (\<lambda>a w. (Inr (JObj []), w)),
     td_advertise_output = True, td_risk = risk_destructive, td_audit_keys = [],
     td_safety_fn = Some (\<lambda>_. both_required ''demo''), td_central_preview = True, td_exemption = []\<rparr>"

definition demo_server :: "unit server" where
  "demo_server = \<lparr>sv_registry = new_registry [demo_tool] 0, sv_enforce = True, sv_limiter = None,
     sv_family = Some new_family_limiter, sv_store = Some (new_token_store 0), sv_confirmation_mode = [],
     sv_workspace = ''w1'', sv_audit = None, sv_files = Map.empty, sv_world = ()\<rparr>"

definition demo_preview :: "unit admission \<times> unit server" where
  "demo_preview = admit demo_lib demo_env demo_server ''risky'' (Some [(''dry_run'', JBool True)])"

definition demo_confirm :: "unit admission \<times> unit server" where
  "demo_confirm = admit demo_lib demo_env (snd demo_preview) ''risky'' (Some [(''confirm_token'', JStr ''tok'')])"

lemma trim_tok: "trim_space ''tok'' = ''tok''" "trim_space [] = []"
  by code_simp+

lemma demo_facts:
  "map_of (rg_tools (new_registry [demo_tool] 0)) ''risky'' = Some demo_tool"
  "is_advertised (new_registry [demo_tool] 0) n"
  "td_safety_fn demo_tool = Some (\<lambda>_. both_required ''demo'')" "td_exemption demo_tool = []"
  "td_central_preview demo_tool" "input_schema (td_tool demo_tool) = None"
  "requires_confirmation (both_required r)"
  "limiter_allow None rc now = ((True, 0), None)"
  by (simp_all add: new_registry_def tool_map_of_def demo_tool_def is_advertised_def both_required_def limiter_allow_def)

lemmas demo_eval = admit_def admit_confirmed_def demo_facts confirmation_requirement_def confirmation_enabled_def
  trim_tok bool_arg_def bool_member_def str_member_def strip_confirmation_token_def issue_confirmation_def
  issue_token_def validate_token_def validate_root_def new_token_store_def default_token_ttl_def minute_def
  second_def proceed_def Let_def demo_env_def demo_server_def

lemma demo_preview_answer: "\<exists>r. fst demo_preview = Answer (Inr r)"
  by (simp add: demo_preview_def demo_eval audit_call_def record_with_confirmation_def)

lemma demo_preview_server:
  "snd demo_preview = demo_server\<lparr>sv_store := Some \<lparr>ts_ttl = 300000000000,
     ts_tokens = [''tok'' \<mapsto> \<lparr>it_payload = confirmation_payload demo_lib demo_server demo_tool [(''dry_run'', JBool True)],
                              it_expires = 300000000000\<rparr>]\<rparr>\<rparr>"
  by (simp add: demo_preview_def demo_eval audit_call_def record_with_confirmation_def)

lemma demo_payload_eq:
  "confirmation_payload demo_lib sv demo_tool a = confirmation_payload demo_lib sv demo_tool b"
  by (simp add: confirmation_payload_def demo_lib_def hash_canonical_def)

definition demo_pending :: "unit pending" where
  "demo_pending = \<lparr>pd_desc = demo_tool, pd_args = [(''confirm_token'', JStr ''tok'')], pd_handler_args = [],
     pd_issue = False, pd_confirmation = [(''status'', JStr ''accepted''), (''tokenSuffix'', JStr ''tok'')],
     pd_slot = None\<rparr>"

lemma demo_confirm_eval:
  "demo_confirm = (Proceed demo_pending, demo_server\<lparr>sv_store := Some \<lparr>ts_ttl = 300000000000, ts_tokens = Map.empty\<rparr>\<rparr>)"
proof -
  have p: "confirmation_payload demo_lib (sv\<lparr>sv_store := st\<rparr>) d a = confirmation_payload demo_lib sv d a" for sv st d and a :: members
    by (simp add: confirmation_payload_def)
  show ?thesis
    using demo_payload_eq [of demo_server "[(''dry_run'', JBool True)]" "[]"] p
    by (simp add: demo_confirm_def demo_preview_server demo_eval demo_pending_def token_audit_suffix_def) (simp add: demo_lib_def confirmation_payload_def)
qed

definition demo_run1 :: "unit dispatcher" where
  "demo_run1 = (start_dispatcher demo_server)\<lparr>dp_server := snd demo_preview,
     dp_issued := issued_by demo_env demo_server (snd demo_preview)\<rparr>"

definition demo_run2 :: "unit dispatcher" where
  "demo_run2 = demo_run1\<lparr>dp_server := snd demo_confirm, dp_waiting := [demo_pending],
     dp_issued := issued_by demo_env (snd demo_preview) (snd demo_confirm) @ dp_issued demo_run1,
     dp_confirmed := confirmed_by demo_lib (snd demo_preview) demo_pending\<rparr>"

definition demo_run3 :: "unit dispatcher" where
  "demo_run3 = demo_run2\<lparr>dp_server := (snd demo_confirm)\<lparr>sv_family := Some \<lparr>fl_write = 0, fl_high = 1\<rparr>\<rparr>,
     dp_waiting := [], dp_running := [demo_pending\<lparr>pd_slot := Some SemHigh\<rparr>]\<rparr>"

lemma demo_initial: "initial_server demo_server"
  by (simp add: initial_server_def token_entry_def demo_server_def new_token_store_def)

lemma demo_reachable1: "dispatch_reachable demo_lib demo_server demo_run1"
proof -
  obtain r where "demo_preview = (Answer r, snd demo_preview)" using demo_preview_answer by (metis prod.collapse)
  then have "dispatch_step demo_lib (start_dispatcher demo_server) demo_run1"
    using dispatch_step.answered [of demo_lib demo_env "start_dispatcher demo_server"]
    by (simp add: demo_run1_def demo_preview_def start_dispatcher_def)
  then show ?thesis by (rule dr_step [OF dr_start])
qed

lemma demo_reachable2: "dispatch_reachable demo_lib demo_server demo_run2"
proof -
  have "admit demo_lib demo_env (dp_server demo_run1) ''risky'' (Some [(''confirm_token'', JStr ''tok'')]) =
      (Proceed demo_pending, snd demo_confirm)"
    using demo_confirm_eval by (simp add: demo_run1_def demo_confirm_def)
  from dispatch_step.admitted [OF this] have "dispatch_step demo_lib demo_run1 demo_run2"
    by (simp add: demo_run2_def demo_run1_def start_dispatcher_def)
  then show ?thesis by (rule dr_step [OF demo_reachable1])
qed

lemma demo_reachable3: "dispatch_reachable demo_lib demo_server demo_run3"
proof -
  have "family_sem risk_destructive = Some SemHigh"
    by (simp add: family_sem_def has_risk_bits) (simp add: risk_destructive_def)
  then have "start_call demo_env (dp_server demo_run2) demo_pending =
      (Some (Inr (demo_pending\<lparr>pd_slot := Some SemHigh\<rparr>)), (snd demo_confirm)\<lparr>sv_family := Some \<lparr>fl_write = 0, fl_high = 1\<rparr>\<rparr>)"
    by (simp add: start_call_def family_acquire_def demo_run2_def demo_confirm_eval demo_server_def
        demo_pending_def demo_tool_def new_family_limiter_def)
  from dispatch_step.started [OF _ this, of demo_lib] have "dispatch_step demo_lib demo_run2 demo_run3"
    by (simp add: demo_run3_def demo_run2_def demo_run1_def start_dispatcher_def)
  then show ?thesis by (rule dr_step [OF demo_reachable2])
qed

lemma confirmed_calls_backed_witness:
  "mset (dp_confirmed demo_run3) \<subseteq># mset (dp_issued demo_run3) \<and> length (dp_confirmed demo_run3) = 1"
proof -
  have "confirmed_by demo_lib (snd demo_preview) demo_pending \<noteq> []"
    by (simp add: demo_preview_server confirmed_by_def needs_token_def demo_eval demo_pending_def)
  then have "length (dp_confirmed demo_run3) = 1"
    by (simp add: demo_run3_def demo_run2_def confirmed_by_def split: if_splits)
  then show ?thesis using confirmed_calls_backed [OF demo_reachable3 demo_initial] by blast
qed

lemma high_risk_never_overlaps_witness:
  "length (filter (\<lambda>p. is_high_risk (td_risk (pd_desc p))) (dp_running demo_run3)) \<le> 1 \<and>
   length (filter (\<lambda>p. family_sem (td_risk (pd_desc p)) = Some SemWrite) (dp_running demo_run3)) \<le> 2 \<and>
   length (dp_running demo_run3) = 1"
  using high_risk_never_overlaps [OF demo_reachable3 demo_initial] by (simp add: demo_run3_def)

lemma admission_guarded_witness:
  "\<exists>i. token_entry (snd demo_preview) ''tok'' = Some i \<and> ce_store_now demo_env < it_expires i \<and>
     token_entry (snd demo_confirm) ''tok'' = None"
proof -
  have a: "admit demo_lib demo_env (snd demo_preview) ''risky'' (Some [(''confirm_token'', JStr ''tok'')]) =
      (Proceed demo_pending, snd demo_confirm)"
    using demo_confirm_eval by (simp add: demo_confirm_def)
  have "needs_token (snd demo_preview) demo_pending"
    by (simp add: demo_preview_server needs_token_def demo_eval demo_pending_def)
  moreover have "trim_space (str_member (pd_args demo_pending) ''confirm_token'') = ''tok''"
    by (simp add: demo_pending_def str_member_def trim_tok)
  ultimately show ?thesis
    using admission_guarded [OF a] unfolding needs_token_def by auto
qed

end
