(* ===== verification/Inflight.thy ===== *)
theory Inflight
  imports McpTypes GoTime
begin

text \<open>
  The calls in progress of \<open>internal/mcp/server.go\<close>: the table of cancellable requests by JSON-RPC
  id, the active progress tokens, and the gate for progress notifications. A request's context is a
  number; \<open>if_causes\<close> records the cause with which it was cancelled, the first one winning, as
  \<open>context.WithCancelCause\<close> does. A Go map whose keys are of type \<open>any\<close> panics on a key that is a
  map or a slice: such an operation is \<open>None\<close>. \<open>show_v\<close> stands for \<open>fmt.Sprintf("%v")\<close> and
  \<open>show_g\<close> for \<open>strconv.FormatFloat(v, 'g', -1, 64)\<close>.
\<close>

section \<open>State\<close>

datatype cancel_cause = ExplicitCancellation | SessionReset | CallFinished

record progress_state =
  ps_last :: rat
  ps_has :: bool
  ps_window :: "instant option"
  ps_count :: nat

record inflight =
  if_calls :: "json \<rightharpoonup> nat"
  if_causes :: "nat \<rightharpoonup> cancel_cause"
  if_tokens :: "string \<rightharpoonup> progress_state"

definition no_inflight :: inflight where
  "no_inflight = \<lparr>if_calls = Map.empty, if_causes = Map.empty, if_tokens = Map.empty\<rparr>"

definition cancel_ctx :: "nat \<Rightarrow> cancel_cause \<Rightarrow> inflight \<Rightarrow> inflight" where
  "cancel_ctx c cause st =
     (if if_causes st c = None then st\<lparr>if_causes := (if_causes st)(c \<mapsto> cause)\<rparr> else st)"

section \<open>Requests by id\<close>

fun hashable :: "json \<Rightarrow> bool" where
  "hashable (JArr _) = False"
| "hashable (JObj _) = False"
| "hashable (JStrs _) = False"
| "hashable _ = True"

definition rpc_id_key :: "(rat \<Rightarrow> string) \<Rightarrow> json \<Rightarrow> json" where
  "rpc_id_key show_g ident =
     (case ident of
        JNum s \<Rightarrow> JStr s
      | JFlt v \<Rightarrow> (if of_int (trunc_rat v) = v then JStr (itoa (int64_of_float v)) else JStr (show_g v))
      | _ \<Rightarrow> ident)"

definition register_inflight :: "(rat \<Rightarrow> string) \<Rightarrow> json \<Rightarrow> nat \<Rightarrow> inflight \<Rightarrow> inflight option" where
  "register_inflight show_g ident c st =
     (if ident = JNull then Some st
      else if \<not> hashable (rpc_id_key show_g ident) then None
      else Some (st\<lparr>if_calls := (if_calls st)(rpc_id_key show_g ident \<mapsto> c)\<rparr>))"

definition unregister_inflight :: "(rat \<Rightarrow> string) \<Rightarrow> json \<Rightarrow> inflight \<Rightarrow> inflight option" where
  "unregister_inflight show_g ident st =
     (if ident = JNull then Some st
      else if \<not> hashable (rpc_id_key show_g ident) then None
      else Some (st\<lparr>if_calls := (if_calls st)(rpc_id_key show_g ident := None)\<rparr>))"

definition cancel_inflight :: "(rat \<Rightarrow> string) \<Rightarrow> json \<Rightarrow> inflight \<Rightarrow> (bool \<times> inflight) option" where
  "cancel_inflight show_g ident st =
     (if ident = JNull then Some (False, st)
      else let key = rpc_id_key show_g ident in
        if \<not> hashable key then None
        else (case if_calls st key of
                None \<Rightarrow> Some (False, st)
              | Some c \<Rightarrow>
                  Some (True, cancel_ctx c ExplicitCancellation (st\<lparr>if_calls := (if_calls st)(key := None)\<rparr>))))"

text \<open>\<open>handleCancelled\<close>: params that are no object decode to a nil id or fail to decode.\<close>

definition handle_cancelled :: "(rat \<Rightarrow> string) \<Rightarrow> json \<Rightarrow> inflight \<Rightarrow> inflight option" where
  "handle_cancelled show_g raw st =
     (case raw of
        JObj m \<Rightarrow>
          (case map_of m ''requestId'' of
             None \<Rightarrow> Some st
           | Some JNull \<Rightarrow> Some st
           | Some ident \<Rightarrow> map_option snd (cancel_inflight show_g ident st))
      | _ \<Rightarrow> Some st)"

definition cancel_all_inflight :: "inflight \<Rightarrow> nat \<times> inflight" where
  "cancel_all_inflight st =
     (card (dom (if_calls st)),
      st\<lparr>if_calls := Map.empty,
         if_causes := (\<lambda>c. if c \<in> ran (if_calls st) \<and> if_causes st c = None then Some SessionReset
                            else if_causes st c)\<rparr>)"

definition inflight_count :: "inflight \<Rightarrow> nat" where
  "inflight_count st = card (dom (if_calls st))"

section \<open>Progress tokens\<close>

definition validate_progress_token :: "json \<Rightarrow> string option" where
  "validate_progress_token token =
     (case token of
        JStr v \<Rightarrow> (if trim_space v = [] then Some ''progressToken string must not be empty'' else None)
      | JNum v \<Rightarrow> (if atoi v = None then Some ''progressToken number must be an integer'' else None)
      | JInt _ \<Rightarrow> None
      | JFlt _ \<Rightarrow> Some ''progressToken number must be an integer, not a float''
      | _ \<Rightarrow> Some ''progressToken must be a string or integer'')"

definition progress_token_key :: "(json \<Rightarrow> string) \<Rightarrow> json \<Rightarrow> string" where
  "progress_token_key show_v token =
     (case token of
        JStr v \<Rightarrow> ''s:'' @ v
      | JNum v \<Rightarrow> ''n:'' @ v
      | _ \<Rightarrow> ''v:'' @ show_v token)"

definition fresh_progress :: progress_state where
  "fresh_progress = \<lparr>ps_last = 0, ps_has = False, ps_window = None, ps_count = 0\<rparr>"

definition register_progress_token :: "(json \<Rightarrow> string) \<Rightarrow> json \<Rightarrow> inflight \<Rightarrow> (string, inflight) result" where
  "register_progress_token show_v token st =
     (let key = progress_token_key show_v token in
      if if_tokens st key \<noteq> None then Inl ''progressToken is already in use by another in-flight request''
      else Inr (st\<lparr>if_tokens := (if_tokens st)(key \<mapsto> fresh_progress)\<rparr>))"

definition release_progress_token :: "(json \<Rightarrow> string) \<Rightarrow> json \<Rightarrow> inflight \<Rightarrow> inflight" where
  "release_progress_token show_v token st =
     st\<lparr>if_tokens := (if_tokens st)(progress_token_key show_v token := None)\<rparr>"

section \<open>The progress gate\<close>

definition max_progress_per_second :: nat where
  "max_progress_per_second = 10"

text \<open>\<open>AllowProgress\<close> on the state of a registered token.\<close>

definition progress_gate :: "progress_state \<Rightarrow> instant \<Rightarrow> rat \<Rightarrow> bool \<times> progress_state" where
  "progress_gate st now progress =
     (if ps_has st \<and> progress \<le> ps_last st then (False, st)
      else
        (let st1 = (case ps_window st of
                      None \<Rightarrow> st\<lparr>ps_window := Some now, ps_count := 0\<rparr>
                    | Some w \<Rightarrow> if second \<le> now - w then st\<lparr>ps_window := Some now, ps_count := 0\<rparr> else st) in
         if max_progress_per_second \<le> ps_count st1 then (False, st1)
         else (True, st1\<lparr>ps_count := ps_count st1 + 1, ps_last := progress, ps_has := True\<rparr>)))"

definition allow_progress ::
  "(json \<Rightarrow> string) \<Rightarrow> json \<Rightarrow> instant \<Rightarrow> rat \<Rightarrow> inflight \<Rightarrow> bool \<times> inflight" where
  "allow_progress show_v token now progress st =
     (let key = progress_token_key show_v token in
      case if_tokens st key of
        None \<Rightarrow> (False, st)
      | Some ps \<Rightarrow> (case progress_gate ps now progress of
                      (ok, ps') \<Rightarrow> (ok, st\<lparr>if_tokens := (if_tokens st)(key \<mapsto> ps')\<rparr>)))"

text \<open>The notifications of one token that pass the gate.\<close>

fun gate_run :: "progress_state \<Rightarrow> (instant \<times> rat) list \<Rightarrow> (instant \<times> rat) list" where
  "gate_run st [] = []"
| "gate_run st ((now, p) # rest) =
     (case progress_gate st now p of
        (ok, st') \<Rightarrow> (if ok then (now, p) # gate_run st' rest else gate_run st' rest))"

lemma gate_run_increasing:
  "sorted_wrt (\<lambda>a b. snd a < snd b) (gate_run st es) \<and>
   (ps_has st \<longrightarrow> list_all (\<lambda>e. ps_last st < snd e) (gate_run st es))"
proof (induction es arbitrary: st)
  case (Cons e es)
  obtain now p where e: "e = (now, p)" by force
  obtain ok st' where g: "progress_gate st now p = (ok, st')" by force
  have "if ok then ps_has st' \<and> ps_last st' = p \<and> (ps_has st \<longrightarrow> ps_last st < p)
        else ps_has st' = ps_has st \<and> ps_last st' = ps_last st"
    using g by (auto simp: progress_gate_def Let_def split: if_splits option.splits)
  with Cons.IH [of st'] show ?case
    by (auto simp: e g list_all_iff split: if_splits)
qed simp

text \<open>How many notifications a token may still send in an interval of one second that begins at \<open>a\<close>.\<close>

definition gate_budget :: "instant \<Rightarrow> progress_state \<Rightarrow> nat" where
  "gate_budget a st =
     (case ps_window st of
        None \<Rightarrow> 10
      | Some w \<Rightarrow> (10 - ps_count st) + (if a \<le> w then 0 else 10))"

lemma gate_run_budget:
  "list_all (\<lambda>e. a \<le> fst e \<and> fst e < a + second) es \<Longrightarrow> length (gate_run st es) \<le> gate_budget a st"
proof (induction es arbitrary: st)
  case (Cons e es)
  obtain now p where e: "e = (now, p)" by force
  obtain ok st' where g: "progress_gate st now p = (ok, st')" by force
  have now: "a \<le> now" "now < a + second" using Cons.prems e by simp_all
  have "(if ok then Suc (gate_budget a st') else gate_budget a st') \<le> gate_budget a st"
    using g now
    by (auto simp: progress_gate_def gate_budget_def max_progress_per_second_def Let_def
        split: if_splits option.splits)
  with Cons.IH [of st'] Cons.prems show ?case by (auto simp: e g)
qed simp

text \<open>Progress is monotone and bounded: of any attempts for a token, the notifications that pass
  the gate have strictly increasing progress; a token sends at most 10 of them within its first second
  and at most 20 within any second, and none once its call has ended.\<close>

lemma progress_monotone_bounded:
  assumes "list_all (\<lambda>e. a \<le> fst e \<and> fst e < a + second) es"
  shows "sorted_wrt (\<lambda>x y. snd x < snd y) (gate_run st es) \<and>
    length (gate_run st es) \<le> 20 \<and> length (gate_run fresh_progress es) \<le> 10 \<and>
    \<not> fst (allow_progress show_v token now p (release_progress_token show_v token i))"
proof -
  have "gate_budget a st \<le> 20" by (auto simp: gate_budget_def split: option.split)
  moreover have "gate_budget a fresh_progress = 10" by (simp add: gate_budget_def fresh_progress_def)
  ultimately show ?thesis
    using gate_run_budget [OF assms, of st] gate_run_budget [OF assms, of fresh_progress]
      gate_run_increasing [of st es]
    by (auto simp: allow_progress_def release_progress_token_def)
qed

text \<open>A burst of 20 notifications around a window boundary.\<close>

definition boundary_burst :: "(instant \<times> rat) list" where
  "boundary_burst = (0, 0) # map (\<lambda>k. (second - 1, of_nat k)) [1..<10] @ map (\<lambda>k. (second, of_nat k)) [10..<20]"

lemma progress_monotone_bounded_witness:
  "length (gate_run (snd (progress_gate fresh_progress 0 0)) (tl boundary_burst)) = 19 \<and>
   length (gate_run (snd (progress_gate fresh_progress 0 0)) (tl boundary_burst)) \<le> 20"
proof -
  have "length (gate_run (snd (progress_gate fresh_progress 0 0)) (tl boundary_burst)) = 19"
    by code_simp
  moreover have "list_all (\<lambda>e. second - 1 \<le> fst e \<and> fst e < second - 1 + second) (tl boundary_burst)"
    by code_simp
  ultimately show ?thesis
    using progress_monotone_bounded [of "second - 1" "tl boundary_burst"] by blast
qed

section \<open>Cancellation\<close>

text \<open>What a cancellation message does: \<open>notifications/cancelled\<close> crashes exactly when its
  \<open>requestId\<close> is an array or an object; otherwise it cancels the one call registered under the key of
  that id, if there is one, and no other: the call gets the explicit cause unless it already had a
  cause, and a string id and the number with the same digits are the same key.\<close>

lemma cancellation_exact:
  "(handle_cancelled show_g (JObj m) st = None \<longleftrightarrow>
      (\<exists>v. map_of m ''requestId'' = Some v \<and> \<not> hashable v)) \<and>
   (case handle_cancelled show_g (JObj [(''requestId'', JStr s)]) st of
      None \<Rightarrow> False
    | Some st' \<Rightarrow>
        if_causes st' c =
          (if if_calls st (JStr s) = Some c \<and> if_causes st c = None then Some ExplicitCancellation
           else if_causes st c) \<and>
        if_calls st' = (if_calls st)(JStr s := None)) \<and>
   handle_cancelled show_g (JObj [(''requestId'', JNum s)]) st =
     handle_cancelled show_g (JObj [(''requestId'', JStr s)]) st"
proof -
  have h: "hashable (rpc_id_key show_g v) = hashable v" for v by (cases v) (simp_all add: rpc_id_key_def)
  have n: "cancel_inflight show_g v st = None \<longleftrightarrow> \<not> hashable v" for v
    by (cases v) (auto simp: cancel_inflight_def h Let_def split: option.split)
  have "handle_cancelled show_g (JObj m) st = None \<longleftrightarrow> (\<exists>v. map_of m ''requestId'' = Some v \<and> \<not> hashable v)"
  proof (cases "map_of m ''requestId''")
    case (Some v)
    then show ?thesis by (cases v) (simp_all add: handle_cancelled_def n)
  qed (simp add: handle_cancelled_def)
  then show ?thesis
    by (auto simp: handle_cancelled_def cancel_inflight_def rpc_id_key_def cancel_ctx_def fun_upd_idem Let_def
        split: option.split)
qed

section \<open>The life of a call\<close>

text \<open>\<open>handle\<close> for \<open>tools/call\<close> before and after \<open>callTool\<close>: \<open>Inl\<close> the refusal of the progress
  token. The id has been validated, so the table operations do not panic.\<close>

definition begin_call ::
  "(rat \<Rightarrow> string) \<Rightarrow> (json \<Rightarrow> string) \<Rightarrow> json \<Rightarrow> json option \<Rightarrow> nat \<Rightarrow> inflight \<Rightarrow> (string, inflight) result option" where
  "begin_call show_g show_v ident token c st =
     (case (case token of
              None \<Rightarrow> Inr st
            | Some t \<Rightarrow> (case validate_progress_token t of
                           Some e \<Rightarrow> Inl e
                         | None \<Rightarrow> register_progress_token show_v t st)) of
        Inl e \<Rightarrow> Some (Inl e)
      | Inr st1 \<Rightarrow> map_option Inr (register_inflight show_g ident c st1))"

definition end_call ::
  "(rat \<Rightarrow> string) \<Rightarrow> (json \<Rightarrow> string) \<Rightarrow> json \<Rightarrow> json option \<Rightarrow> nat \<Rightarrow> inflight \<Rightarrow> inflight option" where
  "end_call show_g show_v ident token c st =
     (case unregister_inflight show_g ident (cancel_ctx c CallFinished st) of
        None \<Rightarrow> None
      | Some st1 \<Rightarrow> Some (case token of None \<Rightarrow> st1 | Some t \<Rightarrow> release_progress_token show_v t st1))"

record running_call =
  rc_id :: json
  rc_token :: "json option"
  rc_ctx :: nat

datatype call_event =
    BeginCall json "json option" nat
  | EndCall running_call
  | CancelMessage json
  | ResetSession

text \<open>A step of the session's calls; \<open>None\<close> is a panic. The ids of begun calls are strings or numbers.\<close>

fun call_step ::
  "(rat \<Rightarrow> string) \<Rightarrow> (json \<Rightarrow> string) \<Rightarrow> inflight \<times> running_call list \<Rightarrow> call_event \<Rightarrow>
   (inflight \<times> running_call list) option" where
  "call_step show_g show_v (st, rs) (BeginCall ident token c) =
     (case begin_call show_g show_v ident token c st of
        None \<Rightarrow> None
      | Some (Inl e) \<Rightarrow> Some (st, rs)
      | Some (Inr st') \<Rightarrow> Some (st', \<lparr>rc_id = ident, rc_token = token, rc_ctx = c\<rparr> # rs))"
| "call_step show_g show_v (st, rs) (EndCall r) =
     (if r \<in> set rs
      then map_option (\<lambda>st'. (st', remove1 r rs)) (end_call show_g show_v (rc_id r) (rc_token r) (rc_ctx r) st)
      else Some (st, rs))"
| "call_step show_g show_v (st, rs) (CancelMessage raw) =
     map_option (\<lambda>st'. (st', rs)) (handle_cancelled show_g raw st)"
| "call_step show_g show_v (st, rs) ResetSession = Some (snd (cancel_all_inflight st), rs)"

fun call_run ::
  "(rat \<Rightarrow> string) \<Rightarrow> (json \<Rightarrow> string) \<Rightarrow> inflight \<times> running_call list \<Rightarrow> call_event list \<Rightarrow>
   (inflight \<times> running_call list) option" where
  "call_run show_g show_v s [] = Some s"
| "call_run show_g show_v s (e # es) =
     (case call_step show_g show_v s e of None \<Rightarrow> None | Some s' \<Rightarrow> call_run show_g show_v s' es)"

definition token_keys :: "(json \<Rightarrow> string) \<Rightarrow> running_call list \<Rightarrow> string list" where
  "token_keys show_v rs = map (progress_token_key show_v) (List.map_filter rc_token rs)"

definition calls_ok :: "(rat \<Rightarrow> string) \<Rightarrow> (json \<Rightarrow> string) \<Rightarrow> inflight \<times> running_call list \<Rightarrow> bool" where
  "calls_ok show_g show_v s \<longleftrightarrow>
     distinct (token_keys show_v (snd s)) \<and> dom (if_tokens (fst s)) = set (token_keys show_v (snd s)) \<and>
     (\<forall>k c. if_calls (fst s) k = Some c \<longrightarrow>
        (\<exists>r \<in> set (snd s). rc_ctx r = c \<and> rpc_id_key show_g (rc_id r) = k \<and> rc_id r \<noteq> JNull))"

lemma token_keys_simps [simp]:
  "token_keys show_v [] = []"
  "token_keys show_v (r # rs) =
     (case rc_token r of None \<Rightarrow> token_keys show_v rs | Some t \<Rightarrow> progress_token_key show_v t # token_keys show_v rs)"
  by (simp_all add: token_keys_def List.map_filter_simps split: option.split)

lemma token_keys_remove_None: "rc_token r = None \<Longrightarrow> token_keys show_v (remove1 r rs) = token_keys show_v rs"
  by (induction rs) (auto split: option.splits)

lemma token_keys_remove:
  "rc_token r = Some t \<Longrightarrow> r \<in> set rs \<Longrightarrow> distinct (token_keys show_v rs) \<Longrightarrow>
     token_keys show_v (remove1 r rs) = remove1 (progress_token_key show_v t) (token_keys show_v rs)"
proof (induction rs)
  case (Cons x rs)
  show ?case
  proof (cases "x = r")
    case False
    then have "r \<in> set rs" using Cons.prems(2) by simp
    then have "progress_token_key show_v t \<in> set (token_keys show_v rs)"
      using Cons.prems(1) by (induction rs) (auto split: option.splits)
    with Cons False show ?thesis by (auto split: option.splits)
  qed (use Cons in simp)
qed simp

lemma calls_ok_begin:
  assumes "calls_ok show_g show_v (st, rs)" and "begin_call show_g show_v ident token c st = Some (Inr st')"
  shows "calls_ok show_g show_v (st', \<lparr>rc_id = ident, rc_token = token, rc_ctx = c\<rparr> # rs)"
proof -
  from assms(2) obtain st1 where
    reg: "register_inflight show_g ident c st1 = Some st'"
    and st1: "if_calls st1 = if_calls st"
      "case token of None \<Rightarrow> if_tokens st1 = if_tokens st
       | Some t \<Rightarrow> if_tokens st (progress_token_key show_v t) = None \<and>
           if_tokens st1 = (if_tokens st)(progress_token_key show_v t \<mapsto> fresh_progress)"
    by (auto simp: begin_call_def register_progress_token_def Let_def split: option.splits if_splits sum.splits)
  have toks: "if_tokens st' = if_tokens st1"
    and calls: "if_calls st' = (if ident = JNull then if_calls st
        else (if_calls st)(rpc_id_key show_g ident \<mapsto> c))"
    using reg st1(1) by (auto simp: register_inflight_def split: if_splits)
  have d: "dom (if_tokens st) = set (token_keys show_v rs)" "distinct (token_keys show_v rs)"
    using assms(1) by (auto simp: calls_ok_def)
  have "distinct (token_keys show_v (\<lparr>rc_id = ident, rc_token = token, rc_ctx = c\<rparr> # rs)) \<and>
      dom (if_tokens st') = set (token_keys show_v (\<lparr>rc_id = ident, rc_token = token, rc_ctx = c\<rparr> # rs))"
    using st1(2) d toks by (auto split: option.splits)
  then show ?thesis
    using assms(1) calls by (auto simp: calls_ok_def split: if_splits)
qed

lemma calls_ok_end:
  assumes "calls_ok show_g show_v (st, rs)" and "r \<in> set rs"
    and "end_call show_g show_v (rc_id r) (rc_token r) (rc_ctx r) st = Some st'"
  shows "calls_ok show_g show_v (st', remove1 r rs)"
proof -
  have calls: "if_calls st' = (if rc_id r = JNull then if_calls st
      else (if_calls st)(rpc_id_key show_g (rc_id r) := None))"
    and toks: "if_tokens st' = (case rc_token r of None \<Rightarrow> if_tokens st
      | Some t \<Rightarrow> (if_tokens st)(progress_token_key show_v t := None))"
    using assms(3)
    by (auto simp: end_call_def unregister_inflight_def cancel_ctx_def release_progress_token_def
        split: if_splits option.splits)
  have d: "dom (if_tokens st) = set (token_keys show_v rs)" "distinct (token_keys show_v rs)"
    using assms(1) by (auto simp: calls_ok_def)
  have t: "distinct (token_keys show_v (remove1 r rs)) \<and> dom (if_tokens st') = set (token_keys show_v (remove1 r rs))"
  proof (cases "rc_token r")
    case None
    with d toks show ?thesis by (simp add: token_keys_remove_None)
  next
    case (Some t)
    with d toks show ?thesis by (simp add: token_keys_remove [OF Some assms(2)])
  qed
  have "\<exists>r' \<in> set (remove1 r rs). rc_ctx r' = c \<and> rpc_id_key show_g (rc_id r') = k \<and> rc_id r' \<noteq> JNull"
    if "if_calls st' k = Some c" for k c
  proof -
    from that calls have k: "if_calls st k = Some c" "rc_id r \<noteq> JNull \<Longrightarrow> k \<noteq> rpc_id_key show_g (rc_id r)"
      by (auto split: if_splits)
    with assms(1) obtain r' where r': "r' \<in> set rs" "rc_ctx r' = c" "rpc_id_key show_g (rc_id r') = k"
      "rc_id r' \<noteq> JNull" unfolding calls_ok_def fst_conv snd_conv by blast
    with k have "r' \<noteq> r" by auto
    with r' show ?thesis by (auto simp: in_set_remove1)
  qed
  with t show ?thesis by (simp add: calls_ok_def)
qed

lemma calls_ok_fewer:
  "calls_ok show_g show_v (st, rs) \<Longrightarrow> if_tokens st' = if_tokens st \<Longrightarrow> if_calls st' \<subseteq>\<^sub>m if_calls st \<Longrightarrow>
     calls_ok show_g show_v (st', rs)"
  unfolding calls_ok_def by (auto simp: map_le_def dom_def)

lemma calls_ok_step:
  assumes "calls_ok show_g show_v s" and "call_step show_g show_v s e = Some s'"
  shows "calls_ok show_g show_v s'"
proof -
  obtain st rs where s: "s = (st, rs)" by force
  show ?thesis
  proof (cases e)
    case (BeginCall ident token c)
    with assms s show ?thesis
      by (auto split: option.splits sum.splits intro: calls_ok_begin)
  next
    case (EndCall r)
    with assms s show ?thesis by (auto split: if_splits intro: calls_ok_end)
  next
    case (CancelMessage raw)
    with assms s obtain st' where "s' = (st', rs)" "handle_cancelled show_g raw st = Some st'" by auto
    moreover from this(2) have "if_tokens st' = if_tokens st \<and> if_calls st' \<subseteq>\<^sub>m if_calls st"
      by (auto simp: handle_cancelled_def cancel_inflight_def cancel_ctx_def Let_def map_le_def
          split: json.splits option.splits if_splits)
    ultimately show ?thesis using assms(1) s calls_ok_fewer by blast
  next
    case ResetSession
    with assms s show ?thesis
      by (auto simp: cancel_all_inflight_def intro!: calls_ok_fewer [of show_g show_v st rs])
  qed
qed

text \<open>C28 (calls leave nothing behind): over any sequence of begun and ended calls, cancellation messages
  and session resets, no progress token is ever active for two running calls, the active tokens are
  exactly those of the running calls, every cancellable entry belongs to a running call of that id, and
  once no call is running both tables are empty.\<close>

theorem calls_never_leak:
  assumes "call_run show_g show_v (no_inflight, []) es = Some (st, rs)"
  shows "distinct (token_keys show_v rs) \<and> dom (if_tokens st) = set (token_keys show_v rs) \<and>
    \<not> (\<exists>k c. if_calls st k = Some c \<and> \<not> (\<exists>r \<in> set rs. rc_ctx r = c \<and> rpc_id_key show_g (rc_id r) = k)) \<and>
    \<not> (rs = [] \<and> (if_tokens st \<noteq> Map.empty \<or> if_calls st \<noteq> Map.empty))"
proof -
  have "calls_ok show_g show_v s \<Longrightarrow> call_run show_g show_v s es = Some s' \<Longrightarrow> calls_ok show_g show_v s'" for s s'
    by (induction es arbitrary: s) (auto split: option.splits intro: calls_ok_step)
  from this [OF _ assms] have ok: "calls_ok show_g show_v (st, rs)"
    by (simp add: calls_ok_def no_inflight_def)
  then have "rs = [] \<Longrightarrow> if_tokens st = Map.empty \<and> if_calls st = Map.empty"
    by (auto simp: calls_ok_def)
  with ok show ?thesis unfolding calls_ok_def fst_conv snd_conv by blast
qed

definition demo_call :: running_call where
  "demo_call = \<lparr>rc_id = JNum ''7'', rc_token = Some (JStr ''t1''), rc_ctx = 0\<rparr>"

lemma calls_never_leak_witness:
  "\<exists>st. call_run (\<lambda>_. []) (\<lambda>_. []) (no_inflight, [])
     [BeginCall (JNum ''7'') (Some (JStr ''t1'')) 0, CancelMessage (JObj [(''requestId'', JNum ''7'')]),
      EndCall demo_call] = Some (st, []) \<and>
     if_tokens st = Map.empty \<and> if_calls st = Map.empty \<and> if_causes st 0 = Some ExplicitCancellation"
proof -
  have t: "trim_space ''t1'' = ''t1''" by code_simp
  have "\<exists>st. call_run (\<lambda>_. []) (\<lambda>_. []) (no_inflight, [])
     [BeginCall (JNum ''7'') (Some (JStr ''t1'')) 0, CancelMessage (JObj [(''requestId'', JNum ''7'')]),
      EndCall demo_call] = Some (st, []) \<and> if_causes st 0 = Some ExplicitCancellation"
    by (simp add: begin_call_def validate_progress_token_def t register_progress_token_def no_inflight_def
        register_inflight_def rpc_id_key_def handle_cancelled_def cancel_inflight_def cancel_ctx_def Let_def
        demo_call_def end_call_def unregister_inflight_def release_progress_token_def)
  then obtain st where st: "call_run (\<lambda>_. []) (\<lambda>_. []) (no_inflight, [])
     [BeginCall (JNum ''7'') (Some (JStr ''t1'')) 0, CancelMessage (JObj [(''requestId'', JNum ''7'')]),
      EndCall demo_call] = Some (st, [])" "if_causes st 0 = Some ExplicitCancellation" by blast
  from calls_never_leak [OF st(1)] st show ?thesis by blast
qed

end
