(* ===== verification/ResponseGuard.thy ===== *)
theory ResponseGuard
  imports Json
begin

text \<open>
  \<open>internal/mcp/response_size_guard.go\<close> and the result envelopes of \<open>server.go\<close>: a successful tool
  result is marshalled once; over the byte budget its list is cut to the longest prefix that a
  bisection finds to fit. \<open>enc\<close> is \<open>json.Marshal\<close> (\<open>None\<close>: an error) and \<open>dec\<close> is
  \<open>json.Unmarshal\<close> into a \<open>map[string]any\<close>; \<open>err_text\<close> is the quoted text of the marshalling error.
\<close>

section \<open>Envelopes\<close>

text \<open>The content envelope: its text and the bytes reused as \<open>structuredContent\<close>.\<close>

record tool_envelope =
  te_text :: string
  te_structured :: "string option"

fun json_object_raw :: "string \<Rightarrow> bool" where
  "json_object_raw [] = False"
| "json_object_raw (b # bs) =
     (if b = CHR '' '' \<or> b = CHR 0x0A \<or> b = CHR 0x0D \<or> b = CHR 0x09 then json_object_raw bs
      else b = CHR 0x7B)"

definition envelope_of_raw :: "string \<Rightarrow> tool_envelope" where
  "envelope_of_raw raw =
     \<lparr>te_text = raw, te_structured = (if json_object_raw raw then Some raw else None)\<rparr>"

definition marshal_error_envelope :: "string \<Rightarrow> tool_envelope" where
  "marshal_error_envelope err_text =
     \<lparr>te_text = ''{\"error\":'' @ err_text @ ''}'', te_structured = None\<rparr>"

definition tool_result_envelope :: "(json \<Rightarrow> string option) \<Rightarrow> string \<Rightarrow> json \<Rightarrow> tool_envelope" where
  "tool_result_envelope enc err_text v =
     (case enc v of None \<Rightarrow> marshal_error_envelope err_text | Some raw \<Rightarrow> envelope_of_raw raw)"

section \<open>Truncation\<close>

definition next_hint :: string where
  "next_hint = ''Response was size-capped by CLOCKIFY_MAX_TOOL_RESULT_BYTES; narrow filters, lower page_size or max_rows, or page through results to continue.''"

definition put_all :: "members \<Rightarrow> members \<Rightarrow> members" where
  "put_all kvs m = foldl (\<lambda>m (k, v). AList.update k v m) m kvs"

definition add_size_cap_meta :: "members \<Rightarrow> nat \<Rightarrow> nat \<Rightarrow> members" where
  "add_size_cap_meta env returned dropped =
     (let meta = (case map_of env ''meta'' of Some (JObj m) \<Rightarrow> m | _ \<Rightarrow> [])
      in AList.update ''meta'' (JObj (put_all
           [(''truncated'', JBool True), (''size_capped'', JBool True), (''returned'', JInt (int returned)),
            (''dropped'', JInt (int dropped)), (''next_hint'', JStr next_hint)] meta)) env)"

text \<open>The largest non-empty array of an object; of equally long ones the first that is visited.\<close>

definition largest_array_field :: "members \<Rightarrow> string \<times> json list" where
  "largest_array_field m =
     foldl (\<lambda>(key, items) (k, raw).
       case raw of
         JArr xs \<Rightarrow> (if xs \<noteq> [] \<and> length items < length xs then (k, xs) else (key, items))
       | _ \<Rightarrow> (key, items)) ([], []) m"

text \<open>\<open>set(items[:kept])\<close> followed by \<open>addSizeCapMeta\<close>; \<open>place\<close> is the \<open>set\<close> closure.\<close>

definition cut_to :: "(json list \<Rightarrow> members \<Rightarrow> members) \<Rightarrow> json list \<Rightarrow> nat \<Rightarrow> members \<Rightarrow> members" where
  "cut_to place items kept env =
     add_size_cap_meta (place (take kept items) env) kept (length items - kept)"

function shrink_loop ::
  "(json \<Rightarrow> string option) \<Rightarrow> (json list \<Rightarrow> members \<Rightarrow> members) \<Rightarrow> json list \<Rightarrow> nat \<Rightarrow>
   int \<Rightarrow> int \<Rightarrow> int \<Rightarrow> members \<Rightarrow> int \<times> members" where
  "shrink_loop enc place items budget low high best env =
     (if low \<le> high
      then (let kept = low + (high - low) div 2; env1 = cut_to place items (nat kept) env in
            if (case enc (JObj env1) of None \<Rightarrow> False | Some raw \<Rightarrow> length raw \<le> budget)
            then shrink_loop enc place items budget (kept + 1) high kept env1
            else shrink_loop enc place items budget low (kept - 1) best env1)
      else (best, env))"
  by pat_completeness auto
termination
  by (relation "measure (\<lambda>(_, _, _, _, low, high, _, _). nat (high + 1 - low))") auto

declare shrink_loop.simps [simp del]

definition shrink_list_to_budget ::
  "(json \<Rightarrow> string option) \<Rightarrow> (json list \<Rightarrow> members \<Rightarrow> members) \<Rightarrow> json list \<Rightarrow> nat \<Rightarrow> members \<Rightarrow> bool \<times> members" where
  "shrink_list_to_budget enc place items budget env =
     (if length items = 0 \<or> length items = 1 then (False, env)
      else (case shrink_loop enc place items budget 1 (int (length items) - 1) 0 env of
              (best, env1) \<Rightarrow>
                if 0 < best then (True, cut_to place items (nat best) env1)
                else (False, cut_to place items 1 env1)))"

definition place_data :: "json list \<Rightarrow> members \<Rightarrow> members" where
  "place_data items env = AList.update ''data'' (JArr items) env"

text \<open>The closure for an object under \<open>data\<close>: it replaces the array in place and keeps a \<open>count\<close>
  member in step.\<close>

definition place_field :: "string \<Rightarrow> json list \<Rightarrow> members \<Rightarrow> members" where
  "place_field key items env =
     (case map_of env ''data'' of
        Some (JObj v) \<Rightarrow>
          (let v1 = AList.update key (JArr items) v;
               v2 = (if map_of v1 ''count'' = None then v1
                     else AList.update ''count'' (JInt (int (length items))) v1)
           in AList.update ''data'' (JObj v2) env)
      | _ \<Rightarrow> env)"

definition truncate_envelope :: "(json \<Rightarrow> string option) \<Rightarrow> nat \<Rightarrow> members \<Rightarrow> bool \<times> members" where
  "truncate_envelope enc budget env =
     (case map_of env ''data'' of
        Some (JArr items) \<Rightarrow> shrink_list_to_budget enc place_data items budget env
      | Some (JObj v) \<Rightarrow>
          (case largest_array_field v of
             (key, items) \<Rightarrow>
               if key = [] then (False, env)
               else shrink_list_to_budget enc (place_field key) items budget env)
      | _ \<Rightarrow> (False, env))"

definition result_too_large :: "string \<Rightarrow> nat \<Rightarrow> int \<Rightarrow> json" where
  "result_too_large tool actual budget =
     JObj [(''ok'', JBool False), (''action'', JStr tool),
       (''error'', JObj
          [(''code'', JStr ''result_too_large''),
           (''message'', JStr (tool @ '' produced a '' @ itoa (int actual) @
              ''-byte result, exceeding CLOCKIFY_MAX_TOOL_RESULT_BYTES='' @ itoa budget @
              '', and the payload could not be safely truncated.''))]),
       (''recovery'', JObj
          [(''hint'', JStr ''Retry with narrower filters, a lower page_size or max_rows value, or a more specific get/list tool.''),
           (''retryable'', JBool True)]),
       (''meta'', JObj
          [(''resultBytes'', JInt (int actual)), (''maxToolResultBytes'', JInt budget),
           (''size_capped'', JBool True), (''truncationAttempted'', JBool True),
           (''truncationSuccessful'', JBool False)])]"

definition result_envelope_guarded ::
  "(json \<Rightarrow> string option) \<Rightarrow> (string \<Rightarrow> members option) \<Rightarrow> string \<Rightarrow> string \<Rightarrow> json \<Rightarrow> int \<Rightarrow> tool_envelope" where
  "result_envelope_guarded enc dec err_text tool result budget =
     (case enc result of
        None \<Rightarrow> marshal_error_envelope err_text
      | Some raw \<Rightarrow>
          if budget \<le> 0 \<or> int (length raw) \<le> budget then envelope_of_raw raw
          else (case dec raw of
                  None \<Rightarrow> tool_result_envelope enc err_text (result_too_large tool (length raw) budget)
                | Some env \<Rightarrow>
                    (case truncate_envelope enc (nat budget) env of
                       (True, env') \<Rightarrow> tool_result_envelope enc err_text (JObj env')
                     | (False, _) \<Rightarrow>
                         tool_result_envelope enc err_text (result_too_large tool (length raw) budget))))"

section \<open>What the bisection finds\<close>

definition fits :: "(json \<Rightarrow> string option) \<Rightarrow> nat \<Rightarrow> members \<Rightarrow> bool" where
  "fits enc budget env \<longleftrightarrow> (case enc (JObj env) of None \<Rightarrow> False | Some raw \<Rightarrow> length raw \<le> budget)"

text \<open>The loop keeps \<open>best = low - 1\<close>; it ends on a prefix that fits, and on the longest one when a
  shorter prefix never encodes longer.\<close>

lemma shrink_loop_result:
  assumes "\<And>b. cut_to place items b env0 = cut_to place items b env"
    and "\<And>a b. cut_to place items b (cut_to place items a env0) = cut_to place items b env0"
    and "1 \<le> low" and "best = 0 \<or> fits enc budget (cut_to place items (nat best) env0)"
    and "best = low - 1" and "low \<le> high + 1"
    and "shrink_loop enc place items budget low high best env = (best', env')"
  shows "0 \<le> best' \<and> best' \<le> high \<and> (best' = 0 \<or> fits enc budget (cut_to place items (nat best') env0)) \<and>
    (\<forall>b. cut_to place items b env' = cut_to place items b env0) \<and>
    ((\<forall>a b. 1 \<le> a \<longrightarrow> a \<le> b \<longrightarrow> fits enc budget (cut_to place items b env0) \<longrightarrow>
        fits enc budget (cut_to place items a env0)) \<longrightarrow>
     (\<forall>k. high < k \<longrightarrow> k \<le> n \<longrightarrow> \<not> fits enc budget (cut_to place items (nat k) env0)) \<longrightarrow>
     (\<forall>k. best' < k \<longrightarrow> k \<le> n \<longrightarrow> \<not> fits enc budget (cut_to place items (nat k) env0)))"
  using assms
proof (induction enc place items budget low high best env rule: shrink_loop.induct)
  case (1 enc place items budget low high best env)
  show ?case
  proof (cases "low \<le> high")
    case False
    with "1.prems"(7) have "best' = best" "env' = env"
      by (simp_all add: shrink_loop.simps [of enc place items budget low high best env])
    with "1.prems" False show ?thesis by auto
  next
    case True
    define kept where "kept = low + (high - low) div 2"
    define env1 where "env1 = cut_to place items (nat kept) env"
    have k: "low \<le> kept" "kept \<le> high" using True by (auto simp: kept_def)
    have e1: "env1 = cut_to place items (nat kept) env0" using "1.prems"(1) by (simp add: env1_def)
    have same: "cut_to place items b env0 = cut_to place items b env1" for b
      using "1.prems"(2) by (simp add: e1)
    show ?thesis
    proof (cases "fits enc budget env1")
      case fit: True
      have "shrink_loop enc place items budget (kept + 1) high kept env1 = (best', env')"
        using "1.prems"(7) True fit
        by (simp add: shrink_loop.simps [of enc place items budget low high best env] Let_def kept_def
            env1_def fits_def)
      from "1.IH"(1) [OF True kept_def env1_def _ same "1.prems"(2) _ _ _ _ this] fit e1 k "1.prems"(3)
      show ?thesis by (auto simp: fits_def env1_def)
    next
      case nofit: False
      have "shrink_loop enc place items budget low (kept - 1) best env1 = (best', env')"
        using "1.prems"(7) True nofit k
        by (simp add: shrink_loop.simps [of enc place items budget low high best env] Let_def kept_def
            env1_def fits_def)
      from "1.IH"(2) [OF True kept_def env1_def _ same "1.prems"(2,3,4,5) _ this] nofit k
      have r: "0 \<le> best' \<and> best' \<le> kept - 1 \<and>
          (best' = 0 \<or> fits enc budget (cut_to place items (nat best') env0)) \<and>
          (\<forall>b. cut_to place items b env' = cut_to place items b env0) \<and>
          ((\<forall>a b. 1 \<le> a \<longrightarrow> a \<le> b \<longrightarrow> fits enc budget (cut_to place items b env0) \<longrightarrow>
              fits enc budget (cut_to place items a env0)) \<longrightarrow>
           (\<forall>k. kept - 1 < k \<longrightarrow> k \<le> n \<longrightarrow> \<not> fits enc budget (cut_to place items (nat k) env0)) \<longrightarrow>
           (\<forall>k. best' < k \<longrightarrow> k \<le> n \<longrightarrow> \<not> fits enc budget (cut_to place items (nat k) env0)))"
        by (simp add: fits_def env1_def)
      have up: "\<not> fits enc budget (cut_to place items (nat j) env0)"
        if "\<forall>a b. 1 \<le> a \<longrightarrow> a \<le> b \<longrightarrow> fits enc budget (cut_to place items b env0) \<longrightarrow>
            fits enc budget (cut_to place items a env0)" "kept - 1 < j" for j
      proof
        assume "fits enc budget (cut_to place items (nat j) env0)"
        then have "fits enc budget (cut_to place items (nat kept) env0)"
          using that(2) k "1.prems"(3) by (intro that(1) [rule_format, of "nat kept" "nat j"]) auto
        with nofit e1 show False by simp
      qed
      from r up k show ?thesis by fastforce
    qed
  qed
qed

section \<open>Cutting twice is cutting once\<close>

lemma update_twice: "AList.update k v (AList.update k w m) = AList.update k v m"
  by (induction m) auto

lemma update_past: "k \<noteq> l \<Longrightarrow> map_of m k \<noteq> None \<Longrightarrow>
     AList.update k v (AList.update l w m) = AList.update l w (AList.update k v m)"
  by (induction m) auto

lemma map_of_put_all: "map_of m k \<noteq> None \<Longrightarrow> map_of (put_all kvs m) k \<noteq> None"
  by (induction kvs arbitrary: m) (auto simp: put_all_def update_conv')

lemma put_all_Cons: "put_all ((k, v) # kvs) m = put_all kvs (AList.update k v m)"
  by (simp add: put_all_def)

lemma update_past_all:
  "k \<notin> fst ` set kvs \<Longrightarrow> map_of m k \<noteq> None \<Longrightarrow>
     AList.update k v (put_all kvs m) = put_all kvs (AList.update k v m)"
proof (induction kvs arbitrary: m)
  case (Cons e kvs)
  obtain l w where e: "e = (l, w)" by force
  from Cons.prems have k: "k \<noteq> l" "k \<notin> fst ` set kvs" by (auto simp: e)
  have "map_of (AList.update l w m) k \<noteq> None" using Cons.prems(2) by (auto simp: update_conv')
  from Cons.IH [OF k(2) this] show ?case
    using update_past [OF k(1) Cons.prems(2)] by (simp add: e put_all_Cons)
qed (simp add: put_all_def)

lemma put_all_twice:
  "map fst kvs = map fst kvs' \<Longrightarrow> distinct (map fst kvs') \<Longrightarrow> put_all kvs' (put_all kvs m) = put_all kvs' m"
proof (induction kvs arbitrary: kvs' m)
  case (Cons e kvs)
  obtain k v where e: "e = (k, v)" by force
  from Cons.prems(1) obtain v' rest where kvs': "kvs' = (k, v') # rest" "map fst kvs = map fst rest"
    by (cases kvs') (auto simp: e)
  have k: "k \<notin> fst ` set kvs" "distinct (map fst rest)"
  proof -
    have "k \<notin> set (map fst rest)" "distinct (map fst rest)" using Cons.prems(2) unfolding kvs'(1) by auto
    then show "k \<notin> fst ` set kvs" "distinct (map fst rest)" unfolding kvs'(2) [symmetric] by auto
  qed
  have "AList.update k v' (put_all kvs (AList.update k v m)) = put_all kvs (AList.update k v' m)"
    using update_past_all [OF k(1), of "AList.update k v m" v'] by (simp add: update_conv' update_twice)
  then show ?case using Cons.IH [OF kvs'(2) k(2)] by (simp add: e kvs'(1) put_all_Cons)
qed (simp add: put_all_def)

definition overwrites :: "(json list \<Rightarrow> members \<Rightarrow> members) \<Rightarrow> members \<Rightarrow> bool" where
  "overwrites place env \<longleftrightarrow>
     (\<exists>h. (\<forall>xs m. map_of m ''data'' = map_of env ''data'' \<longrightarrow>
              place xs m = AList.update ''data'' (h xs) m) \<and>
          (\<forall>xs ys m. map_of m ''data'' = Some (h ys) \<longrightarrow> place xs m = AList.update ''data'' (h xs) m))"

lemma cut_to_twice:
  assumes "overwrites place env"
  shows "cut_to place items b (cut_to place items a env) = cut_to place items b env"
proof -
  from assms obtain h where h0: "\<And>xs m. map_of m ''data'' = map_of env ''data'' \<Longrightarrow> place xs m = AList.update ''data'' (h xs) m"
    and h1: "\<And>xs ys m. map_of m ''data'' = Some (h ys) \<Longrightarrow> place xs m = AList.update ''data'' (h xs) m"
    unfolding overwrites_def by blast
  define meta0 where "meta0 = (case map_of env ''meta'' of Some (JObj m) \<Rightarrow> m | _ \<Rightarrow> [])"
  define kv where "kv = (\<lambda>k. [(''truncated'', JBool True), (''size_capped'', JBool True),
    (''returned'', JInt (int k)), (''dropped'', JInt (int (length items - k))), (''next_hint'', JStr next_hint)])"
  have cut: "cut_to place items k env =
      AList.update ''meta'' (JObj (put_all (kv k) meta0)) (AList.update ''data'' (h (take k items)) env)" for k
    by (simp add: cut_to_def add_size_cap_meta_def h0 Let_def update_conv' meta0_def kv_def)
  have kv: "put_all (kv b) (put_all (kv a) meta0) = put_all (kv b) meta0"
    by (rule put_all_twice) (simp_all add: kv_def)
  let ?c = "cut_to place items a env"
  have "map_of ?c ''data'' = Some (h (take a items))" by (simp add: cut update_conv')
  then have "place (take b items) ?c = AList.update ''data'' (h (take b items)) ?c" by (rule h1)
  also have "\<dots> = AList.update ''meta'' (JObj (put_all (kv a) meta0)) (AList.update ''data'' (h (take b items)) env)"
    unfolding cut by (subst update_past) (simp_all add: update_conv' update_twice)
  finally have "place (take b items) ?c =
      AList.update ''meta'' (JObj (put_all (kv a) meta0)) (AList.update ''data'' (h (take b items)) env)" .
  then have "cut_to place items b ?c =
      AList.update ''meta'' (JObj (put_all (kv b) (put_all (kv a) meta0)))
        (AList.update ''meta'' (JObj (put_all (kv a) meta0)) (AList.update ''data'' (h (take b items)) env))"
    by (simp add: cut_to_def [of place items b ?c] add_size_cap_meta_def Let_def update_conv' kv_def)
  then show ?thesis by (simp only: update_twice kv cut)
qed

lemma overwrites_data: "overwrites place_data env"
  unfolding overwrites_def by (rule exI [of _ JArr]) (simp add: place_data_def)

lemma overwrites_field:
  assumes "map_of env ''data'' = Some (JObj v)"
  shows "overwrites (place_field key) env"
proof -
  define g where "g = (\<lambda>xs v :: members.
    let v1 = AList.update key (JArr xs) v
    in if map_of v1 ''count'' = None then v1 else AList.update ''count'' (JInt (int (length xs))) v1)"
  have "g xs (g ys v) = g xs v" for xs ys
  proof (cases "key = ''count'' \<or> map_of v ''count'' = None")
    case True
    then show ?thesis by (auto simp: g_def Let_def update_conv' update_twice)
  next
    case False
    have "put_all [(key, JArr xs), (''count'', JInt (int (length xs)))]
        (put_all [(key, JArr ys), (''count'', JInt (int (length ys)))] v) =
      put_all [(key, JArr xs), (''count'', JInt (int (length xs)))] v"
      by (rule put_all_twice) (use False in simp_all)
    moreover from False obtain c where "key \<noteq> ''count''" "''count'' \<noteq> key" "map_of v ''count'' = Some c" by auto
    ultimately show ?thesis by (simp add: g_def Let_def update_conv' put_all_def)
  qed
  then show ?thesis
    unfolding overwrites_def using assms
    by (intro exI [of _ "\<lambda>xs. JObj (g xs v)"]) (auto simp: place_field_def g_def Let_def)
qed

section \<open>The budget is kept\<close>

lemma shrink_fits:
  assumes "overwrites place env" and "shrink_list_to_budget enc place items budget env = (True, env')"
  shows "\<exists>kept. 1 \<le> kept \<and> kept < length items \<and> env' = cut_to place items kept env \<and> fits enc budget env' \<and>
    ((\<forall>a b. 1 \<le> a \<longrightarrow> a \<le> b \<longrightarrow> fits enc budget (cut_to place items b env) \<longrightarrow>
        fits enc budget (cut_to place items a env)) \<longrightarrow>
     (\<forall>k. kept < k \<longrightarrow> k < length items \<longrightarrow> \<not> fits enc budget (cut_to place items k env)))"
proof -
  let ?n = "int (length items) - 1"
  have "length items \<noteq> 0" "length items \<noteq> 1" using assms(2) by (auto simp: shrink_list_to_budget_def)
  then have n: "2 \<le> length items" by linarith
  obtain best env1 where l: "shrink_loop enc place items budget 1 ?n 0 env = (best, env1)" by force
  have b: "0 < best" "env' = cut_to place items (nat best) env1"
    using assms(2) n l by (auto simp: shrink_list_to_budget_def split: if_splits)
  have "0 \<le> best \<and> best \<le> ?n \<and> (best = 0 \<or> fits enc budget (cut_to place items (nat best) env)) \<and>
    (\<forall>b. cut_to place items b env1 = cut_to place items b env) \<and>
    ((\<forall>a b. 1 \<le> a \<longrightarrow> a \<le> b \<longrightarrow> fits enc budget (cut_to place items b env) \<longrightarrow>
        fits enc budget (cut_to place items a env)) \<longrightarrow>
     (\<forall>k. ?n < k \<longrightarrow> k \<le> ?n \<longrightarrow> \<not> fits enc budget (cut_to place items (nat k) env)) \<longrightarrow>
     (\<forall>k. best < k \<longrightarrow> k \<le> ?n \<longrightarrow> \<not> fits enc budget (cut_to place items (nat k) env)))"
    by (rule shrink_loop_result [OF refl cut_to_twice [OF assms(1)] _ _ _ _ l]) (use n in auto)
  then have r: "best \<le> ?n" "best = 0 \<or> fits enc budget (cut_to place items (nat best) env)"
    "\<And>b. cut_to place items b env1 = cut_to place items b env"
    and r2: "(\<forall>a b. 1 \<le> a \<longrightarrow> a \<le> b \<longrightarrow> fits enc budget (cut_to place items b env) \<longrightarrow>
        fits enc budget (cut_to place items a env)) \<Longrightarrow>
      best < k \<Longrightarrow> k \<le> ?n \<Longrightarrow> \<not> fits enc budget (cut_to place items (nat k) env)" for k
    by (blast, blast, blast, auto)
  have e: "env' = cut_to place items (nat best) env" using b(2) r by simp
  have longest: "\<not> fits enc budget (cut_to place items k env)"
    if "\<forall>a b. 1 \<le> a \<longrightarrow> a \<le> b \<longrightarrow> fits enc budget (cut_to place items b env) \<longrightarrow>
        fits enc budget (cut_to place items a env)" "nat best < k" "k < length items" for k
    using r2 [OF that(1), of "int k"] that(2,3) b(1) by simp
  have "1 \<le> nat best" "nat best < length items" using r b(1) n by linarith+
  moreover have "fits enc budget env'" using r b(1) e by simp
  ultimately show ?thesis using e longest by blast
qed

text \<open>C31 (a truncated result is the longest prefix that fits): when a result whose \<open>data\<close> is a list is
  cut to the budget, the new \<open>data\<close> is a non-empty proper prefix of the old, the metadata counts what was
  kept and dropped, the marshalled envelope is within the budget, and when a shorter prefix never
  marshals longer no longer prefix would have fitted.\<close>

theorem truncation_longest_prefix:
  assumes "map_of env ''data'' = Some (JArr items)" and "truncate_envelope enc budget env = (True, env')"
  shows "\<exists>kept. 1 \<le> kept \<and> kept < length items \<and> map_of env' ''data'' = Some (JArr (take kept items)) \<and>
    env' = cut_to place_data items kept env \<and> fits enc budget env' \<and>
    ((\<forall>a b. 1 \<le> a \<longrightarrow> a \<le> b \<longrightarrow> fits enc budget (cut_to place_data items b env) \<longrightarrow>
        fits enc budget (cut_to place_data items a env)) \<longrightarrow>
     (\<forall>k. kept < k \<longrightarrow> k < length items \<longrightarrow> \<not> fits enc budget (cut_to place_data items k env)))"
proof -
  have "map_of (cut_to place_data items k env) ''data'' = Some (JArr (take k items))" for k
    by (simp add: cut_to_def add_size_cap_meta_def place_data_def Let_def update_conv')
  moreover have "shrink_list_to_budget enc place_data items budget env = (True, env')"
    using assms by (simp add: truncate_envelope_def)
  ultimately show ?thesis using shrink_fits [OF overwrites_data] by metis
qed

text \<open>A small encoder, one byte for each list element under \<open>data\<close>, to run the guard on.\<close>

definition unary_enc :: "json \<Rightarrow> string option" where
  "unary_enc v = (case v of
     JObj env \<Rightarrow> (case map_of env ''data'' of
        Some (JArr xs) \<Rightarrow> Some (replicate (length xs) CHR ''1'') | _ \<Rightarrow> Some ''0'')
   | _ \<Rightarrow> Some ''0'')"

lemma unary_truncates:
  "truncate_envelope unary_enc 2 [(''data'', JArr [JNull, JNull, JNull, JNull])] =
     (True, cut_to place_data [JNull, JNull, JNull, JNull] 2 [(''data'', JArr [JNull, JNull, JNull, JNull])])"
  by (simp add: truncate_envelope_def shrink_list_to_budget_def shrink_loop.simps unary_enc_def cut_to_def
      place_data_def add_size_cap_meta_def put_all_def Let_def)

lemma truncation_longest_prefix_witness:
  "\<exists>kept. 1 \<le> kept \<and> kept < length [JNull, JNull, JNull, JNull] \<and>
     map_of (snd (truncate_envelope unary_enc 2 [(''data'', JArr [JNull, JNull, JNull, JNull])])) ''data'' =
       Some (JArr (take kept [JNull, JNull, JNull, JNull]))"
  using truncation_longest_prefix [OF _ unary_truncates, of "[JNull, JNull, JNull, JNull]"]
  by (auto simp: unary_truncates)

lemma truncate_fits: "truncate_envelope enc budget env = (True, env') \<Longrightarrow> fits enc budget env'"
  using shrink_fits [OF overwrites_data] shrink_fits [OF overwrites_field]
  by (fastforce simp: truncate_envelope_def split: option.splits json.splits prod.splits if_splits)

text \<open>No result exceeds the budget: with a positive budget the text of a successful result is
  within it, or it is the recovery envelope that reports the size of the result that was refused.\<close>

lemma guarded_result_fits:
  assumes "enc result = Some raw" and "0 < budget"
  shows "int (length (te_text (result_envelope_guarded enc dec err_text tool result budget))) \<le> budget \<or>
    result_envelope_guarded enc dec err_text tool result budget =
      tool_result_envelope enc err_text (result_too_large tool (length raw) budget)"
proof (cases "int (length raw) \<le> budget")
  case True
  with assms show ?thesis by (simp add: result_envelope_guarded_def envelope_of_raw_def)
next
  case False
  have "int (length (te_text (tool_result_envelope enc err_text (JObj env')))) \<le> budget"
    if "truncate_envelope enc (nat budget) env = (True, env')" for env env'
    using truncate_fits [OF that] assms(2)
    by (auto simp: fits_def tool_result_envelope_def envelope_of_raw_def split: option.splits)
  with False assms show ?thesis
    by (auto simp: result_envelope_guarded_def split: option.splits prod.splits bool.splits)
qed

lemma guarded_result_fits_witness:
  "int (length (te_text (result_envelope_guarded unary_enc (\<lambda>_. None) [] ''t'' (JObj [(''data'', JArr [JNull])]) 1))) \<le> 1 \<or>
    result_envelope_guarded unary_enc (\<lambda>_. None) [] ''t'' (JObj [(''data'', JArr [JNull])]) 1 =
      tool_result_envelope unary_enc [] (result_too_large ''t'' (length ''1'') 1)"
  by (rule guarded_result_fits) (simp_all add: unary_enc_def)

end
