(* ===== verification/Prompts.thy ===== *)
theory Prompts
  imports McpTypes "HOL-Library.Multiset"
begin

text \<open>
  \<open>internal/mcp/prompts.go\<close>: the registry of built-in prompt templates and the substitution of their
  placeholders. A map of arguments is an association list in the order in which Go visits it, which
  is arbitrary; \<open>show_v\<close> is \<open>fmt.Sprintf "%v"\<close> and \<open>reparse\<close> is \<open>json.Unmarshal\<close> of a marshalled
  value into an \<open>any\<close> (numbers become floats; \<open>None\<close>: one is out of range).
\<close>

section \<open>Types and registry\<close>

record prompt_argument =
  pa_name :: string
  pa_description :: string
  pa_required :: bool

record prompt_message =
  pm_role :: string
  pm_type :: string
  pm_text :: string

record prompt =
  pr_name :: string
  pr_description :: string
  pr_arguments :: "prompt_argument list"
  pr_messages :: "prompt_message list"

record prompt_registry =
  pg_prompts :: "(string \<times> prompt) list"
  pg_order :: "string list"

definition prompt_arg :: "string \<Rightarrow> string \<Rightarrow> bool \<Rightarrow> prompt_argument" where
  "prompt_arg name desc req = \<lparr>pa_name = name, pa_description = desc, pa_required = req\<rparr>"

definition user_text :: "string \<Rightarrow> prompt_message" where
  "user_text t = \<lparr>pm_role = ''user'', pm_type = ''text'', pm_text = t\<rparr>"

definition builtin_prompts :: "prompt list" where
  "builtin_prompts =
    [\<lparr>pr_name = ''demo-full-workspace-story'',
       pr_description = ''Seed a deterministic demo workspace story, review it, and report the IDs.'',
       pr_arguments =
        [prompt_arg ''run_id'' ''Stable demo run id. Default phase1.'' False,
         prompt_arg ''prefix'' ''Explicit demo object prefix.'' False],
       pr_messages = [user_text (
         ''First call `clockify_demo_seed` to create or reuse the deterministic demo fixture. Use '' @
         ''returned IDs in later calls, especially clientId, projectId, taskId, tagId, and entryId. '' @
         ''If a paid feature is unavailable, report it and continue with the available workspace '' @
         ''data. Summarize what changed, including IDs and changed.created, changed.updated, '' @
         ''changed.deleted, or changed.reused.'')]\<rparr>,
     \<lparr>pr_name = ''setup-client-project-task'',
       pr_description = ''Create or reuse a client/project/task/tag work package from names or IDs.'',
       pr_arguments =
        [prompt_arg ''client'' ''Client name or ID.'' False,
         prompt_arg ''project'' ''Project name or ID.'' False,
         prompt_arg ''task'' ''Task name or ID.'' False,
         prompt_arg ''tag'' ''Tag name.'' False],
       pr_messages = [user_text (
         ''First call `clockify_create_work_package` with the client, project, task, and tag names '' @
         ''or IDs you have. Use returned IDs in later calls instead of repeating names. If a paid '' @
         ''feature is unavailable, report it and continue with the created or reused core work '' @
         ''objects. Summarize what changed, including IDs and changed.created, changed.updated, '' @
         ''changed.deleted, or changed.reused.'')]\<rparr>,
     \<lparr>pr_name = ''log-week'',
       pr_description = ''Log a week of finished work with workflow tools.'',
       pr_arguments =
        [prompt_arg ''week_start'' ''Week start date, if known.'' False,
         prompt_arg ''project'' ''Project name or ID.'' False,
         prompt_arg ''task'' ''Task name or ID.'' False],
       pr_messages = [user_text (
         ''First call `clockify_log_work` for the first finished entry, then repeat it for each '' @
         ''remaining entry in the week. Use returned IDs from setup or earlier log calls whenever '' @
         ''possible. If a paid feature is unavailable, report it and continue logging the entries '' @
         ''that can be recorded. Summarize what changed, including IDs and changed.created, '' @
         ''changed.updated, changed.deleted, or changed.reused.'')]\<rparr>,
     \<lparr>pr_name = ''safe-daily-time-tracking'',
       pr_description = ''Review and adjust daily time tracking using only core time-entry tools.'',
       pr_arguments =
        [prompt_arg ''date'' ''Day to review, if known.'' False,
         prompt_arg ''project'' ''Project name or ID.'' False],
       pr_messages = [user_text (
         ''First call `clockify_status`, then use only core time-tracking tools such as '' @
         ''`clockify_review_day`, `clockify_log_work`, `clockify_start_work`, `clockify_stop_work`, '' @
         ''and `clockify_fix_entry`. Do not use invoice, expense, admin, webhook, or raw fallback '' @
         ''tools for this workflow. Use returned IDs from status, review, or prior entry calls '' @
         ''whenever possible. If a paid feature is unavailable, report it and continue with daily '' @
         ''time tracking only. Summarize what changed, including IDs and changed.created, '' @
         ''changed.updated, changed.deleted, or changed.reused when any write follows.'')]\<rparr>,
     \<lparr>pr_name = ''invoice-client'',
       pr_description = ''Create an invoice workflow for client work and degrade cleanly when invoicing is '' @
         ''unavailable.'',
       pr_arguments =
        [prompt_arg ''client'' ''Client name or ID.'' False,
         prompt_arg ''start'' ''Start date or datetime.'' False,
         prompt_arg ''end'' ''End date or datetime.'' False],
       pr_messages = [user_text (
         ''First call `clockify_status` to check workspace feature availability, then call '' @
         ''`clockify_invoice_client_work` with the client name or ID, currency, and date range you '' @
         ''have. Use returned IDs in later calls, including clientId, invoiceId, and imported entry '' @
         ''IDs when present. If a paid feature is unavailable, report it and continue by summarizing '' @
         ''invoice-ready work instead of failing the workflow. Summarize what changed, including IDs '' @
         ''and changed.created, changed.updated, changed.deleted, or changed.reused.'')]\<rparr>,
     \<lparr>pr_name = ''cleanup-demo'',
       pr_description = ''Clean deterministic demo objects by run id or prefix.'',
       pr_arguments =
        [prompt_arg ''run_id'' ''Stable demo run id. Default phase1.'' False,
         prompt_arg ''prefix'' ''Explicit demo prefix.'' False],
       pr_messages = [user_text (
         ''First call `clockify_demo_cleanup` with the run id or prefix you have. Use returned IDs '' @
         ''in later calls only if follow-up cleanup or verification is needed. If a paid feature is '' @
         ''unavailable, report it and continue cleaning the core demo objects. Summarize what '' @
         ''changed, including IDs and changed.created, changed.updated, changed.deleted, or '' @
         ''changed.reused.'')]\<rparr>,
     \<lparr>pr_name = ''review-week'',
       pr_description = ''Review weekly totals, issues, and suggested fixes.'',
       pr_arguments =
        [prompt_arg ''week_start'' ''Week start date, if known.'' False,
         prompt_arg ''user'' ''User name, email, or ID.'' False],
       pr_messages = [user_text (
         ''First call `clockify_review_week` for the requested week. Use returned IDs in later '' @
         ''calls, especially entryId, projectId, taskId, and tagId values referenced by issues or '' @
         ''next actions. If a paid feature is unavailable, report it and continue with the local '' @
         ''entry-based review. Summarize what changed or what should change next, including IDs and '' @
         ''changed.created, changed.updated, changed.deleted, or changed.reused when any write '' @
         ''follows.'')]\<rparr>,
     \<lparr>pr_name = ''create-expense'',
       pr_description = ''Record an expense with category/project names or IDs.'',
       pr_arguments =
        [prompt_arg ''category'' ''Expense category name or ID.'' False,
         prompt_arg ''project'' ''Project name or ID.'' False,
         prompt_arg ''amount'' ''Expense amount.'' False],
       pr_messages = [user_text (
         ''First call `clockify_record_expense` with the category, project, amount, date, notes, and '' @
         ''receipt/file details only when the expense tool schema requires them. Use returned IDs in '' @
         ''later calls, including expenseId, categoryId, projectId, taskId, and userId. If a paid '' @
         ''feature is unavailable, report it and continue with a clear summary of the expense that '' @
         ''could not be recorded. Summarize what changed, including IDs and changed.created, '' @
         ''changed.updated, changed.deleted, or changed.reused.'')]\<rparr>,
     \<lparr>pr_name = ''request-time-off'',
       pr_description = ''Request time off with a policy name or ID.'',
       pr_arguments =
        [prompt_arg ''policy'' ''Time-off policy name or ID.'' False,
         prompt_arg ''start'' ''Start date.'' False,
         prompt_arg ''end'' ''End date.'' False],
       pr_messages = [user_text (
         ''First call `clockify_request_time_off` with the policy name or ID, dates, and note you '' @
         ''have. Use returned IDs in later calls, including requestId, policyId, and userId. If a '' @
         ''paid feature is unavailable, report it and continue with the requested dates and reason '' @
         ''for manual handling. Summarize what changed, including IDs and changed.created, '' @
         ''changed.updated, changed.deleted, or changed.reused.'')]\<rparr>,
     \<lparr>pr_name = ''schedule-week'',
       pr_description = ''Schedule work for a week using names or IDs.'',
       pr_arguments =
        [prompt_arg ''week_start'' ''Week start date, if known.'' False,
         prompt_arg ''project'' ''Project name or ID.'' False,
         prompt_arg ''user'' ''User name, email, or ID.'' False],
       pr_messages = [user_text (
         ''First call `clockify_schedule_work` with the user, project, dates, and hours you have. '' @
         ''Use returned IDs in later calls, including assignmentId, userId, and projectId. If a paid '' @
         ''feature is unavailable, report it and continue with a readable schedule plan. Summarize '' @
         ''what changed, including IDs and changed.created, changed.updated, changed.deleted, or '' @
         ''changed.reused.'')]\<rparr>,
     \<lparr>pr_name = ''setup-webhook'',
       pr_description = ''Create a webhook from a simple name, callback URL, and event.'',
       pr_arguments =
        [prompt_arg ''name'' ''Webhook name.'' False,
         prompt_arg ''url'' ''HTTPS callback URL.'' False,
         prompt_arg ''event'' ''Clockify webhook event.'' False],
       pr_messages = [user_text (
         ''First call `clockify_setup_webhook` with dry_run=true, the webhook name, HTTPS callback '' @
         ''URL, and event you have. Review the preview and DNS/URL validation result before making a '' @
         ''non-dry-run create call. Use returned IDs in later calls, including webhookId. If a paid '' @
         ''feature is unavailable, report it and continue with the event and callback details for '' @
         ''manual setup. Summarize what changed, including IDs and changed.created, changed.updated, '' @
         ''changed.deleted, or changed.reused.'')]\<rparr>]"

definition registry_of :: "prompt list \<Rightarrow> prompt_registry" where
  "registry_of ps =
     foldl (\<lambda>r p. \<lparr>pg_prompts = AList.update (pr_name p) p (pg_prompts r), pg_order = pg_order r @ [pr_name p]\<rparr>)
       \<lparr>pg_prompts = [], pg_order = []\<rparr> ps"

definition new_prompt_registry :: prompt_registry where
  "new_prompt_registry = registry_of builtin_prompts"

definition zero_prompt :: prompt where
  "zero_prompt = \<lparr>pr_name = [], pr_description = [], pr_arguments = [], pr_messages = []\<rparr>"

definition list_prompts :: "prompt_registry \<Rightarrow> prompt list" where
  "list_prompts r =
     map (\<lambda>name. case map_of (pg_prompts r) name of None \<Rightarrow> zero_prompt | Some p \<Rightarrow> p) (pg_order r)"

definition get_prompt :: "prompt_registry \<Rightarrow> string \<Rightarrow> prompt option" where
  "get_prompt r name = map_of (pg_prompts r) name"

section \<open>Substitution\<close>

definition needle :: "string \<Rightarrow> string" where
  "needle k = ''{{'' @ k @ ''}}''"

definition substitute_args :: "(json \<Rightarrow> string) \<Rightarrow> string \<Rightarrow> members \<Rightarrow> string" where
  "substitute_args show_v text args =
     foldl (\<lambda>t (k, v). if str_contains t (needle k) then replace_all t (needle k) (show_v v) else t)
       text (sort_key (\<lambda>(k, _). - int (length k)) args)"

definition missing_argument :: "members \<Rightarrow> prompt_argument \<Rightarrow> bool" where
  "missing_argument args a \<longleftrightarrow>
     pa_required a \<and>
     (case map_of args (pa_name a) of None \<Rightarrow> True | Some v \<Rightarrow> v = JNull \<or> v = JStr [])"

definition apply_args ::
  "(json \<Rightarrow> string) \<Rightarrow> (string \<Rightarrow> string) \<Rightarrow> prompt \<Rightarrow> members \<Rightarrow> (string, prompt_message list) result" where
  "apply_args show_v quote p args =
     (case find (missing_argument args) (pr_arguments p) of
        Some a \<Rightarrow> Inl (''missing required argument '' @ quote (pa_name a))
      | None \<Rightarrow> Inr (map (\<lambda>m. m\<lparr>pm_text := substitute_args show_v (pm_text m) args\<rparr>) (pr_messages p)))"

section \<open>Requests\<close>

text \<open>A field of type \<open>map[string]any\<close>: objects of several matching keys are merged, \<open>null\<close> empties.\<close>

fun last_map :: "(json \<Rightarrow> json option) \<Rightarrow> json list \<Rightarrow> members \<Rightarrow> members option" where
  "last_map reparse [] acc = Some acc"
| "last_map reparse (JNull # vs) acc = last_map reparse vs []"
| "last_map reparse (JObj m # vs) acc =
     (case reparse (JObj m) of
        Some (JObj m') \<Rightarrow> last_map reparse vs (foldl (\<lambda>a (k, v). AList.update k v a) acc m')
      | _ \<Rightarrow> None)"
| "last_map reparse (v # vs) acc = None"

definition struct_map :: "(json \<Rightarrow> json option) \<Rightarrow> string \<Rightarrow> json \<Rightarrow> members option" where
  "struct_map reparse tag raw =
     (case raw of
        JNull \<Rightarrow> Some []
      | JObj m \<Rightarrow> last_map reparse (field_values tag m) []
      | _ \<Rightarrow> None)"

definition handle_prompts_get ::
  "(json \<Rightarrow> string) \<Rightarrow> (string \<Rightarrow> string) \<Rightarrow> (json \<Rightarrow> json option) \<Rightarrow> prompt_registry \<Rightarrow> json \<Rightarrow>
   (rpc_error, string \<times> prompt_message list) result" where
  "handle_prompts_get show_v quote reparse r raw =
     (case (struct_string ''name'' raw, struct_map reparse ''arguments'' raw) of
        (Some name, Some args) \<Rightarrow>
          if name = [] then Inl (rpc_err (- 32602) ''invalid prompts/get params: missing name'')
          else (case get_prompt r name of
                  None \<Rightarrow> Inl (rpc_err (- 32602) (''prompt not found: '' @ name))
                | Some p \<Rightarrow>
                    (case apply_args show_v quote p args of
                       Inl e \<Rightarrow> Inl (rpc_err (- 32602) e)
                     | Inr messages \<Rightarrow> Inr (pr_description p, messages)))
      | _ \<Rightarrow> Inl (rpc_err (- 32602) ''invalid prompts/get params: missing name''))"

section \<open>Replacing in a template\<close>

lemma replace_all_skip:
  "\<not> has_prefix (c # s) old \<Longrightarrow> replace_all (c # s) old new = c # replace_all s old new"
  by (subst (1 2) replace_all.simps) (auto split: option.split)

lemma replace_all_hit: "old \<noteq> [] \<Longrightarrow> replace_all (old @ s) old new = new @ replace_all s old new"
proof (subst replace_all.simps)
  assume "old \<noteq> []"
  then have "index_str (old @ s) old = Some 0" using has_prefix_append [of old s] by (cases old) auto
  with \<open>old \<noteq> []\<close> show "(if old = [] then old @ s
     else (case index_str (old @ s) old of None \<Rightarrow> old @ s
           | Some i \<Rightarrow> take i (old @ s) @ new @ replace_all (drop (i + length old) (old @ s)) old new)) =
     new @ replace_all s old new" by simp
qed

text \<open>A template is a text cut at its placeholders; its literals have no braces.\<close>

datatype segment = Literal string | Placeholder string

definition brace_free :: "string \<Rightarrow> bool" where
  "brace_free s \<longleftrightarrow> CHR ''{'' \<notin> set s \<and> CHR ''}'' \<notin> set s"

fun seg_text :: "segment \<Rightarrow> string" where
  "seg_text (Literal s) = s"
| "seg_text (Placeholder k) = needle k"

fun seg_ok :: "segment \<Rightarrow> bool" where
  "seg_ok (Literal s) = brace_free s"
| "seg_ok (Placeholder k) = brace_free k"

definition template :: "segment list \<Rightarrow> string" where
  "template ss = concat (map seg_text ss)"

fun fill :: "(string \<rightharpoonup> string) \<Rightarrow> segment \<Rightarrow> segment" where
  "fill \<sigma> (Literal s) = Literal s"
| "fill \<sigma> (Placeholder k) = (case \<sigma> k of None \<Rightarrow> Placeholder k | Some v \<Rightarrow> Literal v)"

lemma replace_brace_free:
  "CHR ''{'' \<notin> set s \<Longrightarrow> replace_all (s @ t) (needle k) new = s @ replace_all t (needle k) new"
  by (induction s) (auto simp: replace_all_skip needle_def)

lemma has_prefix_needle:
  "brace_free k \<Longrightarrow> brace_free l \<Longrightarrow> has_prefix (needle l @ t) (needle k) \<longleftrightarrow> k = l"
proof (induction k arbitrary: l)
  case Nil
  then show ?case by (cases l) (auto simp: needle_def brace_free_def)
next
  case (Cons c k)
  then show ?case by (cases l) (auto simp: needle_def brace_free_def)
qed

lemma replace_placeholder:
  assumes "brace_free k" "brace_free l"
  shows "replace_all (needle l @ t) (needle k) new =
    (if l = k then new else needle l) @ replace_all t (needle k) new"
proof (cases "l = k")
  case True
  have "needle k \<noteq> []" by (simp add: needle_def)
  with True show ?thesis by (simp only: replace_all_hit if_True refl simp_thms)
next
  case False
  have n: "needle l @ t = CHR ''{'' # CHR ''{'' # (l @ ''}}'') @ t" by (simp add: needle_def)
  have "\<not> has_prefix (needle l @ t) (needle k)" using has_prefix_needle assms False by auto
  moreover have "\<not> has_prefix (CHR ''{'' # (l @ ''}}'') @ t) (needle k)"
    using assms by (cases l) (auto simp: needle_def brace_free_def)
  ultimately have "replace_all (needle l @ t) (needle k) new =
      ''{{'' @ replace_all ((l @ ''}}'') @ t) (needle k) new"
    unfolding n by (simp add: replace_all_skip)
  also have "\<dots> = ''{{'' @ (l @ ''}}'') @ replace_all t (needle k) new"
    using assms by (subst replace_brace_free) (auto simp: brace_free_def)
  finally show ?thesis using False by (simp add: needle_def)
qed

lemma replace_template:
  "list_all seg_ok ss \<Longrightarrow> brace_free k \<Longrightarrow>
     replace_all (template ss) (needle k) v = template (map (fill [k \<mapsto> v]) ss)"
proof (induction ss)
  case Nil
  show ?case by (subst replace_all.simps) (simp add: template_def needle_def)
next
  case (Cons s ss)
  then show ?case
    by (cases s) (auto simp: template_def replace_brace_free replace_placeholder brace_free_def [of "seg_text s"]
        brace_free_def)
qed

lemma replace_absent: "\<not> str_contains t (needle k) \<Longrightarrow> replace_all t (needle k) v = t"
  by (subst replace_all.simps) (simp add: str_contains_def split: option.split)

definition values_of :: "(json \<Rightarrow> string) \<Rightarrow> members \<Rightarrow> string \<rightharpoonup> string" where
  "values_of show_v args k = map_option show_v (map_of args k)"

lemma fold_template:
  "list_all seg_ok ss \<Longrightarrow> distinct (map fst args) \<Longrightarrow>
   list_all (\<lambda>(k, v). brace_free k \<and> brace_free (show_v v)) args \<Longrightarrow>
   foldl (\<lambda>t (k, v). if str_contains t (needle k) then replace_all t (needle k) (show_v v) else t)
     (template ss) args = template (map (fill (values_of show_v args)) ss)"
proof (induction args arbitrary: ss)
  case Nil
  have "fill (values_of show_v []) = id" by (rule ext, rename_tac s, case_tac s) (simp_all add: values_of_def)
  then show ?case by simp
next
  case (Cons e args)
  obtain k v where e: "e = (k, v)" by force
  let ?ss = "map (fill [k \<mapsto> show_v v]) ss"
  have bf: "brace_free k" "brace_free (show_v v)" using Cons.prems(3) by (simp_all add: e)
  have ok: "list_all seg_ok ?ss" using Cons.prems(1) bf
    by (auto simp: list_all_iff) (rename_tac s, case_tac s, auto)
  have compose: "fill (values_of show_v args) (fill [k \<mapsto> show_v v] s) = fill (values_of show_v (e # args)) s" for s
    using Cons.prems(2) by (cases s) (auto simp: e values_of_def split: option.splits)
  have "(if str_contains (template ss) (needle k) then replace_all (template ss) (needle k) (show_v v)
         else template ss) = template ?ss"
    using replace_template [OF Cons.prems(1) bf(1)] replace_absent by metis
  then show ?case
    using Cons.IH [OF ok] Cons.prems by (simp add: e comp_def compose [unfolded e])
qed

text \<open>Placeholders are filled simultaneously: in a template cut at its placeholders, when argument
  names and printed values have no braces, every placeholder with an argument becomes its printed
  value, every other one stays as it is, and the order in which the map of arguments is visited does
  not matter.\<close>

lemma substitution_simultaneous:
  assumes "list_all seg_ok ss" and "distinct (map fst args)" and "mset args' = mset args"
    and "list_all (\<lambda>(k, v). brace_free k \<and> brace_free (show_v v)) args"
  shows "substitute_args show_v (template ss) args' = template (map (fill (values_of show_v args)) ss)"
proof -
  let ?a = "sort_key (\<lambda>(k, v). - int (length k)) args'"
  have m: "mset ?a = mset args" using assms(3) by simp
  then have "mset (map fst ?a) = mset (map fst args)" by (simp only: mset_map)
  then have d: "distinct (map fst ?a)" using assms(2) mset_eq_imp_distinct_iff by blast
  have "map_of ?a = map_of args" using map_of_inject_set [OF d assms(2)] m mset_eq_setD by blast
  then have "values_of show_v ?a = values_of show_v args" by (simp add: values_of_def fun_eq_iff)
  moreover have "list_all (\<lambda>(k, v). brace_free k \<and> brace_free (show_v v)) ?a"
    using assms(4) unfolding list_all_iff by (simp only: mset_eq_setD [OF m])
  ultimately show ?thesis
    unfolding substitute_args_def using fold_template [OF assms(1) d] by simp
qed

lemma registry_of_distinct:
  "distinct (map pr_name ps) \<Longrightarrow>
     pg_order (registry_of ps) = map pr_name ps \<and>
     map_of (pg_prompts (registry_of ps)) = map_of (map (\<lambda>p. (pr_name p, p)) ps)"
proof (induction ps rule: rev_induct)
  case (snoc p ps)
  then show ?case
  proof -
    have "map_of (map (\<lambda>p. (pr_name p, p)) ps) (pr_name p) = None"
      using snoc.prems by (auto simp: map_of_eq_None_iff)
    with snoc show ?thesis
      by (auto simp: registry_of_def update_conv' fun_eq_iff map_add_def split: option.splits)
  qed
qed (simp add: registry_of_def)

lemma map_of_names: "distinct (map pr_name ps) \<Longrightarrow> p \<in> set ps \<Longrightarrow>
     map_of (map (\<lambda>p. (pr_name p, p)) ps) (pr_name p) = Some p"
  by (rule map_of_is_SomeI) (auto simp: comp_def)

lemma substitute_no_brace:
  assumes "CHR ''{'' \<notin> set t"
  shows "substitute_args show_v t args = t"
proof -
  have "\<not> str_contains t (needle k)" for k
    using assms by (auto simp: str_contains_iff needle_def)
  then have "foldl (\<lambda>t (k, v). if str_contains t (needle k) then replace_all t (needle k) (show_v v) else t) t es = t"
    for es by (induction es) auto
  then show ?thesis by (simp add: substitute_args_def)
qed

definition canned :: "prompt \<Rightarrow> bool" where
  "canned p \<longleftrightarrow> list_all (\<lambda>a. \<not> pa_required a) (pr_arguments p) \<and>
     list_all (\<lambda>m. CHR ''{'' \<notin> set (pm_text m)) (pr_messages p)"

lemma canned_apply: "canned p \<Longrightarrow> apply_args show_v quote p args = Inr (pr_messages p)"
proof -
  assume c: "canned p"
  then have "find (missing_argument args) (pr_arguments p) = None"
    by (auto simp: canned_def list_all_iff find_None_all missing_argument_def)
  moreover have "map (\<lambda>m. m\<lparr>pm_text := substitute_args show_v (pm_text m) args\<rparr>) (pr_messages p) = pr_messages p"
    using c by (intro map_idI) (simp add: canned_def list_all_iff substitute_no_brace)
  ultimately show ?thesis by (simp add: apply_args_def)
qed

lemma builtin_canned: "list_all canned builtin_prompts"
  by (simp add: builtin_prompts_def canned_def prompt_arg_def user_text_def)

lemma builtin_distinct: "distinct (map pr_name builtin_prompts)"
  by (simp add: builtin_prompts_def)

text \<open>Built-in prompts are canned: the registry lists the built-in prompts in their order and finds
  each of them by its name; none requires an argument and none has a placeholder, so \<open>prompts/get\<close>
  answers the canned messages whatever the arguments.\<close>

lemma builtin_prompts_canned:
  "list_prompts new_prompt_registry = builtin_prompts \<and> length builtin_prompts = 11 \<and>
   list_all (\<lambda>p. get_prompt new_prompt_registry (pr_name p) = Some p \<and>
     apply_args show_v quote p args = Inr (pr_messages p)) builtin_prompts"
proof -
  note r = registry_of_distinct [OF builtin_distinct]
  have "list_prompts new_prompt_registry = map (\<lambda>p. p) builtin_prompts"
    unfolding list_prompts_def new_prompt_registry_def using r map_of_names [OF builtin_distinct]
    by (simp del: map_ident)
  moreover have "length builtin_prompts = 11" by (simp add: builtin_prompts_def)
  ultimately show ?thesis
    using r map_of_names [OF builtin_distinct] builtin_canned canned_apply
    by (simp add: list_all_iff get_prompt_def new_prompt_registry_def)
qed

text \<open>Outside such templates the order of the arguments matters: names of one length are visited in an
  arbitrary order, and a value that reads like a placeholder may or may not be replaced in turn.\<close>

lemma substitution_order_matters:
  "substitute_args (\<lambda>v. case v of JStr s \<Rightarrow> s | _ \<Rightarrow> []) ''{{a}}'' [(''a'', JStr ''{{b}}''), (''b'', JStr ''x'')] = ''x''"
  "substitute_args (\<lambda>v. case v of JStr s \<Rightarrow> s | _ \<Rightarrow> []) ''{{a}}'' [(''b'', JStr ''x''), (''a'', JStr ''{{b}}'')] = ''{{b}}''"
  by (simp_all add: substitute_args_def needle_def str_contains_def replace_all.simps)

lemma substitution_simultaneous_witness:
  "substitute_args (\<lambda>_. ''v'') (template [Literal ''a '', Placeholder ''x'', Placeholder ''y'']) [(''x'', JNull)] =
     template [Literal ''a '', Literal ''v'', Placeholder ''y'']"
  using substitution_simultaneous [of "[Literal ''a '', Placeholder ''x'', Placeholder ''y'']" "[(''x'', JNull)]"
      "[(''x'', JNull)]" "\<lambda>_. ''v''"]
  by (simp add: brace_free_def values_of_def)

end
