(* ===== verification/Server.thy ===== *)
theory Server
  imports ToolDispatch Inflight ResponseGuard Resources Prompts
begin

text \<open>
  The protocol engine of \<open>internal/mcp/server.go\<close>: version negotiation, validation of requests, the
  handshake, \<open>handle\<close> with all its methods, and the two ways a message comes in, \<open>DispatchMessage\<close>
  and a line of \<open>Run\<close>. What a session uses and the repository does not define (the JSON encoder and
  decoder, the formatting verbs, the resource provider, the texts of wrapped errors) is \<open>session_lib\<close>.
\<close>

section \<open>Protocol versions\<close>

definition supported_versions :: "string list" where
  "supported_versions = [''2025-11-25'', ''2025-06-18'', ''2025-03-26'', ''2024-11-05'']"

definition is_supported_version :: "string \<Rightarrow> bool" where
  "is_supported_version version \<longleftrightarrow> trim_space version \<in> set supported_versions"

definition default_version :: "string \<Rightarrow> string" where
  "default_version configured0 =
     (let configured = trim_space configured0 in
      if is_supported_version configured then configured else hd supported_versions)"

definition negotiate_version :: "string \<Rightarrow> string \<Rightarrow> string" where
  "negotiate_version requested0 configured_default =
     (let requested = trim_space requested0 in
      if requested = [] then default_version configured_default
      else if is_supported_version requested then requested
      else hd supported_versions)"

section \<open>Requests\<close>

definition validate_request :: "rpc_request \<Rightarrow> rpc_error option" where
  "validate_request req =
     (if rq_jsonrpc req \<noteq> ''2.0'' then Some (rpc_err (- 32600) ''invalid request: jsonrpc must be \"2.0\"'')
      else if trim_space (rq_method req) = []
      then Some (rpc_err (- 32600) ''invalid request: method must be a non-empty string'')
      else if rq_method req = ''initialize'' \<and> rq_id req = JNull
      then Some (rpc_err (- 32600) ''invalid request: initialize must include an id'')
      else (case rq_id req of
              JNull \<Rightarrow> None
            | JStr _ \<Rightarrow> None
            | JFlt _ \<Rightarrow> None
            | JNum _ \<Rightarrow> None
            | _ \<Rightarrow> Some (rpc_err (- 32600) ''invalid request: id must be a string or number'')))"

definition requires_initialized :: "string \<Rightarrow> bool" where
  "requires_initialized meth \<longleftrightarrow>
     meth \<notin> set [''initialize'', ''notifications/initialized'', ''notifications/cancelled'', ''ping'']"

definition dispatch_async_request :: "string \<Rightarrow> bool" where
  "dispatch_async_request meth \<longleftrightarrow>
     meth \<in> set [''resources/list'', ''resources/read'', ''resources/templates/list'', ''prompts/get'', ''prompts/list'']"

definition tool_name_from_request :: "rpc_request \<Rightarrow> string" where
  "tool_name_from_request req =
     (if rq_method req \<noteq> ''tools/call'' \<or> rq_params req = JNull then rq_method req
      else (case rq_params req of
              JObj m \<Rightarrow> (if str_member m ''name'' \<noteq> [] then str_member m ''name'' else ''unknown'')
            | _ \<Rightarrow> ''unknown''))"

definition scanner_max_message_size :: "int \<Rightarrow> int" where
  "scanner_max_message_size configured =
     (if configured \<le> 0 then 4194304
      else (case atoi (itoa configured) of None \<Rightarrow> max_int64 | Some n \<Rightarrow> n))"

record tool_call_params =
  cp_name :: string
  cp_args :: "members option"
  cp_token :: "json option"

text \<open>\<open>toolCallParamsFromMap\<close>; an \<open>_meta\<close> without a token acts like no \<open>_meta\<close>.\<close>

definition tool_call_params_from_map :: "members \<Rightarrow> (string, tool_call_params) result" where
  "tool_call_params_from_map m =
     (case map_of m ''name'' of
        Some (JStr name) \<Rightarrow>
          (if trim_space name = [] then Inl ''name must be a non-empty string''
           else bind_result
             (case map_of m ''arguments'' of
                None \<Rightarrow> Inr None
              | Some JNull \<Rightarrow> Inr None
              | Some (JObj a) \<Rightarrow> Inr (Some a)
              | Some _ \<Rightarrow> Inl ''arguments must be an object'')
             (\<lambda>args. bind_result
               (case map_of m ''_meta'' of
                  None \<Rightarrow> Inr None
                | Some JNull \<Rightarrow> Inr None
                | Some (JObj meta) \<Rightarrow>
                    (case map_of meta ''progressToken'' of
                       None \<Rightarrow> Inr None
                     | Some JNull \<Rightarrow> Inl ''_meta.progressToken must not be null''
                     | Some tok \<Rightarrow> Inr (Some tok))
                | Some _ \<Rightarrow> Inl ''_meta must be an object'')
               (\<lambda>tok. Inr \<lparr>cp_name = name, cp_args = args, cp_token = tok\<rparr>)))
      | _ \<Rightarrow> Inl ''name must be a non-empty string'')"

text \<open>The decoding in \<open>handle\<close>: params that are no map go through \<open>decodeParams\<close>, where a nil leaves
  the struct empty and every other value fails.\<close>

definition tool_call_params :: "json \<Rightarrow> (string, tool_call_params) result" where
  "tool_call_params raw =
     (case raw of
        JObj m \<Rightarrow>
          (case tool_call_params_from_map m of
             Inl e \<Rightarrow> Inl (''invalid tools/call params: '' @ e)
           | Inr p \<Rightarrow> Inr p)
      | JNull \<Rightarrow> Inr \<lparr>cp_name = [], cp_args = None, cp_token = None\<rparr>
      | _ \<Rightarrow> Inl ''invalid tools/call params'')"

section \<open>The session\<close>

record resource_provider =
  rp_list :: "(string, json list) result"
  rp_templates :: "(string, json list) result"
  rp_read :: "string \<Rightarrow> (string, json list) result"

text \<open>What a result can be.\<close>

datatype reply =
    RJson json
  | RToolPage "tool list" string
  | RPrompts "prompt list"
  | RPrompt string "prompt_message list"
  | REnvelope tool_envelope
  | RToolError string "json option"

type_synonym response = "reply rpc_response"

record session_lib =
  sl_dispatch :: dispatch_lib
  sl_show_g :: "rat \<Rightarrow> string"
  sl_show_v :: "json \<Rightarrow> string"
  sl_quote :: "string \<Rightarrow> string"
  sl_reparse :: "json \<Rightarrow> json option"
  sl_enc :: "json \<Rightarrow> string option"
  sl_dec :: "string \<Rightarrow> members option"
  sl_enc_page :: "tool list \<times> string \<Rightarrow> string option"
  sl_enc_response :: "response \<Rightarrow> string option"
  sl_parse :: "string \<Rightarrow> rpc_request option"
  sl_enc_error :: string
  sl_schema_text :: "vmsg \<Rightarrow> string"
  sl_error_text :: "call_error \<Rightarrow> string"
  sl_translation :: "call_error \<Rightarrow> json option"
  sl_resources :: "resource_provider option"

record ('w, 'n) session =
  ss_version :: string
  ss_default_version :: string
  ss_static_tools :: bool
  ss_max_result :: int
  ss_server :: "'w server"
  ss_calls :: inflight
  ss_subs :: "'n subscriptions"
  ss_prompts :: prompt_registry
  ss_initialized :: bool
  ss_list_changed :: bool
  ss_negotiated :: string
  ss_client_name :: string
  ss_client_version :: string

text \<open>\<open>NewServer\<close>: every policy field has Go's zero value.\<close>

definition new_server :: "'w tool_descriptor list \<Rightarrow> files \<Rightarrow> 'w \<Rightarrow> 'w server" where
  "new_server ds fs w =
     \<lparr>sv_registry = new_registry ds 0, sv_enforce = False, sv_limiter = None,
      sv_family = Some new_family_limiter, sv_store = None, sv_confirmation_mode = [],
      sv_workspace = [], sv_audit = None, sv_files = fs, sv_world = w\<rparr>"

definition new_session :: "string \<Rightarrow> 'w tool_descriptor list \<Rightarrow> files \<Rightarrow> 'w \<Rightarrow> ('w, 'n) session" where
  "new_session version ds fs w =
     \<lparr>ss_version = version, ss_default_version = [], ss_static_tools = False, ss_max_result = 0,
      ss_server = new_server ds fs w, ss_calls = no_inflight, ss_subs = no_subscriptions,
      ss_prompts = new_prompt_registry, ss_initialized = False, ss_list_changed = False,
      ss_negotiated = [], ss_client_name = [], ss_client_version = []\<rparr>"

definition configure_risk_rate_limits :: "risk_limits \<Rightarrow> instant \<Rightarrow> ('w, 'n) session \<Rightarrow> ('w, 'n) session" where
  "configure_risk_rate_limits limits now s =
     s\<lparr>ss_server := (ss_server s)\<lparr>sv_limiter := new_risk_limiter limits now\<rparr>\<rparr>"

definition configure_tool_limits :: "int \<Rightarrow> instant \<Rightarrow> ('w, 'n) session \<Rightarrow> ('w, 'n) session" where
  "configure_tool_limits rate now s =
     configure_risk_rate_limits
       \<lparr>rl_read = rate, rl_write = rate, rl_billing_admin = rate, rl_destructive = rate\<rparr> now s"

definition mark_initialized :: "string \<Rightarrow> string \<Rightarrow> string \<Rightarrow> ('w, 'n) session \<Rightarrow> ('w, 'n) session" where
  "mark_initialized version client_name client_version s =
     s\<lparr>ss_negotiated := (if version \<noteq> [] then version else ss_negotiated s),
       ss_client_name := (if client_name \<noteq> [] then client_name else ss_client_name s),
       ss_client_version := (if client_version \<noteq> [] then client_version else ss_client_version s),
       ss_initialized := True\<rparr>"

section \<open>Initialize\<close>

definition server_instructions :: string where
  "server_instructions =
     ''This is a single-user full-access Clockify MCP for one pinned workspace.'' @ [CHR 0x0A] @
     ''All tools are loaded at startup.'' @ [CHR 0x0A] @
     ''Use workflow tools first.'' @ [CHR 0x0A] @
     ''Use IDs returned by previous calls.'' @ [CHR 0x0A] @
     ''If a feature is unavailable, report it and continue.''"

definition tool_capabilities :: "('w, 'n) session \<Rightarrow> json" where
  "tool_capabilities s = JObj (if ss_list_changed s then [(''listChanged'', JBool True)] else [])"

text \<open>The decoded \<open>InitializeParams\<close>: version and client info; the other fields are only checked.\<close>

definition initialize_params :: "(json \<Rightarrow> json option) \<Rightarrow> json \<Rightarrow> (string \<times> members) option" where
  "initialize_params reparse raw =
     (case (struct_string ''protocolVersion'' raw, struct_map reparse ''capabilities'' raw,
            struct_map reparse ''clientInfo'' raw,
            case raw of JObj m \<Rightarrow> list_all (\<lambda>v. v = JNull \<or> as_obj v \<noteq> None) (field_values ''_meta'' m) | _ \<Rightarrow> True) of
        (Some version, Some caps, Some info, True) \<Rightarrow> Some (version, info)
      | _ \<Rightarrow> None)"

definition finish_initialize :: "session_lib \<Rightarrow> string \<times> members \<Rightarrow> ('w, 'n) session \<Rightarrow> json \<times> ('w, 'n) session" where
  "finish_initialize L params s =
     (let s1 = (if ss_initialized s
                then s\<lparr>ss_calls := snd (cancel_all_inflight (ss_calls s)),
                       ss_server := (ss_server s)\<lparr>sv_registry := invalidate_tool_list (sv_registry (ss_server s))\<rparr>\<rparr>
                else s);
          negotiated = negotiate_version (fst params) (ss_default_version s);
          s2 = s1\<lparr>ss_negotiated := negotiated, ss_client_name := str_member (snd params) ''name'',
                  ss_client_version := str_member (snd params) ''version'', ss_initialized := True\<rparr>
      in (JObj [(''protocolVersion'', JStr negotiated),
             (''serverInfo'', JObj [(''name'', JStr ''clockify-go-mcp''), (''title'', JStr ''Clockify Go MCP Server''),
                (''version'', JStr (ss_version s))]),
             (''capabilities'', JObj ([(''tools'', tool_capabilities s)] @
                (if sl_resources L \<noteq> None
                 then [(''resources'', JObj [(''subscribe'', JBool True), (''listChanged'', JBool True)])] else []) @
                [(''prompts'', JObj [])])),
             (''instructions'', JStr server_instructions)], s2))"

definition handle_initialize_strict ::
  "session_lib \<Rightarrow> json \<Rightarrow> ('w, 'n) session \<Rightarrow> (rpc_error, json) result \<times> ('w, 'n) session" where
  "handle_initialize_strict L raw s =
     (case initialize_params (sl_reparse L) raw of
        None \<Rightarrow> (Inl (rpc_err (- 32602) ''invalid initialize params''), s)
      | Some params \<Rightarrow> (case finish_initialize L params s of (r, s') \<Rightarrow> (Inr r, s')))"

section \<open>Responses\<close>

definition result_response :: "json \<Rightarrow> reply \<Rightarrow> response" where
  "result_response ident r = \<lparr>rr_jsonrpc = ''2.0'', rr_id = ident, rr_result = Some r, rr_error = None\<rparr>"

definition error_response :: "json \<Rightarrow> rpc_error \<Rightarrow> response" where
  "error_response ident e = \<lparr>rr_jsonrpc = ''2.0'', rr_id = ident, rr_result = None, rr_error = Some e\<rparr>"

definition respond :: "json \<Rightarrow> ('a \<Rightarrow> reply) \<Rightarrow> (rpc_error, 'a) result \<Rightarrow> response" where
  "respond ident f r = (case r of Inl e \<Rightarrow> error_response ident e | Inr a \<Rightarrow> result_response ident (f a))"

section \<open>Tool calls\<close>

text \<open>\<open>runtimeCancellationEnvelope\<close>. An error is \<open>context.DeadlineExceeded\<close> or \<open>context.Canceled\<close> when the
  handler reports it, or when the call ended while waiting for a slot, by the state of its context.\<close>

definition is_deadline :: "ctx_state \<Rightarrow> call_error \<Rightarrow> bool" where
  "is_deadline ctx e \<longleftrightarrow> e = HandlerError HandlerDeadline \<or> (e = FamilyTimeout \<and> ctx = CtxDeadline)"

definition is_cancelled :: "ctx_state \<Rightarrow> call_error \<Rightarrow> bool" where
  "is_cancelled ctx e \<longleftrightarrow> e = HandlerError HandlerCancelled \<or> (e = FamilyTimeout \<and> ctx = CtxCancelled)"

definition cancellation_envelope :: "string \<Rightarrow> string \<Rightarrow> string \<Rightarrow> string \<Rightarrow> json" where
  "cancellation_envelope tool code text hint =
     JObj [(''ok'', JBool False), (''action'', JStr tool),
       (''error'', JObj [(''code'', JStr code), (''message'', JStr text)]),
       (''recovery'', JObj [(''hint'', JStr hint), (''retryable'', JBool True)])]"

definition runtime_cancellation_envelope :: "string \<Rightarrow> string \<Rightarrow> ctx_state \<Rightarrow> call_error \<Rightarrow> json option" where
  "runtime_cancellation_envelope tool text ctx e =
     (if is_deadline ctx e
      then Some (cancellation_envelope tool ''timeout'' text
        ''The tool exceeded CLOCKIFY_TOOL_TIMEOUT before Clockify returned. Retry with a narrower request, check Clockify availability, or increase CLOCKIFY_TOOL_TIMEOUT for legitimately long operations.'')
      else if is_cancelled ctx e
      then Some (cancellation_envelope tool ''cancelled'' text
        ''The tool was cancelled before completion. Retry when the client is ready to keep the request open.'')
      else None)"

definition unknown_tool_text :: "string \<Rightarrow> string" where
  "unknown_tool_text name = (if trim_space name = [] then ''unknown tool'' else ''unknown tool: '' @ name)"

text \<open>The \<open>Error\<close> methods; the texts of wrapped errors come from outside.\<close>

fun call_error_text :: "session_lib \<Rightarrow> call_error \<Rightarrow> string" where
  "call_error_text L (InvalidParams (ptr, msg)) =
     (if ptr = [] then ''invalid params: '' @ sl_schema_text L msg
      else ''invalid params at '' @ ptr @ '': '' @ sl_schema_text L msg)"
| "call_error_text L (UnknownTool name) = unknown_tool_text name"
| "call_error_text L e = sl_error_text L e"

text \<open>How \<open>handle\<close> turns the error of a call into a response.\<close>

definition call_error_response :: "session_lib \<Rightarrow> json \<Rightarrow> string \<Rightarrow> ctx_state \<Rightarrow> call_error \<Rightarrow> response" where
  "call_error_response L ident tool ctx e =
     (case e of
        InvalidParams (ptr, msg) \<Rightarrow>
          error_response ident
            \<lparr>re_code = - 32602, re_message = call_error_text L e,
             re_data = (if ptr \<noteq> [] then [(''pointer'', JStr ptr)] else [])\<rparr>
      | UnknownTool name \<Rightarrow> error_response ident (rpc_err (- 32602) (call_error_text L e))
      | _ \<Rightarrow>
          result_response ident (RToolError (call_error_text L e)
            (case runtime_cancellation_envelope tool (call_error_text L e) ctx e of
               Some v \<Rightarrow> Some v
             | None \<Rightarrow> map_option (\<lambda>t. JObj [(''error_translation'', t)]) (sl_translation L e))))"

text \<open>\<open>tools/call\<close> up to \<open>callTool\<close> (\<open>None\<close>: a panic) and after it. \<open>c\<close> is the context of the call.\<close>

definition begin_tools_call ::
  "session_lib \<Rightarrow> nat \<Rightarrow> ('w, 'n) session \<Rightarrow> rpc_request \<Rightarrow>
   (rpc_error, tool_call_params \<times> ('w, 'n) session) result option" where
  "begin_tools_call L c s req =
     (case tool_call_params (rq_params req) of
        Inl e \<Rightarrow> Some (Inl (rpc_err (- 32602) e))
      | Inr p \<Rightarrow>
          if trim_space (cp_name p) = []
          then Some (Inl (rpc_err (- 32602) ''invalid tools/call params: name must be a non-empty string''))
          else map_option
            (\<lambda>b. case b of
                Inl e \<Rightarrow> Inl (rpc_err (- 32602) (''invalid tools/call params: '' @ e))
              | Inr st \<Rightarrow> Inr (p, s\<lparr>ss_calls := st\<rparr>))
            (begin_call (sl_show_g L) (sl_show_v L) (rq_id req) (cp_token p) c (ss_calls s)))"

definition tool_response ::
  "session_lib \<Rightarrow> nat \<Rightarrow> ctx_state \<Rightarrow> ('w, 'n) session \<Rightarrow> json \<Rightarrow> tool_call_params \<Rightarrow> call_result \<Rightarrow> response" where
  "tool_response L c ctx s ident p r =
     (case r of
        Inl e \<Rightarrow>
          if if_causes (ss_calls s) c = Some ExplicitCancellation then no_response
          else call_error_response L ident (cp_name p) ctx e
      | Inr v \<Rightarrow>
          result_response ident
            (REnvelope (result_envelope_guarded (sl_enc L) (sl_dec L) (sl_enc_error L) (cp_name p) v (ss_max_result s))))"

definition end_tools_call ::
  "session_lib \<Rightarrow> nat \<Rightarrow> ('w, 'n) session \<Rightarrow> json \<Rightarrow> tool_call_params \<Rightarrow> ('w, 'n) session option" where
  "end_tools_call L c s ident p =
     map_option (\<lambda>st. s\<lparr>ss_calls := st\<rparr>)
       (end_call (sl_show_g L) (sl_show_v L) ident (cp_token p) c (ss_calls s))"

text \<open>A whole \<open>tools/call\<close> when nothing runs in between; \<open>None\<close>: it waits or panics.\<close>

definition run_tools_call ::
  "session_lib \<Rightarrow> call_env \<Rightarrow> nat \<Rightarrow> ('w, 'n) session \<Rightarrow> rpc_request \<Rightarrow> (response \<times> ('w, 'n) session) option" where
  "run_tools_call L env c s req =
     (case begin_tools_call L c s req of
        None \<Rightarrow> None
      | Some (Inl e) \<Rightarrow> Some (error_response (rq_id req) e, s)
      | Some (Inr (p, s1)) \<Rightarrow>
          (case call_tool (sl_dispatch L) env (ss_server s1) (cp_name p) (cp_args p) of
             (None, sv) \<Rightarrow> None
           | (Some r, sv) \<Rightarrow>
               (let s2 = s1\<lparr>ss_server := sv\<rparr> in
                map_option (\<lambda>s3. (tool_response L c (ce_ctx env) s2 (rq_id req) p r, s3))
                  (end_tools_call L c s2 (rq_id req) p))))"

section \<open>Handle\<close>

definition not_initialized_error :: rpc_error where
  "not_initialized_error =
     rpc_err code_server_not_initialized ''server not initialized: send initialize first''"

definition with_subs :: "('w, 'n) session \<Rightarrow> ('e \<times> 'n subscriptions) \<Rightarrow> 'e \<times> ('w, 'n) session" where
  "with_subs s r = (fst r, s\<lparr>ss_subs := snd r\<rparr>)"

definition handle_tools_list_request ::
  "('w, 'n) session \<Rightarrow> json \<Rightarrow> (rpc_error, tool list \<times> string) result \<times> ('w, 'n) session" where
  "handle_tools_list_request s raw =
     (case handle_tools_list (sv_registry (ss_server s)) raw of
        (r, rg) \<Rightarrow> (r, s\<lparr>ss_server := (ss_server s)\<lparr>sv_registry := rg\<rparr>\<rparr>))"

definition handle ::
  "session_lib \<Rightarrow> call_env \<Rightarrow> nat \<Rightarrow> 'n subscriber option \<Rightarrow> ('w, 'n) session \<Rightarrow> rpc_request \<Rightarrow>
   (response \<times> ('w, 'n) session) option" where
  "handle L env c caller s req =
     (let ident = rq_id req; raw = rq_params req; meth = rq_method req;
          provider = sl_resources L
      in
      if requires_initialized meth \<and> \<not> ss_initialized s
      then Some (error_response ident not_initialized_error, s)
      else if meth = ''initialize''
      then (case handle_initialize_strict L raw s of (r, s') \<Rightarrow> Some (respond ident RJson r, s'))
      else if meth = ''notifications/initialized'' then Some (no_response, s)
      else if meth = ''notifications/cancelled''
      then map_option (\<lambda>st. (no_response, s\<lparr>ss_calls := st\<rparr>)) (handle_cancelled (sl_show_g L) raw (ss_calls s))
      else if meth = ''ping'' then Some (result_response ident (RJson (JObj [])), s)
      else if meth = ''tools/list''
      then (case handle_tools_list_request s raw of
              (r, s') \<Rightarrow> Some (respond ident (\<lambda>(ts, next_cursor). RToolPage ts next_cursor) r, s'))
      else if meth = ''resources/list''
      then Some (respond ident RJson
             (handle_resources_list ''resources/list'' ''resources'' (map_option rp_list provider)), s)
      else if meth = ''resources/read''
      then Some (respond ident RJson (handle_resources_read (map_option rp_read provider) raw), s)
      else if meth = ''resources/templates/list''
      then Some (respond ident RJson
             (handle_resources_list ''resources/templates/list'' ''resourceTemplates''
                (map_option rp_templates provider)), s)
      else if meth = ''resources/subscribe''
      then (case with_subs s (handle_resources_subscribe (provider \<noteq> None) (ss_subs s) caller raw) of
              (r, s') \<Rightarrow> Some (respond ident RJson r, s'))
      else if meth = ''resources/unsubscribe''
      then (case with_subs s (handle_resources_unsubscribe (provider \<noteq> None) (ss_subs s) caller raw) of
              (r, s') \<Rightarrow> Some (respond ident RJson r, s'))
      else if meth = ''prompts/list''
      then Some (result_response ident (RPrompts (list_prompts (ss_prompts s))), s)
      else if meth = ''prompts/get''
      then Some (respond ident (\<lambda>(desc, msgs). RPrompt desc msgs)
             (handle_prompts_get (sl_show_v L) (sl_quote L) (sl_reparse L) (ss_prompts s) raw), s)
      else if meth = ''tools/call'' then run_tools_call L env c s req
      else Some (error_response ident (rpc_err (- 32601) (''method not found: '' @ meth)), s))"

section \<open>Messages\<close>

definition cached_tools_list ::
  "session_lib \<Rightarrow> ('w, 'n) session \<Rightarrow> rpc_request \<Rightarrow> string option option \<times> ('w, 'n) session" where
  "cached_tools_list L s req =
     (case try_cached_tools_list (sl_enc_page L) (sl_enc L) (ss_initialized s) (sv_registry (ss_server s)) req of
        (out, rg) \<Rightarrow> (out, s\<lparr>ss_server := (ss_server s)\<lparr>sv_registry := rg\<rparr>\<rparr>))"

definition parse_error :: rpc_error where
  "parse_error = rpc_err (- 32700) ''invalid JSON''"

definition emit :: "session_lib \<Rightarrow> response \<Rightarrow> (unit, string option) result" where
  "emit L resp = (case sl_enc_response L resp of None \<Rightarrow> Inl () | Some b \<Rightarrow> Inr (Some b))"

text \<open>\<open>DispatchMessage\<close>: \<open>Inl\<close> an error, \<open>Inr None\<close> nothing to send; outer \<open>None\<close>: a panic or a wait.\<close>

definition dispatch_message ::
  "session_lib \<Rightarrow> call_env \<Rightarrow> nat \<Rightarrow> 'n subscriber option \<Rightarrow> ('w, 'n) session \<Rightarrow> string \<Rightarrow>
   ((unit, string option) result \<times> ('w, 'n) session) option" where
  "dispatch_message L env c caller s msg =
     (case sl_parse L msg of
        None \<Rightarrow> Some (emit L (error_response JNull parse_error), s)
      | Some req \<Rightarrow>
          (case validate_request req of
             Some e \<Rightarrow> Some (emit L (error_response (rq_id req) e), s)
           | None \<Rightarrow>
               (case cached_tools_list L s req of
                  (Some None, s1) \<Rightarrow> Some (Inl (), s1)
                | (Some (Some out), s1) \<Rightarrow> Some (Inr (Some out), s1)
                | (None, s1) \<Rightarrow>
                    map_option
                      (\<lambda>(resp, s2). (if rq_id req = JNull \<or> rr_jsonrpc resp = [] then Inr None else emit L resp, s2))
                      (handle L env c caller s1 req))))"

text \<open>What \<open>Run\<close> does with a line: it writes a line, hands the request to a goroutine, or stops with an
  error. A panic of \<open>handle\<close> on the loop itself is not recovered (\<open>None\<close>).\<close>

datatype line_action = NoOutput | WriteLine string | Spawn rpc_request | StopRun

definition write_response :: "session_lib \<Rightarrow> response \<Rightarrow> line_action" where
  "write_response L resp = (case sl_enc_response L resp of None \<Rightarrow> StopRun | Some b \<Rightarrow> WriteLine (b @ [CHR 0x0A]))"

definition run_line ::
  "session_lib \<Rightarrow> call_env \<Rightarrow> nat \<Rightarrow> 'n subscriber option \<Rightarrow> ('w, 'n) session \<Rightarrow> string \<Rightarrow>
   (line_action \<times> ('w, 'n) session) option" where
  "run_line L env c caller s line =
     (if trim_space line = [] then Some (NoOutput, s)
      else (case sl_parse L line of
        None \<Rightarrow> Some (write_response L (error_response JNull parse_error), s)
      | Some req \<Rightarrow>
          (case validate_request req of
             Some e \<Rightarrow> Some (write_response L (error_response (rq_id req) e), s)
           | None \<Rightarrow>
               if rq_method req = ''tools/call'' then Some (Spawn req, s)
               else (case cached_tools_list L s req of
                  (Some None, s1) \<Rightarrow> Some (StopRun, s1)
                | (Some (Some out), s1) \<Rightarrow> Some (WriteLine (out @ [CHR 0x0A]), s1)
                | (None, s1) \<Rightarrow>
                    if dispatch_async_request (rq_method req) \<and> rq_id req \<noteq> JNull then Some (Spawn req, s1)
                    else map_option
                      (\<lambda>(resp, s2). (if rq_id req = JNull then NoOutput else write_response L resp, s2))
                      (handle L env c caller s1 req)))))"

text \<open>What the goroutine of a spawned request writes once it has its response.\<close>

definition spawned_output :: "session_lib \<Rightarrow> rpc_request \<Rightarrow> response \<Rightarrow> line_action" where
  "spawned_output L req resp =
     (if rq_method req = ''tools/call'' \<and> (rq_id req = JNull \<or> rr_jsonrpc resp = []) then NoOutput
      else write_response L resp)"

section \<open>Version negotiation\<close>

text \<open>Negotiation: \<open>initialize\<close> with decodable params always succeeds and leaves the session
  initialized with a version this server supports, the one it answers; a supported version that the client asks for
  is the one chosen, and a repeat \<open>initialize\<close> leaves no call cancellable, marks the calls that were
  running as reset, and empties the tool list caches.\<close>

lemma initialize_negotiates:
  assumes "handle_initialize_strict L raw s = (Inr result, s')"
  shows "ss_initialized s' \<and> ss_negotiated s' \<in> set supported_versions \<and>
    (\<exists>rest. result = JObj ((''protocolVersion'', JStr (ss_negotiated s')) # rest)) \<and>
    (\<exists>version info. initialize_params (sl_reparse L) raw = Some (version, info) \<and>
       ss_negotiated s' =
         (if trim_space version \<in> set supported_versions then trim_space version
          else if trim_space version = [] \<and> is_supported_version (ss_default_version s)
          then trim_space (ss_default_version s) else ''2025-11-25'')) \<and>
    \<not> (ss_initialized s \<and>
       \<not> (if_calls (ss_calls s') = Map.empty \<and>
          if_causes (ss_calls s') = (\<lambda>c. if c \<in> ran (if_calls (ss_calls s)) \<and> if_causes (ss_calls s) c = None
                                        then Some SessionReset else if_causes (ss_calls s) c) \<and>
          \<not> rg_list_valid (sv_registry (ss_server s')) \<and> \<not> rg_json_valid (sv_registry (ss_server s'))))"
proof -
  obtain version info where p: "initialize_params (sl_reparse L) raw = Some (version, info)"
    and f: "finish_initialize L (version, info) s = (result, s')"
    using assms by (auto simp: handle_initialize_strict_def split: option.splits prod.splits)
  have e: "[] \<notin> set supported_versions" and h: "hd supported_versions = ''2025-11-25''"
    and h': "''2025-11-25'' \<in> set supported_versions"
    by (simp_all add: supported_versions_def)
  have n: "negotiate_version version d =
      (if trim_space version \<in> set supported_versions then trim_space version
       else if trim_space version = [] \<and> is_supported_version d then trim_space d else ''2025-11-25'')" for d
    using e by (simp add: negotiate_version_def default_version_def is_supported_version_def trim_space_twice Let_def h)
  have i: "negotiate_version version d \<in> set supported_versions" for d
    unfolding n using h' by (simp add: is_supported_version_def)
  have "ss_initialized s'" "ss_negotiated s' = negotiate_version version (ss_default_version s)"
    and "\<exists>rest. result = JObj ((''protocolVersion'', JStr (ss_negotiated s')) # rest)"
    using f by (auto simp: finish_initialize_def Let_def)
  moreover have "if_calls (ss_calls s') = Map.empty \<and>
      if_causes (ss_calls s') = (\<lambda>c. if c \<in> ran (if_calls (ss_calls s)) \<and> if_causes (ss_calls s) c = None
                                    then Some SessionReset else if_causes (ss_calls s) c) \<and>
      \<not> rg_list_valid (sv_registry (ss_server s')) \<and> \<not> rg_json_valid (sv_registry (ss_server s'))"
    if "ss_initialized s"
    using f that by (auto simp: finish_initialize_def Let_def cancel_all_inflight_def invalidate_tool_list_def)
  moreover have "\<exists>v i. initialize_params (sl_reparse L) raw = Some (v, i) \<and>
      negotiate_version version (ss_default_version s) =
        (if trim_space v \<in> set supported_versions then trim_space v
         else if trim_space v = [] \<and> is_supported_version (ss_default_version s)
         then trim_space (ss_default_version s) else ''2025-11-25'')"
    by (intro exI [of _ version] exI [of _ info] conjI p n)
  ultimately show ?thesis using i [of "ss_default_version s"] by simp
qed

section \<open>The handshake\<close>

text \<open>What every message is answered before \<open>initialize\<close> has succeeded.\<close>

definition early_answer :: "session_lib \<Rightarrow> string \<Rightarrow> (unit, string option) result" where
  "early_answer L msg =
     (case sl_parse L msg of
        None \<Rightarrow> emit L (error_response JNull parse_error)
      | Some req \<Rightarrow>
          (case validate_request req of
             Some e \<Rightarrow> emit L (error_response (rq_id req) e)
           | None \<Rightarrow>
               if rq_id req = JNull \<or> rq_method req \<in> set [''notifications/initialized'', ''notifications/cancelled'']
               then Inr None
               else if rq_method req = ''ping'' then emit L (result_response (rq_id req) (RJson (JObj [])))
               else emit L (error_response (rq_id req) not_initialized_error)))"

fun dispatch_all ::
  "session_lib \<Rightarrow> 'n subscriber option \<Rightarrow> ('w, 'n) session \<Rightarrow> (call_env \<times> nat \<times> string) list \<Rightarrow>
   ((unit, string option) result list \<times> ('w, 'n) session) option" where
  "dispatch_all L caller s [] = Some ([], s)"
| "dispatch_all L caller s ((env, c, msg) # ms) =
     (case dispatch_message L env c caller s msg of
        None \<Rightarrow> None
      | Some (out, s1) \<Rightarrow> map_option (\<lambda>(outs, s2). (out # outs, s2)) (dispatch_all L caller s1 ms))"

definition is_initialize :: "session_lib \<Rightarrow> string \<Rightarrow> bool" where
  "is_initialize L msg \<longleftrightarrow> (case sl_parse L msg of None \<Rightarrow> False | Some req \<Rightarrow> rq_method req = ''initialize'')"

lemma early_message:
  assumes "\<not> ss_initialized s" "\<not> is_initialize L msg" "dispatch_message L env c caller s msg = Some (out, s')"
  shows "out = early_answer L msg \<and> \<not> ss_initialized s' \<and> ss_server s' = ss_server s \<and> ss_subs s' = ss_subs s"
proof (cases "sl_parse L msg")
  case None
  with assms(3) show ?thesis using assms(1) by (simp add: dispatch_message_def early_answer_def)
next
  case (Some req)
  show ?thesis
  proof (cases "validate_request req")
    case (Some e)
    with assms(1,3) \<open>sl_parse L msg = Some req\<close> show ?thesis by (simp add: dispatch_message_def early_answer_def)
  next
    case None
    have c: "cached_tools_list L s req = (None, s)"
      using assms(1) by (simp add: cached_tools_list_def try_cached_tools_list_def)
    have h: "handle L env c caller s req =
        (if rq_method req = ''notifications/initialized'' then Some (no_response, s)
         else if rq_method req = ''notifications/cancelled''
         then map_option (\<lambda>st. (no_response, s\<lparr>ss_calls := st\<rparr>)) (handle_cancelled (sl_show_g L) (rq_params req) (ss_calls s))
         else if rq_method req = ''ping'' then Some (result_response (rq_id req) (RJson (JObj [])), s)
         else Some (error_response (rq_id req) not_initialized_error, s))"
      using assms(1,2) Some by (auto simp: handle_def Let_def requires_initialized_def is_initialize_def)
    show ?thesis
      using assms(1,3) Some None c h
      by (auto simp: dispatch_message_def early_answer_def no_response_def result_response_def error_response_def
          split: if_splits)
  qed
qed

text \<open>C11 (nothing happens before the handshake): as long as no \<open>initialize\<close> message has come, every
  message that \<open>DispatchMessage\<close> processes is answered as \<open>early_answer\<close> says (an error of code
  -32002 for every method but \<open>ping\<close>), no tool, resource or prompt handler runs, no state of the
  server changes, and the session stays uninitialized.\<close>

theorem handshake_required:
  assumes "\<not> ss_initialized s" and "list_all (\<lambda>(env, c, msg). \<not> is_initialize L msg) ms"
    and "dispatch_all L caller s ms = Some (outs, s')"
  shows "outs = map (\<lambda>(env, c, msg). early_answer L msg) ms \<and> \<not> ss_initialized s' \<and>
    ss_server s' = ss_server s \<and> ss_subs s' = ss_subs s"
  using assms
proof (induction ms arbitrary: s outs)
  case (Cons m ms)
  obtain env c msg where m: "m = (env, c, msg)" by (cases m) auto
  from Cons.prems(3) obtain out s1 outs' where
    d: "dispatch_message L env c caller s msg = Some (out, s1)"
    and r: "dispatch_all L caller s1 ms = Some (outs', s')" and o: "outs = out # outs'"
    by (auto simp: m split: option.splits prod.splits)
  from early_message [OF Cons.prems(1) _ d] Cons.prems(2) m
  have e: "out = early_answer L msg" "\<not> ss_initialized s1" "ss_server s1 = ss_server s" "ss_subs s1 = ss_subs s"
    by simp_all
  from Cons.IH [OF e(2) _ r] Cons.prems(2) e m o show ?case by simp
qed simp

section \<open>One answer for a request\<close>

lemma handle_cancelled_causes:
  "handle_cancelled show_g raw st = Some st' \<Longrightarrow> if_causes st' c = None \<Longrightarrow> if_causes st c = None"
  by (auto simp: handle_cancelled_def cancel_inflight_def cancel_ctx_def Let_def split: json.splits option.splits if_splits)

definition answers :: "rpc_request \<Rightarrow> response \<Rightarrow> bool" where
  "answers req resp \<longleftrightarrow> rr_jsonrpc resp = ''2.0'' \<and> rr_id resp = rq_id req \<and>
     (rr_result resp = None) = (rr_error resp \<noteq> None)"

lemma answers_simps [simp]:
  "answers req (result_response (rq_id req) r)" "answers req (error_response (rq_id req) e)"
  by (simp_all add: answers_def result_response_def error_response_def)

lemma answers_respond [simp]: "answers req (respond (rq_id req) f x)"
  by (cases x) (simp_all add: respond_def)

lemma answers_call_error: "answers req (call_error_response L (rq_id req) tool ctx e)"
  by (cases e) (auto simp: call_error_response_def split: prod.splits)

lemma begin_call_causes:
  "begin_call show_g show_v ident t c st = Some (Inr st') \<Longrightarrow> if_causes st' = if_causes st"
  by (auto simp: begin_call_def register_inflight_def register_progress_token_def Let_def
      split: option.splits sum.splits if_splits)

lemma begin_tools_call_begun:
  "begin_tools_call L c s req = Some (Inr (p, s1)) \<Longrightarrow>
     \<exists>st. begin_call (sl_show_g L) (sl_show_v L) (rq_id req) (cp_token p) c (ss_calls s) = Some (Inr st) \<and>
       s1 = s\<lparr>ss_calls := st\<rparr>"
proof -
  assume a: "begin_tools_call L c s req = Some (Inr (p, s1))"
  then obtain q where q: "tool_call_params (rq_params req) = Inr q" "trim_space (cp_name q) \<noteq> []"
    by (auto simp: begin_tools_call_def split: sum.splits if_splits)
  with a obtain b where b: "begin_call (sl_show_g L) (sl_show_v L) (rq_id req) (cp_token q) c (ss_calls s) = Some b"
    by (auto simp: begin_tools_call_def)
  with a q show ?thesis by (cases b) (auto simp: begin_tools_call_def)
qed

lemma run_tools_call_answers:
  assumes "if_causes (ss_calls s) c = None" and "run_tools_call L env c s req = Some (resp, s')"
  shows "answers req resp"
proof -
  from assms(2) obtain b where b: "begin_tools_call L c s req = Some b"
    by (auto simp: run_tools_call_def split: option.splits)
  show ?thesis
  proof (cases b)
    case (Inl e)
    with assms(2) b show ?thesis by (auto simp: run_tools_call_def)
  next
    case (Inr ps)
    obtain p s1 where ps: "ps = (p, s1)" by force
    obtain r sv where ct: "call_tool (sl_dispatch L) env (ss_server s1) (cp_name p) (cp_args p) = (r, sv)" by force
    from assms(2) b Inr ps ct obtain q where r: "r = Some q"
      and resp: "resp = tool_response L c (ce_ctx env) (s1\<lparr>ss_server := sv\<rparr>) (rq_id req) p q"
      by (auto simp: run_tools_call_def Let_def split: option.splits)
    have "if_causes (ss_calls s1) c = None"
      using begin_tools_call_begun [of L c s req p s1] b Inr ps assms(1) begin_call_causes by force
    then show ?thesis by (auto simp: resp tool_response_def answers_call_error split: sum.splits)
  qed
qed

theorem handle_answers:
  assumes "if_causes (ss_calls s) c = None" and "handle L env c caller s req = Some (resp, s')"
  shows "if rq_method req \<in> set [''notifications/initialized'', ''notifications/cancelled''] then resp = no_response
    else answers req resp"
proof -
  show ?thesis
    using assms run_tools_call_answers [OF assms(1)]
    by (auto simp: handle_def Let_def requires_initialized_def split: if_splits prod.splits)
qed

text \<open>Which requests a panic or a wait keeps without a response.\<close>

lemma begin_call_total:
  assumes "ident = JNull \<or> (\<exists>x. ident = JStr x) \<or> (\<exists>x. ident = JFlt x) \<or> (\<exists>x. ident = JNum x)"
  shows "begin_call show_g show_v ident t c st \<noteq> None"
  using assms
  by (auto simp: begin_call_def register_inflight_def rpc_id_key_def split: option.splits sum.splits if_splits)

lemma validated_id: "validate_request req = None \<Longrightarrow>
     rq_id req = JNull \<or> (\<exists>x. rq_id req = JStr x) \<or> (\<exists>x. rq_id req = JFlt x) \<or> (\<exists>x. rq_id req = JNum x)"
  by (auto simp: validate_request_def split: if_splits json.splits)

definition silent_request :: "rpc_request \<Rightarrow> bool" where
  "silent_request req \<longleftrightarrow> validate_request req = None \<and>
     (rq_id req = JNull \<or> rq_method req \<in> set [''notifications/initialized'', ''notifications/cancelled''])"

text \<open>The bytes of an answer: an encoded response for this request, or the assembled answer of the fast
  path for \<open>tools/list\<close>.\<close>

definition wire_answer :: "session_lib \<Rightarrow> rpc_request \<Rightarrow> string \<Rightarrow> bool" where
  "wire_answer L req b \<longleftrightarrow>
     (\<exists>resp. answers req resp \<and> sl_enc_response L resp = Some b) \<or>
     (rq_method req = ''tools/list'' \<and>
      (\<exists>idb result. sl_enc L (rq_id req) = Some idb \<and>
         b = ''{\"jsonrpc\":\"2.0\",\"id\":'' @ idb @ '',\"result\":'' @ result @ ''}''))"

lemma cached_request:
  "cached_tools_list L s req = (Some bytes, s1) \<Longrightarrow> rq_id req \<noteq> JNull \<and> rq_method req = ''tools/list''"
  by (auto simp: cached_tools_list_def try_cached_tools_list_def split: prod.splits if_splits)

lemma cached_wire_answer:
  assumes "cached_tools_list L s req = (Some (Some b), s1)"
  shows "wire_answer L req b"
proof -
  obtain rg where t: "try_cached_tools_list (sl_enc_page L) (sl_enc L) (ss_initialized s)
      (sv_registry (ss_server s)) req = (Some (Some b), rg)"
    using assms by (auto simp: cached_tools_list_def split: prod.splits)
  then show ?thesis
    by (auto simp: try_cached_tools_list_def marshal_cached_response_def wire_answer_def Let_def
        split: if_splits prod.splits option.splits)
qed

lemma emit_answer: "answers req resp \<Longrightarrow> emit L resp = Inr (Some b) \<Longrightarrow> wire_answer L req b"
  by (auto simp: emit_def wire_answer_def split: option.splits)

lemma emit_not_None: "emit L resp \<noteq> Inr None"
  by (simp add: emit_def split: option.splits)


section \<open>Cancelled calls\<close>

lemma begin_call_registers:
  "begin_call show_g show_v ident t c st = Some (Inr st') \<Longrightarrow> ident \<noteq> JNull \<Longrightarrow>
     if_calls st' = (if_calls st)(rpc_id_key show_g ident \<mapsto> c)"
  by (auto simp: begin_call_def register_inflight_def register_progress_token_def Let_def
      split: option.splits sum.splits if_splits)

lemma cancelled_cause:
  assumes "handle_cancelled show_g (JObj m) st = Some st'" and "if_causes st c = None"
    and "\<And>k. if_calls st k = Some c \<longleftrightarrow> k = key"
  shows "if_causes st' c = Some ExplicitCancellation \<longleftrightarrow>
    (\<exists>v. map_of m ''requestId'' = Some v \<and> v \<noteq> JNull \<and> rpc_id_key show_g v = key)"
proof (cases "map_of m ''requestId''")
  case None
  with assms show ?thesis by (simp add: handle_cancelled_def)
next
  case (Some v)
  show ?thesis
  proof (cases "v = JNull")
    case True
    with Some assms show ?thesis by (simp add: handle_cancelled_def)
  next
    case False
    with Some assms(1) obtain b where ci: "cancel_inflight show_g v st = Some (b, st')"
      by (cases v) (auto simp: handle_cancelled_def)
    then have "if_causes st' c =
        (if if_calls st (rpc_id_key show_g v) = Some c then Some ExplicitCancellation else None)"
      using False assms(2) by (auto simp: cancel_inflight_def cancel_ctx_def Let_def split: option.splits if_splits)
    with Some False assms(3) show ?thesis by auto
  qed
qed

lemma call_error_not_silent: "call_error_response L ident tool ctx e \<noteq> no_response"
proof -
  have "answers \<lparr>rq_jsonrpc = [], rq_id = ident, rq_method = [], rq_params = JNull\<rparr> (call_error_response L ident tool ctx e)"
    using answers_call_error [of "\<lparr>rq_jsonrpc = [], rq_id = ident, rq_method = [], rq_params = JNull\<rparr>"] by simp
  then show ?thesis by (auto simp: answers_def no_response_def)
qed


section \<open>A session to run\<close>

definition demo_session_lib :: session_lib where
  "demo_session_lib =
     \<lparr>sl_dispatch = demo_lib, sl_show_g = (\<lambda>_. []), sl_show_v = (\<lambda>_. []), sl_quote = id, sl_reparse = Some,
      sl_enc = (\<lambda>_. Some ''0''), sl_dec = (\<lambda>_. None), sl_enc_page = (\<lambda>_. Some ''{}''),
      sl_enc_response = (\<lambda>r. Some (rr_jsonrpc r)),
      sl_parse = (\<lambda>msg. Some \<lparr>rq_jsonrpc = ''2.0'', rq_id = JNum ''1'', rq_method = msg, rq_params = JNull\<rparr>),
      sl_enc_error = [], sl_schema_text = (\<lambda>_. []), sl_error_text = (\<lambda>_. []), sl_translation = (\<lambda>_. None),
      sl_resources = None\<rparr>"

definition demo_session :: "(unit, unit) session" where
  "demo_session = new_session ''1'' [demo_tool] Map.empty ()"

definition demo_call_request :: rpc_request where
  "demo_call_request = \<lparr>rq_jsonrpc = ''2.0'', rq_id = JNum ''1'', rq_method = ''tools/call'',
     rq_params = JObj [(''name'', JStr ''risky'')]\<rparr>"

lemma demo_trim: "trim_space ''risky'' = ''risky''" "trim_space ''ping'' = ''ping''" "trim_space ''tools/list'' = ''tools/list''"
  "trim_space ''2024-11-05'' = ''2024-11-05''"
  by code_simp+

lemma initialize_negotiates_witness:
  "ss_negotiated (snd (handle_initialize_strict demo_session_lib
     (JObj [(''protocolVersion'', JStr ''2024-11-05'')]) demo_session)) \<in> set supported_versions"
proof -
  have f: "field_values ''protocolVersion'' [(''protocolVersion'', JStr ''2024-11-05'')] = [JStr ''2024-11-05'']"
    "field_values ''capabilities'' [(''protocolVersion'', JStr ''2024-11-05'')] = []"
    "field_values ''clientInfo'' [(''protocolVersion'', JStr ''2024-11-05'')] = []"
    "field_values ''_meta'' [(''protocolVersion'', JStr ''2024-11-05'')] = []"
    by code_simp+
  have "\<exists>result s'. handle_initialize_strict demo_session_lib (JObj [(''protocolVersion'', JStr ''2024-11-05'')])
      demo_session = (Inr result, s')"
    by (simp add: handle_initialize_strict_def initialize_params_def struct_string_def struct_map_def f
        split: prod.split)
  then obtain result s' where h: "handle_initialize_strict demo_session_lib
      (JObj [(''protocolVersion'', JStr ''2024-11-05'')]) demo_session = (Inr result, s')" by blast
  from initialize_negotiates [OF h] show ?thesis by (simp add: h)
qed

lemma handshake_required_witness:
  "dispatch_all demo_session_lib (None :: unit subscriber option) demo_session
     [(demo_env, 0, ''tools/list''), (demo_env, 0, ''ping'')] = Some ([Inr (Some ''2.0''), Inr (Some ''2.0'')], demo_session) \<and>
   [Inr (Some ''2.0''), Inr (Some ''2.0'')] = map (early_answer demo_session_lib) [''tools/list'', ''ping'']"
proof -
  have d: "dispatch_all demo_session_lib (None :: unit subscriber option) demo_session
     [(demo_env, 0, ''tools/list''), (demo_env, 0, ''ping'')] = Some ([Inr (Some ''2.0''), Inr (Some ''2.0'')], demo_session)"
    by (simp add: dispatch_message_def demo_session_lib_def validate_request_def demo_trim cached_tools_list_def
        try_cached_tools_list_def handle_def requires_initialized_def Let_def demo_session_def new_session_def
        emit_def error_response_def result_response_def)
  have "\<not> ss_initialized demo_session" by (simp add: demo_session_def new_session_def)
  moreover have "list_all (\<lambda>(env, c, msg). \<not> is_initialize demo_session_lib msg)
      [(demo_env, 0, ''tools/list''), (demo_env, 0, ''ping'')]"
    by (simp add: is_initialize_def demo_session_lib_def)
  ultimately have "[Inr (Some ''2.0''), Inr (Some ''2.0'')] =
      map (\<lambda>(env, c, msg). early_answer demo_session_lib msg) [(demo_env, 0 :: nat, ''tools/list''), (demo_env, 0, ''ping'')]"
    using handshake_required [OF _ _ d] by blast
  then show ?thesis using d by (simp only: list.map prod.case simp_thms)
qed



end
