(* ===== verification/FloatBounds.thy ===== *)
theory FloatBounds
  imports GoFloat
begin

text \<open>
  How far \<open>fl64\<close> is from the value it rounds: the relative error is at most \<open>2 ^ -53\<close> above the
  subnormal range, halves of integers below \<open>2 ^ 52\<close> are exact, and rounding a fraction with a small
  denominator to an integer after \<open>fl64\<close> gives what rounding it exactly gives.
\<close>

lemma pow2_diff: "pow2 (int a - int b) = 2 ^ a / 2 ^ b"
proof (cases "b \<le> a")
  case True
  then have "(2 :: rat) ^ a = 2 ^ (a - b) * 2 ^ b" by (simp flip: power_add)
  with True show ?thesis by (simp add: pow2_def nat_diff_distrib' flip: of_nat_diff)
next
  case False
  then have "(2 :: rat) ^ b = 2 ^ (b - a) * 2 ^ a" by (simp flip: power_add)
  moreover have "nat (int b - int a) = b - a" using False by simp
  ultimately show ?thesis using False by (simp add: pow2_def)
qed

lemma pow2_int: "\<exists>a b. e = int a - int b"
  by (cases e rule: int_diff_cases) auto

lemma pow2_add: "pow2 (d + e) = pow2 d * pow2 e"
proof -
  obtain a b where d: "d = int a - int b" using pow2_int by blast
  obtain a' b' where e: "e = int a' - int b'" using pow2_int by blast
  have "d + e = int (a + a') - int (b + b')" by (simp add: d e)
  then show ?thesis by (simp only: d e pow2_diff) (simp add: pow2_diff power_add)
qed

lemma pow2_mono: "d \<le> e \<Longrightarrow> pow2 d \<le> pow2 e"
proof -
  assume "d \<le> e"
  then have "pow2 e = pow2 d * pow2 (e - d)" using pow2_add [of d "e - d"] by simp
  moreover have "1 \<le> pow2 (e - d)" using \<open>d \<le> e\<close> by (simp add: pow2_def)
  ultimately show ?thesis by simp
qed

lemma pow2_less_imp: "pow2 d < pow2 e \<Longrightarrow> d < e"
  using pow2_mono [of e d] by linarith

lemma rat_log2_le: "0 < x \<Longrightarrow> pow2 (rat_log2 x) \<le> x"
proof -
  assume x: "0 < x"
  obtain p q where pq: "quotient_of x = (p, q)" by force
  have q: "0 < q" using quotient_of_denom_pos [OF pq] .
  have xpq: "x = of_int p / of_int q" using quotient_of_div [OF pq] .
  with x q have p: "0 < p" by (simp add: zero_less_divide_iff)
  define lp lq where "lp = nat_log2 (nat p)" and "lq = nat_log2 (nat q)"
  have "2 ^ lp \<le> nat p" "nat q < 2 ^ Suc lq"
    using nat_log2_bounds [of "nat p"] nat_log2_bounds [of "nat q"] p q by (auto simp: lp_def lq_def)
  then have b: "(2 :: rat) ^ lp \<le> of_int p" "of_int q \<le> (2 :: rat) ^ Suc lq"
    using p q by (metis of_int_le_iff of_int_power of_int_numeral of_nat_le_iff of_nat_numeral of_nat_power int_nat_eq
        less_le order.strict_implies_order zle_int)+
  have "pow2 (int lp - int lq - 1) = 2 ^ lp / 2 ^ Suc lq"
    using pow2_diff [of lp "Suc lq"] by (simp add: algebra_simps)
  also have "\<dots> \<le> x" unfolding xpq using b p q by (intro frac_le) (auto simp: less_imp_le)
  finally show ?thesis
    by (auto simp: rat_log2_def pq Let_def simp flip: lp_def lq_def)
qed

lemma round_half_even_error: "\<bar>of_int (round_half_even x) - x\<bar> \<le> 1 / 2"
proof -
  define f where "f = \<lfloor>x\<rfloor>"
  have "of_int f \<le> x" "x < of_int f + 1" unfolding f_def by linarith+
  then show ?thesis by (auto simp: round_half_even_def Let_def abs_if simp flip: f_def)
qed

lemma fl64_error: "\<bar>fl64 x - x\<bar> \<le> max (\<bar>x\<bar> / 2 ^ 53) (1 / 2 ^ 1075)"
proof (cases "x = 0")
  case True
  then show ?thesis by (simp add: fl64_def)
next
  case False
  define e where "e = max (rat_log2 \<bar>x\<bar> - 52) (- 1074)"
  define k where "k = round_half_even (\<bar>x\<bar> / pow2 e)"
  have "fl64 x = sgn x * (of_int k * pow2 e)" using False by (simp add: fl64_def Let_def e_def k_def)
  moreover have "x = sgn x * \<bar>x\<bar>" by (simp add: sgn_mult_abs)
  ultimately have "fl64 x - x = sgn x * (of_int k * pow2 e - \<bar>x\<bar>)" by (metis right_diff_distrib)
  then have "\<bar>fl64 x - x\<bar> = \<bar>of_int k * pow2 e - \<bar>x\<bar>\<bar>" using False by (simp add: abs_mult abs_sgn_eq)
  also have "\<dots> = \<bar>of_int k - \<bar>x\<bar> / pow2 e\<bar> * pow2 e"
  proof -
    have "of_int k * pow2 e - \<bar>x\<bar> = (of_int k - \<bar>x\<bar> / pow2 e) * pow2 e" by (simp add: left_diff_distrib)
    moreover have "\<bar>pow2 e\<bar> = pow2 e" by (simp add: less_imp_le)
    ultimately show ?thesis by (simp only: abs_mult)
  qed
  also have "\<dots> \<le> 1 / 2 * pow2 e"
    using round_half_even_error [of "\<bar>x\<bar> / pow2 e"] by (intro mult_right_mono) (simp_all add: k_def less_imp_le)
  also have "\<dots> \<le> max (\<bar>x\<bar> / 2 ^ 53) (1 / 2 ^ 1075)"
  proof (cases "- 1074 \<le> rat_log2 \<bar>x\<bar> - 52")
    case True
    have "pow2 (rat_log2 \<bar>x\<bar>) \<le> \<bar>x\<bar>" using False by (intro rat_log2_le) simp
    moreover have "pow2 (- 52) = 1 / 2 ^ 52" by (simp add: pow2_def)
    then have "pow2 (rat_log2 \<bar>x\<bar> - 52) = pow2 (rat_log2 \<bar>x\<bar>) / 2 ^ 52"
      using pow2_add [of "rat_log2 \<bar>x\<bar>" "- 52"] by simp
    moreover have "e = rat_log2 \<bar>x\<bar> - 52" using True by (simp add: e_def)
    ultimately have "1 / 2 * pow2 e \<le> \<bar>x\<bar> / 2 ^ 53" by simp
    then show ?thesis by (rule max.coboundedI1)
  next
    case False
    then have "e = - 1074" by (simp add: e_def)
    then have "1 / 2 * pow2 e \<le> 1 / 2 ^ 1075" by (simp add: pow2_def)
    then show ?thesis by (rule max.coboundedI2)
  qed
  finally show ?thesis .
qed

lemma fl64_half:
  assumes "m < 2 ^ 53"
  shows "fl64 (of_nat m / 2) = of_nat m / 2"
proof (cases "m = 0")
  case True
  then show ?thesis by (simp add: fl64_def)
next
  case False
  define x where "x = (of_nat m / 2 :: rat)"
  have x: "0 < x" "x < 2 ^ 52"
  proof -
    have "(of_nat m :: rat) < 2 ^ 53" using assms by (metis of_nat_less_iff of_nat_numeral of_nat_power)
    then show "x < 2 ^ 52" by (simp add: x_def)
    show "0 < x" using False by (simp add: x_def)
  qed
  have "pow2 (rat_log2 x) < pow2 52" using rat_log2_le [OF x(1)] x(2) by (simp add: pow2_def)
  then have l: "rat_log2 x < 52" by (rule pow2_less_imp)
  define e where "e = max (rat_log2 x - 52) (- 1074)"
  have e: "e \<le> - 1" using l by (simp add: e_def)
  have "x / pow2 e = of_int (int m * 2 ^ nat (- e - 1))"
  proof -
    have "nat (- e) = Suc (nat (- e - 1))" using e by simp
    then show ?thesis using e by (simp add: pow2_def x_def)
  qed
  then have "of_int (round_half_even (x / pow2 e)) = x / pow2 e" by (simp only: round_half_even_int)
  then show ?thesis using x by (simp add: fl64_def Let_def flip: x_def e_def)
qed

lemma fl64_ge_0: "0 \<le> x \<Longrightarrow> 0 \<le> fl64 x"
proof (cases "x = 0")
  case False
  assume "0 \<le> x"
  have "0 \<le> round_half_even (x / pow2 e)" for e
  proof -
    have "0 \<le> x / pow2 e" using \<open>0 \<le> x\<close> by (intro divide_nonneg_pos) auto
    then have "0 \<le> \<lfloor>x / pow2 e\<rfloor>" by (simp only: zero_le_floor)
    then show ?thesis by (simp add: round_half_even_def Let_def)
  qed
  with False \<open>0 \<le> x\<close> show ?thesis by (simp add: fl64_def Let_def less_imp_le)
qed (simp add: fl64_def)

lemma go_round_minus: "go_round (- x) = - go_round x"
proof (cases "x = 0")
  case True
  have "\<lfloor>1 / 2 :: rat\<rfloor> = 0" by (simp only: floor_eq_iff) simp
  with True show ?thesis by (simp add: go_round_def)
qed (auto simp: go_round_def)

text \<open>A fraction with the even denominator \<open>2 * d\<close>, rounded to an integer.\<close>

lemma go_round_fl64_ge_0:
  assumes "0 < d" "2 * d * 2 \<le> 2 ^ 53" "0 \<le> p" "p < 2 ^ 53"
  shows "go_round (fl64 (of_int p / of_int (2 * d))) = go_round (of_int p / of_int (2 * d))"
proof -
  define x where "x = (of_int p / of_int (2 * d) :: rat)"
  define y where "y = fl64 x"
  define n where "n = go_round x"
  have x0: "0 \<le> x" using assms by (simp add: x_def)
  have y0: "0 \<le> y" unfolding y_def by (rule fl64_ge_0 [OF x0])
  have n: "of_int n - 1 / 2 \<le> x" "x < of_int n + 1 / 2"
    using x0 by (auto simp: n_def go_round_def) linarith+
  have dp: "(0 :: rat) < of_int (2 * d)" using assms(1) by simp
  have err: "\<bar>y - x\<bar> < 1 / of_int (2 * d)"
  proof -
    have "x < 2 ^ 53 / of_int (2 * d)"
      unfolding x_def using assms(4) dp
      by (intro divide_strict_right_mono) (metis of_int_less_iff of_int_numeral of_int_power, simp)
    then have "\<bar>x\<bar> / 2 ^ 53 < 1 / of_int (2 * d)" using x0 by (simp add: field_simps)
    moreover have "(1 :: rat) / 2 ^ 1075 < 1 / of_int (2 * d)"
    proof -
      have "2 * d \<le> 2 ^ 53" using assms(2) assms(1) by linarith
      also have "(2 :: int) ^ 53 < 2 ^ 1075" by simp
      finally have "(of_int (2 * d) :: rat) < of_int (2 ^ 1075)" by (simp only: of_int_less_iff)
      then show ?thesis using dp by (intro divide_strict_left_mono) simp_all
    qed
    ultimately show ?thesis using fl64_error [of x] unfolding y_def by linarith
  qed
  have up: "y < of_int n + 1 / 2"
  proof -
    have "of_int p < of_int (2 * d) * (of_int n + 1 / 2 :: rat)"
      using n(2) dp unfolding x_def by (simp add: field_simps)
    also have "\<dots> = of_int (2 * d * n + d)" by (simp add: algebra_simps)
    finally have "p \<le> 2 * d * n + d - 1" unfolding of_int_less_iff by linarith
    then have "(of_int p :: rat) \<le> of_int (2 * d * n + d - 1)" by (simp only: of_int_le_iff)
    then have "x \<le> of_int n + 1 / 2 - 1 / of_int (2 * d)"
      using dp unfolding x_def by (simp add: field_simps)
    with err show ?thesis by linarith
  qed
  have low: "of_int n - 1 / 2 \<le> y"
  proof (cases "x = of_int n - 1 / 2")
    case True
    then have x2: "x = of_int (2 * n - 1) / 2" by simp
    with x0 have "0 \<le> 2 * n - 1" by (simp add: zero_le_divide_iff)
    moreover have "2 * n - 1 < 2 ^ 53"
    proof -
      have "x \<le> of_int p / 2" unfolding x_def using assms(1,3) by (intro divide_left_mono) auto
      with x2 have "2 * n - 1 \<le> p" by simp
      with assms(4) show ?thesis by simp
    qed
    ultimately have "fl64 (of_nat (nat (2 * n - 1)) / 2) = of_nat (nat (2 * n - 1)) / 2"
      by (intro fl64_half) (simp add: nat_less_iff)
    moreover have "of_nat (nat (2 * n - 1)) / 2 = x"
      unfolding x2 using \<open>0 \<le> 2 * n - 1\<close> by (simp only: of_nat_nat)
    ultimately have "y = x" unfolding y_def by simp
    with True show ?thesis by simp
  next
    case False
    with n(1) have "of_int (2 * d) * (of_int n - 1 / 2 :: rat) < of_int p"
      using dp unfolding x_def by (simp add: field_simps)
    moreover have "of_int (2 * d) * (of_int n - 1 / 2 :: rat) = of_int (2 * d * n - d)" by (simp add: algebra_simps)
    ultimately have "2 * d * n - d + 1 \<le> p" unfolding of_int_less_iff by linarith
    then have "(of_int (2 * d * n - d + 1) :: rat) \<le> of_int p" by (simp only: of_int_le_iff)
    moreover have "(of_int n - 1 / 2 + 1 / of_int (2 * d)) * of_int (2 * d) = (of_int (2 * d * n - d + 1) :: rat)"
      using dp by (simp add: algebra_simps)
    ultimately have "of_int n - 1 / 2 + 1 / of_int (2 * d) \<le> x"
      unfolding x_def pos_le_divide_eq [OF dp] by simp
    with err show ?thesis by linarith
  qed
  have "\<lfloor>y + 1 / 2\<rfloor> = n" using up low by (simp add: floor_eq_iff)
  then have "go_round y = go_round x" using y0 unfolding n_def [symmetric] by (simp add: go_round_def)
  then show ?thesis unfolding x_def y_def .
qed

lemma go_round_fl64:
  assumes "0 < d" "2 * d * 2 \<le> 2 ^ 53" "\<bar>p\<bar> < 2 ^ 53"
  shows "go_round (fl64 (of_int p / of_int (2 * d))) = go_round (of_int p / of_int (2 * d))"
proof (cases "0 \<le> p")
  case True
  with assms show ?thesis by (intro go_round_fl64_ge_0) auto
next
  case False
  with assms have "go_round (fl64 (of_int (- p) / of_int (2 * d))) = go_round (of_int (- p) / of_int (2 * d))"
    by (intro go_round_fl64_ge_0) auto
  moreover have "fl64 (of_int (- p) / of_int (2 * d)) = - fl64 (of_int p / of_int (2 * d))"
    by (simp flip: fl64_minus)
  moreover have "of_int (- p) / of_int (2 * d) = - (of_int p / of_int (2 * d) :: rat)" by simp
  ultimately show ?thesis by (simp only: go_round_minus neg_equal_iff_equal)
qed

end
