(* ===== verification/Money.thy ===== *)
theory Money
  imports McpTypes GoTime FloatBounds
begin

text \<open>
  \<open>internal/clockify/money.go\<close> and \<open>internal/tools/money.go\<close>: rates and their wire form, the decimal
  and display text of an amount of cents, the arithmetic of money views, the rate hierarchy, and the
  earnings derived from a rate and a duration. A pointer that may be nil is an \<open>option\<close>; only the
  fields of workspaces, projects, tasks and entries that the hierarchy reads are kept. \<open>show_v\<close> is
  \<open>fmt.Sprint\<close> of a value that is no string.
\<close>

section \<open>Rates\<close>

record rate =
  rt_amount :: int
  rt_currency :: string
  rt_inherited :: bool

definition zero_rate :: rate where
  "zero_rate = \<lparr>rt_amount = 0, rt_currency = [], rt_inherited = False\<rparr>"

datatype rate_error = UnrecognisedRate string | RateSyntax | RateNotNumeric string

text \<open>A \<open>json.Number\<close> field takes a number or a string that is one; the empty text means absent.\<close>

fun last_number :: "json list \<Rightarrow> string \<Rightarrow> string option" where
  "last_number [] acc = Some acc"
| "last_number (JNum s # vs) acc = last_number vs s"
| "last_number (JStr s # vs) acc = (if parse_number s = None then None else last_number vs s)"
| "last_number (JNull # vs) acc = last_number vs acc"
| "last_number (v # vs) acc = None"

definition unmarshal_rate :: "json \<Rightarrow> rate \<Rightarrow> (rate_error, rate) result" where
  "unmarshal_rate b r =
     (case b of
        JNull \<Rightarrow> Inr r
      | JStr s \<Rightarrow> if s = ''##default'' then Inr (r\<lparr>rt_inherited := True\<rparr>) else Inl (UnrecognisedRate s)
      | JObj m \<Rightarrow>
          (case (last_number (field_values ''amount'' m) [], last_string (field_values ''currency'' m) []) of
             (Some amount, Some currency) \<Rightarrow>
               (let r1 = r\<lparr>rt_currency := currency\<rparr> in
                if amount = [] then Inr r1
                else (case atoi amount of
                        Some i \<Rightarrow> Inr (r1\<lparr>rt_amount := i\<rparr>)
                      | None \<Rightarrow>
                          (case parse_float64 amount of
                             None \<Rightarrow> Inl (RateNotNumeric amount)
                           | Some f \<Rightarrow> Inr (r1\<lparr>rt_amount := int64_of_float (of_int (go_round f))\<rparr>))))
           | _ \<Rightarrow> Inl RateSyntax)
      | _ \<Rightarrow> Inl RateSyntax)"

definition marshal_rate :: "rate option \<Rightarrow> json" where
  "marshal_rate ro =
     (case ro of
        None \<Rightarrow> JNull
      | Some r \<Rightarrow>
          if rt_inherited r then JStr ''##default''
          else JObj ([(''amount'', JNum (itoa (rt_amount r)))] @
                 (if rt_currency r \<noteq> [] then [(''currency'', JStr (rt_currency r))] else [])))"

section \<open>Text\<close>

definition pad2 :: "int \<Rightarrow> string" where
  "pad2 n = replicate (2 - length (itoa n)) (CHR ''0'') @ itoa n"

definition cents_to_decimal_string :: "int \<Rightarrow> string" where
  "cents_to_decimal_string cents0 =
     (let sign = (if cents0 < 0 then ''-'' else []);
          cents = (if cents0 < 0 then wrap64 (- cents0) else cents0)
      in sign @ itoa (quot_go cents 100) @ ''.'' @ pad2 (rem_go cents 100))"

definition decimal_string :: "rate option \<Rightarrow> string" where
  "decimal_string ro = (case ro of None \<Rightarrow> [] | Some r \<Rightarrow> cents_to_decimal_string (rt_amount r))"

definition currency_symbol :: "string \<Rightarrow> string" where
  "currency_symbol ccy =
     (if ccy \<in> set [''USD'', ''AUD'', ''CAD'', ''NZD'', ''SGD'', ''HKD'', ''MXN''] then ''$''
      else if ccy = ''EUR'' then [CHR 0xE2, CHR 0x82, CHR 0xAC]
      else if ccy = ''GBP'' then [CHR 0xC2, CHR 0xA3]
      else if ccy \<in> set [''JPY'', ''CNY''] then [CHR 0xC2, CHR 0xA5]
      else if ccy = ''INR'' then [CHR 0xE2, CHR 0x82, CHR 0xB9]
      else if ccy = ''CHF'' then ''CHF ''
      else if ccy = ''RSD'' then [CHR 0xD0, CHR 0xB4, CHR 0xD0, CHR 0xB8, CHR 0xD0, CHR 0xBD, CHR 0x2E]
      else [])"

definition display_rate :: "rate option \<Rightarrow> string" where
  "display_rate ro =
     (case ro of
        None \<Rightarrow> []
      | Some r \<Rightarrow>
          if rt_inherited r then ''(inherited)''
          else (let dec = decimal_string ro; sym = currency_symbol (rt_currency r) in
                if dec = [] then []
                else if sym \<noteq> [] \<and> rt_currency r \<noteq> [] then sym @ dec @ '' '' @ rt_currency r
                else if rt_currency r \<noteq> [] then dec @ '' '' @ rt_currency r
                else dec))"

definition cents_from_report_number :: "rat \<Rightarrow> int" where
  "cents_from_report_number v = int64_of_float (of_int (go_round v))"

section \<open>Money views\<close>

record money =
  amount_cents :: int
  amount_decimal :: string
  mv_currency :: string
  mv_display :: string

definition zero_money :: money where
  "zero_money = \<lparr>amount_cents = 0, amount_decimal = [], mv_currency = [], mv_display = []\<rparr>"

definition money_from_cents :: "int \<Rightarrow> string \<Rightarrow> money" where
  "money_from_cents cents currency =
     (let r = Some \<lparr>rt_amount = cents, rt_currency = currency, rt_inherited = False\<rparr> in
      \<lparr>amount_cents = cents, amount_decimal = decimal_string r, mv_currency = currency, mv_display = display_rate r\<rparr>)"

definition money_from_rate :: "rate option \<Rightarrow> money" where
  "money_from_rate ro =
     (case ro of
        None \<Rightarrow> zero_money
      | Some r \<Rightarrow> if rt_inherited r then zero_money else money_from_cents (rt_amount r) (rt_currency r))"

definition money_from_report_number :: "rat \<Rightarrow> string \<Rightarrow> money" where
  "money_from_report_number v currency = money_from_cents (cents_from_report_number v) currency"

definition money_is_zero :: "money \<Rightarrow> bool" where
  "money_is_zero m \<longleftrightarrow> amount_cents m = 0 \<and> mv_currency m = [] \<and> mv_display m = []"

definition money_ptr :: "money \<Rightarrow> money option" where
  "money_ptr m = (if money_is_zero m then None else Some m)"

definition first_non_empty_string :: "string list \<Rightarrow> string" where
  "first_non_empty_string vs = (case find (\<lambda>v. trim_space v \<noteq> []) vs of None \<Rightarrow> [] | Some v \<Rightarrow> v)"

definition first_present :: "members \<Rightarrow> string list \<Rightarrow> json" where
  "first_present m keys =
     (case find (\<lambda>k. map_of m k \<noteq> None) keys of
        None \<Rightarrow> JNull
      | Some k \<Rightarrow> (case map_of m k of None \<Rightarrow> JNull | Some v \<Rightarrow> v))"

definition report_number :: "json \<Rightarrow> rat option" where
  "report_number v =
     (case v of
        JFlt f \<Rightarrow> Some f
      | JInt n \<Rightarrow> Some (fl64 (of_int n))
      | JNum s \<Rightarrow> parse_float64 s
      | _ \<Rightarrow> None)"

definition sprint_trimmed :: "(json \<Rightarrow> string) \<Rightarrow> members \<Rightarrow> string \<Rightarrow> string" where
  "sprint_trimmed show_v m k =
     trim_space (case map_of m k of
        None \<Rightarrow> ''<nil>'' | Some JNull \<Rightarrow> ''<nil>'' | Some (JStr s) \<Rightarrow> s | Some v \<Rightarrow> show_v v)"

definition usable_text :: "string \<Rightarrow> bool" where
  "usable_text s \<longleftrightarrow> s \<noteq> [] \<and> s \<noteq> ''<nil>''"

definition report_currency :: "(json \<Rightarrow> string) \<Rightarrow> members \<Rightarrow> string" where
  "report_currency show_v m =
     (let nested = (case map_of m ''currency'' of
                      Some (JObj n) \<Rightarrow> map (sprint_trimmed show_v n) [''code'', ''id''] | _ \<Rightarrow> []);
          direct = map (sprint_trimmed show_v m) [''currency'', ''currencyCode'', ''currency_code'']
      in case find usable_text (nested @ direct) of None \<Rightarrow> [] | Some s \<Rightarrow> s)"

text \<open>\<open>moneyFromAny\<close>: an \<open>any\<close> is a money view, a pointer to one, or a decoded JSON value.\<close>

datatype money_any = AnyMoney "money option" | AnyJson json

definition money_from_any :: "(json \<Rightarrow> string) \<Rightarrow> money_any \<Rightarrow> string \<Rightarrow> money option" where
  "money_from_any show_v v currency =
     (case v of
        AnyMoney m \<Rightarrow> m
      | AnyJson j \<Rightarrow>
          (let (currency1, j1) =
             (case j of
                JObj m \<Rightarrow> (first_non_empty_string [report_currency show_v m, currency],
                           first_present m [''amount_cents'', ''amountCents'', ''value'', ''amount'', ''total''])
              | _ \<Rightarrow> (currency, j))
           in case report_number j1 of
                None \<Rightarrow> None
              | Some n \<Rightarrow> money_ptr (money_from_report_number n currency1)))"

definition currencies_differ :: "money \<Rightarrow> money \<Rightarrow> bool" where
  "currencies_differ a b \<longleftrightarrow> mv_currency a \<noteq> [] \<and> mv_currency b \<noteq> [] \<and> mv_currency a \<noteq> mv_currency b"

definition money_sum :: "money option \<Rightarrow> money option \<Rightarrow> money option" where
  "money_sum ao bo =
     (case (ao, bo) of
        (None, _) \<Rightarrow> bo
      | (_, None) \<Rightarrow> ao
      | (Some a, Some b) \<Rightarrow>
          if currencies_differ a b then ao
          else money_ptr (money_from_cents (wrap64 (amount_cents a + amount_cents b))
                 (first_non_empty_string [mv_currency a, mv_currency b])))"

definition money_diff :: "money option \<Rightarrow> money option \<Rightarrow> money option" where
  "money_diff ao bo =
     (if ao = None \<and> bo = None then None
      else (let a = (case ao of Some a \<Rightarrow> a | None \<Rightarrow> money_from_cents 0 (case bo of Some b \<Rightarrow> mv_currency b | None \<Rightarrow> []));
                b = (case bo of Some b \<Rightarrow> b | None \<Rightarrow> money_from_cents 0 (mv_currency a))
            in if currencies_differ a b then None
               else money_ptr (money_from_cents (wrap64 (amount_cents a - amount_cents b))
                      (first_non_empty_string [mv_currency a, mv_currency b]))))"

definition first_money :: "money option list \<Rightarrow> money option" where
  "first_money vs = (case find (\<lambda>v. v \<noteq> None) vs of None \<Rightarrow> None | Some v \<Rightarrow> v)"

section \<open>The rate hierarchy\<close>

datatype rate_scope = ScopeEntry | ScopeTask | ScopeProjectMember | ScopeProject | ScopeWorkspace | ScopeNone

record membership =
  ms_user :: string
  ms_hourly :: "rate option"
  ms_cost :: "rate option"

text \<open>What carries rates: a workspace or a project with its memberships, a task, an entry.\<close>

record rated =
  rd_hourly :: "rate option"
  rd_cost :: "rate option"
  rd_memberships :: "membership list"

record time_entry =
  te_hourly :: "rate option"
  te_cost :: "rate option"
  te_user :: string
  te_start :: string
  te_end :: string

record effective_rate =
  er_hourly :: "rate option"
  er_cost :: "rate option"
  er_hourly_scope :: rate_scope
  er_cost_scope :: rate_scope

definition resolve_layer :: "rate option \<Rightarrow> rate option" where
  "resolve_layer ro = (case ro of None \<Rightarrow> None | Some r \<Rightarrow> if rt_inherited r then None else Some r)"

fun membership_rate :: "membership list \<Rightarrow> string \<Rightarrow> bool \<Rightarrow> rate option" where
  "membership_rate [] user cost = None"
| "membership_rate (m # ms) user cost =
     (if user = [] then None
      else if ms_user m \<noteq> user then membership_rate ms user cost
      else resolve_layer (if cost then ms_cost m else ms_hourly m))"

text \<open>One side (\<open>cost\<close> or hourly) of \<open>ResolveEffectiveRate\<close>: the assignments in their order, each
  guarded by the rate being nil so far.\<close>

definition try_layer :: "rate option \<Rightarrow> rate_scope \<Rightarrow> rate option \<times> rate_scope \<Rightarrow> rate option \<times> rate_scope" where
  "try_layer ro scope acc =
     (if fst acc \<noteq> None then acc
      else (case resolve_layer ro of None \<Rightarrow> acc | Some r \<Rightarrow> (Some r, scope)))"

definition try_members ::
  "rated option \<Rightarrow> string \<Rightarrow> bool \<Rightarrow> rate_scope \<Rightarrow> rate_scope \<Rightarrow> rate option \<times> rate_scope \<Rightarrow> rate option \<times> rate_scope" where
  "try_members po user cost member_scope own_scope acc =
     (case po of
        None \<Rightarrow> acc
      | Some p \<Rightarrow>
          if fst acc \<noteq> None then acc
          else (case membership_rate (rd_memberships p) user cost of
                  Some r \<Rightarrow> (Some r, member_scope)
                | None \<Rightarrow> try_layer (if cost then rd_cost p else rd_hourly p) own_scope acc))"

definition resolve_side ::
  "bool \<Rightarrow> rated option \<Rightarrow> rated option \<Rightarrow> rated option \<Rightarrow> time_entry option \<Rightarrow> string \<Rightarrow> rate option \<times> rate_scope" where
  "resolve_side cost ws proj task entry user =
     (let a0 = (None, ScopeNone);
          a1 = (case entry of None \<Rightarrow> a0 | Some e \<Rightarrow> try_layer (if cost then te_cost e else te_hourly e) ScopeEntry a0);
          a2 = (case task of None \<Rightarrow> a1 | Some t \<Rightarrow> try_layer (if cost then rd_cost t else rd_hourly t) ScopeTask a1);
          a3 = try_members proj user cost ScopeProjectMember ScopeProject a2
      in try_members ws user cost ScopeWorkspace ScopeWorkspace a3)"

definition resolve_effective_rate ::
  "rated option \<Rightarrow> rated option \<Rightarrow> rated option \<Rightarrow> time_entry option \<Rightarrow> string \<Rightarrow> effective_rate" where
  "resolve_effective_rate ws proj task entry user =
     (let h = resolve_side False ws proj task entry user; c = resolve_side True ws proj task entry user in
      \<lparr>er_hourly = fst h, er_cost = fst c, er_hourly_scope = snd h, er_cost_scope = snd c\<rparr>)"

section \<open>Durations and earnings\<close>

definition zero_time :: instant where
  "zero_time = - 62135596800 * second"

text \<open>\<open>t.Sub(u)\<close> saturates at the range of a duration.\<close>

definition sub_time :: "instant \<Rightarrow> instant \<Rightarrow> duration" where
  "sub_time t u = max min_int64 (min max_int64 (t - u))"

definition duration_in_seconds :: "duration \<Rightarrow> rat" where
  "duration_in_seconds d =
     fl64 (fl64 (of_int (quot_go d second)) + fl64 (fl64 (of_int (rem_go d second)) / 1000000000))"

definition duration_seconds :: "instant \<Rightarrow> time_entry \<Rightarrow> int" where
  "duration_seconds now e =
     (case parse_rfc3339 (te_start e) of
        None \<Rightarrow> 0
      | Some start \<Rightarrow>
          (let fin = (if te_end e = [] then now
                      else (case parse_rfc3339 (te_end e) of
                              None \<Rightarrow> now | Some t \<Rightarrow> if t = zero_time then now else t))
           in if fin < start then 0 else int64_of_float (duration_in_seconds (sub_time fin start))))"

definition earned_cents :: "int \<Rightarrow> int \<Rightarrow> int" where
  "earned_cents amount dur =
     int64_of_float (of_int (go_round (fl64 (fl64 (fl64 (of_int amount) * fl64 (of_int dur)) / 3600))))"

definition derived_side :: "rate option \<Rightarrow> int \<Rightarrow> money" where
  "derived_side ro dur =
     (case ro of
        None \<Rightarrow> zero_money
      | Some r \<Rightarrow> if 0 < dur then money_from_cents (earned_cents (rt_amount r) dur) (rt_currency r) else zero_money)"

definition derived_earnings :: "effective_rate \<Rightarrow> int \<Rightarrow> money \<times> money" where
  "derived_earnings eff dur = (derived_side (er_hourly eff) dur, derived_side (er_cost eff) dur)"

record entry_rate_view =
  ev_entry_hourly :: "rate option"
  ev_entry_cost :: "rate option"
  ev_effective :: effective_rate
  ev_seconds :: int
  ev_billable :: money
  ev_cost :: money

definition build_entry_rate_view ::
  "instant \<Rightarrow> rated option \<Rightarrow> rated option \<Rightarrow> rated option \<Rightarrow> time_entry option \<Rightarrow> entry_rate_view" where
  "build_entry_rate_view now ws proj task entry =
     (let secs = (case entry of None \<Rightarrow> 0 | Some e \<Rightarrow> duration_seconds now e);
          user = (case entry of None \<Rightarrow> [] | Some e \<Rightarrow> te_user e);
          eff = resolve_effective_rate ws proj task entry user;
          d = (case entry of None \<Rightarrow> (zero_money, zero_money) | Some e \<Rightarrow> derived_earnings eff secs)
      in \<lparr>ev_entry_hourly = Option.bind entry te_hourly, ev_entry_cost = Option.bind entry te_cost,
          ev_effective = eff, ev_seconds = secs, ev_billable = fst d, ev_cost = snd d\<rparr>)"

section \<open>The precedence of rates\<close>

text \<open>The layers of one side, most specific first.\<close>

definition rate_layers ::
  "bool \<Rightarrow> rated option \<Rightarrow> rated option \<Rightarrow> rated option \<Rightarrow> time_entry option \<Rightarrow> string \<Rightarrow> (rate option \<times> rate_scope) list" where
  "rate_layers cost ws proj task entry user =
     (let own = (\<lambda>p. if cost then rd_cost p else rd_hourly p);
          member = (\<lambda>p. case find (\<lambda>m. ms_user m = user) (rd_memberships p) of
             None \<Rightarrow> None | Some m \<Rightarrow> if user = [] then None else if cost then ms_cost m else ms_hourly m)
      in [(Option.bind entry (if cost then te_cost else te_hourly), ScopeEntry), (Option.bind task own, ScopeTask),
          (Option.bind proj member, ScopeProjectMember), (Option.bind proj own, ScopeProject),
          (Option.bind ws member, ScopeWorkspace), (Option.bind ws own, ScopeWorkspace)])"

definition concrete :: "rate option \<Rightarrow> bool" where
  "concrete ro \<longleftrightarrow> (case ro of None \<Rightarrow> False | Some r \<Rightarrow> \<not> rt_inherited r)"

definition first_concrete :: "(rate option \<times> rate_scope) list \<Rightarrow> rate option \<times> rate_scope" where
  "first_concrete ls = (case find (\<lambda>l. concrete (fst l)) ls of None \<Rightarrow> (None, ScopeNone) | Some l \<Rightarrow> l)"

lemma resolve_layer_concrete: "resolve_layer ro = (if concrete ro then ro else None)"
  by (auto simp: resolve_layer_def concrete_def split: option.split)

lemma membership_rate_find:
  "membership_rate ms user cost =
     (case find (\<lambda>m. ms_user m = user) ms of
        None \<Rightarrow> None
      | Some m \<Rightarrow> if user = [] then None else resolve_layer (if cost then ms_cost m else ms_hourly m))"
  by (induction ms) (auto split: option.split)

lemma concrete_None [simp]: "\<not> concrete None"
  by (simp add: concrete_def)

lemma try_layer_None [simp]: "try_layer None scope acc = acc"
  by (simp add: try_layer_def resolve_layer_def)

lemma fold_layers:
  "foldl (\<lambda>acc (ro, scope). try_layer ro scope acc) acc ls =
     (if fst acc \<noteq> None then acc else case find (\<lambda>l. concrete (fst l)) ls of None \<Rightarrow> acc | Some l \<Rightarrow> l)"
proof (induction ls arbitrary: acc)
  case (Cons l ls)
  obtain ro scope where l: "l = (ro, scope)" by force
  have "concrete ro \<Longrightarrow> ro \<noteq> None" by (auto simp: concrete_def split: option.splits)
  then show ?case using Cons by (auto simp: l try_layer_def resolve_layer_concrete split: option.splits)
qed simp

lemma try_members_layers:
  "try_members po user cost ms_scope own_scope acc =
     try_layer (Option.bind po (\<lambda>p. if cost then rd_cost p else rd_hourly p)) own_scope
       (try_layer (Option.bind po (\<lambda>p. case find (\<lambda>m. ms_user m = user) (rd_memberships p) of
          None \<Rightarrow> None | Some m \<Rightarrow> if user = [] then None else if cost then ms_cost m else ms_hourly m)) ms_scope acc)"
proof (cases po)
  case (Some p)
  show ?thesis
    by (auto simp: Some try_members_def try_layer_def membership_rate_find resolve_layer_concrete split: option.splits)
qed (simp add: try_members_def)

lemma resolve_side_first:
  "resolve_side cost ws proj task entry user = first_concrete (rate_layers cost ws proj task entry user)"
proof -
  have "resolve_side cost ws proj task entry user =
      foldl (\<lambda>acc (ro, scope). try_layer ro scope acc) (None, ScopeNone) (rate_layers cost ws proj task entry user)"
    unfolding resolve_side_def rate_layers_def try_members_layers Let_def
    by (cases entry; cases task; cases cost) simp_all
  then show ?thesis by (simp add: fold_layers first_concrete_def)
qed

text \<open>The rate hierarchy: the hourly and the cost rate of an entry are each the first concrete rate
  (neither absent nor inherited) of entry, task, project membership of the user, project, workspace
  membership of the user, and workspace, with the scope of that layer; without any there is no rate and
  the scope says so.\<close>

lemma effective_rate_first_concrete:
  "resolve_effective_rate ws proj task entry user =
     (let h = first_concrete (rate_layers False ws proj task entry user);
          c = first_concrete (rate_layers True ws proj task entry user)
      in \<lparr>er_hourly = fst h, er_cost = fst c, er_hourly_scope = snd h, er_cost_scope = snd c\<rparr>)"
  by (simp add: resolve_effective_rate_def resolve_side_first)

section \<open>Decimal text\<close>

text \<open>Reading an amount back: a sign, the whole units, a point, and two digits of cents.\<close>

definition cents_of_text :: "string \<Rightarrow> int option" where
  "cents_of_text s =
     (let neg = s \<noteq> [] \<and> hd s = CHR ''-'' in
      case cut_byte (CHR ''.'') (if neg then tl s else s) of
        None \<Rightarrow> None
      | Some (whole, cs) \<Rightarrow>
          if length cs = 2 \<and> list_all is_digit (whole @ cs) \<and> whole \<noteq> []
          then Some ((if neg then - 1 else 1) * (digits_val whole * 100 + digits_val cs)) else None)"

lemma quot_rem_pos: "0 \<le> c \<Longrightarrow> quot_go c 100 = c div 100 \<and> rem_go c 100 = c mod 100"
  by (auto simp: quot_go_def rem_go_def sgn_if minus_div_mult_eq_mod mult.commute [of 100])

lemma itoa_nonneg: "0 \<le> n \<Longrightarrow> itoa n = nat_dec (nat n)"
  by (simp add: itoa_def)

lemma pad2_digits:
  assumes "0 \<le> n" "n < 100"
  shows "length (pad2 n) = 2 \<and> list_all is_digit (pad2 n) \<and> digits_val (pad2 n) = n"
proof (cases "n < 10")
  case True
  then have "nat n < 10" by simp
  with assms have "itoa n = [char_of (48 + nat n)]" by (simp add: itoa_def nat_dec.simps [of "nat n"])
  with True assms digit_char_facts [of "nat n"] show ?thesis
    by (simp add: pad2_def digits_val_def is_digit_def digit_val_def)
next
  case False
  with assms have m: "nat n div 10 < 10" "nat n mod 10 < 10" "\<not> nat n < 10" by auto
  then have "itoa n = [char_of (48 + nat n div 10), char_of (48 + nat n mod 10)]"
    using assms by (simp add: itoa_def nat_dec.simps [of "nat n"] nat_dec.simps [of "nat n div 10"])
  moreover have "int (nat n div 10) * 10 + int (nat n mod 10) = n"
    using assms div_mult_mod_eq [of "nat n" 10] by linarith
  ultimately show ?thesis
    using digit_char_facts [OF m(1)] digit_char_facts [OF m(2)] by (simp add: pad2_def digits_val_def)
qed

lemma digit_chars:
  "char_of (48 :: nat) = CHR ''0''" "char_of (49 :: nat) = CHR ''1''" "char_of (50 :: nat) = CHR ''2''"
  "char_of (51 :: nat) = CHR ''3''" "char_of (52 :: nat) = CHR ''4''" "char_of (53 :: nat) = CHR ''5''"
  "char_of (54 :: nat) = CHR ''6''" "char_of (55 :: nat) = CHR ''7''" "char_of (56 :: nat) = CHR ''8''"
  "char_of (57 :: nat) = CHR ''9''"
  by code_simp+

lemma point_no_digit: "is_digit c \<Longrightarrow> c \<noteq> CHR ''.'' \<and> c \<noteq> CHR ''-''"
  by (auto simp: is_digit_def)

text \<open>Amounts print exactly: the decimal text of an amount of cents reads back as that amount, for
  every \<open>int64\<close> but the least one, whose negation wraps around and prints a second sign.\<close>

lemma decimal_text_exact:
  "(is_int64 c \<longrightarrow> c \<noteq> min_int64 \<longrightarrow> cents_of_text (cents_to_decimal_string c) = Some c) \<and>
   cents_to_decimal_string min_int64 = ''--92233720368547758.-8''"
proof (intro conjI impI)
  assume c: "is_int64 c" "c \<noteq> min_int64"
  define a where "a = \<bar>c\<bar>"
  have a: "0 \<le> a" "is_int64 a" using c by (auto simp: a_def is_int64_def min_int64_def max_int64_def)
  have w: "(if c < 0 then wrap64 (- c) else c) = a"
    using a(2) by (cases "c < 0") (simp_all add: a_def wrap64_id)
  have t: "cents_to_decimal_string c =
      (if c < 0 then ''-'' else []) @ nat_dec (nat (a div 100)) @ ''.'' @ pad2 (a mod 100)"
    unfolding cents_to_decimal_string_def w Let_def using a quot_rem_pos by (simp add: itoa_nonneg)
  have d: "nat_dec n \<noteq> []" "list_all is_digit (nat_dec n)" "digits_val (nat_dec n) = int n" for n
    using nat_dec_correct [of n] by auto
  have p: "length (pad2 (a mod 100)) = 2" "list_all is_digit (pad2 (a mod 100))" "digits_val (pad2 (a mod 100)) = a mod 100"
    using pad2_digits [of "a mod 100"] by auto
  have "hd (nat_dec n @ x) \<noteq> CHR ''-''" for n x
    using d [of n] point_no_digit by (cases "nat_dec n") auto
  moreover have "cut_byte (CHR ''.'') (nat_dec n @ ''.'' @ x) = Some (nat_dec n, x)" for n x
    unfolding cut_byte_Some using d(2) [of n] point_no_digit by (auto simp: list_all_iff)
  ultimately have "cents_of_text (cents_to_decimal_string c) =
      Some ((if c < 0 then - 1 else 1) * (digits_val (nat_dec (nat (a div 100))) * 100 + digits_val (pad2 (a mod 100))))"
    using d p by (simp add: t cents_of_text_def Let_def)
  also have "\<dots> = Some ((if c < 0 then - 1 else 1) * (a div 100 * 100 + a mod 100))"
    using a(1) by (simp only: d(3) p(3) int_nat_eq pos_imp_zdiv_nonneg_iff) simp
  also have "\<dots> = Some c" by (simp add: a_def)
  finally show "cents_of_text (cents_to_decimal_string c) = Some c" .
next
  have "itoa (- 92233720368547758) = ''-92233720368547758''" "itoa (- 8) = ''-8''"
    by (simp_all add: itoa_def nat_dec.simps digit_chars)
  moreover have "wrap64 (- min_int64) = min_int64" "quot_go min_int64 100 = - 92233720368547758"
    "rem_go min_int64 100 = - 8" "min_int64 < 0"
    by (simp_all add: wrap64_def min_int64_def quot_go_def rem_go_def)
  ultimately show "cents_to_decimal_string min_int64 = ''--92233720368547758.-8''"
    by (simp add: cents_to_decimal_string_def pad2_def Let_def)
qed

lemma decimal_text_exact_witness:
  "cents_of_text (cents_to_decimal_string (- 250)) = Some (- 250) \<and> cents_to_decimal_string (- 250) = ''-2.50''"
proof -
  have "is_int64 (- 250)" "(- 250) \<noteq> min_int64" by (simp_all add: is_int64_def min_int64_def max_int64_def)
  moreover have "cents_to_decimal_string (- 250) = ''-2.50''" by code_simp
  ultimately show ?thesis using decimal_text_exact [of "- 250"] by simp
qed

section \<open>Earnings are exact\<close>

lemma fl64_product:
  assumes "0 < dur" "\<bar>amount * dur\<bar> < 2 ^ 53"
  shows "fl64 (fl64 (of_int amount) * fl64 (of_int dur)) = of_int (amount * dur)"
proof (cases "amount = 0")
  case True
  then show ?thesis by (simp add: fl64_def)
next
  case False
  then have "1 \<le> \<bar>amount\<bar>" by simp
  have m: "\<bar>amount * dur\<bar> = \<bar>amount\<bar> * dur" using assms(1) by (simp add: abs_mult)
  have "\<bar>amount\<bar> * 1 \<le> \<bar>amount * dur\<bar>" unfolding m using assms(1) by (intro mult_left_mono) auto
  moreover have "1 * dur \<le> \<bar>amount * dur\<bar>"
    unfolding m using assms(1) \<open>1 \<le> \<bar>amount\<bar>\<close> by (intro mult_right_mono) auto
  ultimately have "\<bar>amount\<bar> \<le> 2 ^ 53" "\<bar>dur\<bar> \<le> 2 ^ 53" using assms by linarith+
  with assms show ?thesis
    using fl64_of_int [of amount] fl64_of_int [of dur] fl64_of_int [of "amount * dur"] by simp
qed


definition hourly_only :: "int \<Rightarrow> effective_rate" where
  "hourly_only amount =
     \<lparr>er_hourly = Some \<lparr>rt_amount = amount, rt_currency = ''EUR'', rt_inherited = False\<rparr>, er_cost = None,
      er_hourly_scope = ScopeEntry, er_cost_scope = ScopeNone\<rparr>"


end
