(* ===== verification/GoCalendar.thy ===== *)
theory GoCalendar
  imports GoTime
begin

text \<open>
  The calendar of \<open>GoTime\<close> is right: \<open>civil_of_days\<close> gives the valid date with that day number, and
  a time printed by \<open>format_rfc3339\<close> parses back.
\<close>

section \<open>Years\<close>

lemma div_pred: "0 < m \<Longrightarrow> (y :: int) div m = (y - 1) div m + (if y mod m = 0 then 1 else 0)"
proof -
  assume m: "0 < m"
  have y: "y = m * (y div m) + y mod m" by simp
  show ?thesis
  proof (cases "y mod m = 0")
    case True
    with y m have "(y - 1) div m = y div m - 1" by (intro int_div_pos_eq [of _ _ _ "m - 1"]) (auto simp: algebra_simps)
    with True show ?thesis by simp
  next
    case False
    moreover have "0 \<le> y mod m" "y mod m < m" using m by simp_all
    ultimately have "(y - 1) div m = y div m"
      using y by (intro int_div_pos_eq [of _ _ _ "y mod m - 1"]) auto
    with False show ?thesis by simp
  qed
qed

lemma leap_count:
  "y4 = p4 + (if a then 1 else 0) \<Longrightarrow> y100 = p100 + (if b then 1 else 0) \<Longrightarrow> y400 = p400 + (if c then 1 else 0) \<Longrightarrow>
     (c \<Longrightarrow> b) \<Longrightarrow> (b \<Longrightarrow> a) \<Longrightarrow> y4 - y100 + y400 = p4 - p100 + p400 + (if a \<and> (\<not> b \<or> c) then 1 else 0 :: int)"
  by (cases a; cases b; cases c) simp_all

lemma year_step:
  "a - b + c = p - q + r + (if l then 1 else 0) \<Longrightarrow>
     365 * (y + 1 - 1) + a - b + c = 365 * (y - 1) + p - q + r + (if l then 366 else 365 :: int)"
  by auto

lemma mod_mult_0: "(y :: int) mod (k * m) = 0 \<Longrightarrow> y mod m = 0"
  by (meson dvd_eq_mod_eq_0 dvd_mult_right)

lemma days_before_next_year: "days_before_year (y + 1) = days_before_year y + (if is_leap y then 366 else 365)"
proof -
  have "y div 4 - y div 100 + y div 400 =
      (y - 1) div 4 - (y - 1) div 100 + (y - 1) div 400 + (if is_leap y then 1 else 0)"
    unfolding is_leap_def
    by (rule leap_count [OF div_pred div_pred div_pred])
      (use mod_mult_0 [of y 4 100] mod_mult_0 [of y 25 4] in simp_all)
  from year_step [OF this, of y] show ?thesis by (simp only: days_before_year_def Let_def add_diff_cancel_right')
qed

text \<open>The first day of the year that begins on 1 March, counted within its era of 400 years.\<close>

definition march_start :: "int \<Rightarrow> int" where
  "march_start y = 365 * y + y div 4 - y div 100"

definition era_year :: "int \<Rightarrow> int" where
  "era_year doe = (doe - doe div 1460 + doe div 36524 - doe div 146096) div 365"

lemma era_year_eq:
  assumes "1460 * a \<le> doe" "doe < 1460 * (a + 1)" "36524 * b \<le> doe" "doe < 36524 * (b + 1)"
    and "0 \<le> doe" "doe < 146096" "365 * y \<le> doe - a + b" "doe - a + b < 365 * (y + 1)"
  shows "era_year doe = y"
proof -
  have "doe div 1460 = a" using assms(1,2) by (intro int_div_pos_eq [of _ _ _ "doe - 1460 * a"]) auto
  moreover have "doe div 36524 = b" using assms(3,4) by (intro int_div_pos_eq [of _ _ _ "doe - 36524 * b"]) auto
  moreover have "(doe - a + b) div 365 = y"
    using assms(7,8) by (intro int_div_pos_eq [of _ _ _ "doe - a + b - 365 * y"]) auto
  ultimately show ?thesis using assms(5,6) by (simp add: era_year_def div_pos_pos_trivial)
qed

lemma march_start_parts:
  assumes "0 \<le> q" "q \<le> 24" "0 \<le> k" "k \<le> 3"
  shows "march_start (100 * c + 4 * q + k) = 36524 * c + 1461 * q + 365 * k"
proof -
  have "(100 * c + 4 * q + k) div 4 = 25 * c + q" using assms by (intro int_div_pos_eq [of _ _ _ k]) auto
  moreover have "(100 * c + 4 * q + k) div 100 = c" using assms by (intro int_div_pos_eq [of _ _ _ "4 * q + k"]) auto
  ultimately show ?thesis by (simp add: march_start_def)
qed

lemma year_parts:
  obtains c q k where "y = 100 * c + 4 * q + (k :: int)" "0 \<le> q" "q \<le> 24" "0 \<le> k" "k \<le> 3"
proof -
  have "y = 100 * (y div 100) + 4 * (y mod 100 div 4) + y mod 100 mod 4" by simp
  moreover have "y mod 100 div 4 \<le> 24" using pos_mod_bound [of 100 y] by linarith
  moreover have "0 \<le> y mod 100 div 4" by (simp add: pos_imp_zdiv_nonneg_iff)
  moreover have "y mod 100 mod 4 \<le> 3" "0 \<le> y mod 100 mod 4" by simp_all
  ultimately show ?thesis using that by metis
qed

lemma era_year_ends:
  assumes "0 \<le> y" "y \<le> 399"
  shows "era_year (march_start y) = y" and "era_year (march_start (y + 1) - 1) = y"
proof -
  obtain c q k where p: "y = 100 * c + 4 * q + k" "0 \<le> q" "q \<le> 24" "0 \<le> k" "k \<le> 3" by (rule year_parts)
  have c: "0 \<le> c" "c \<le> 3" using assms p by linarith+
  show "era_year (march_start y) = y"
    unfolding p(1) march_start_parts [OF p(2-5)]
    by (rule era_year_eq [of "25 * c + q" _ c]; use p c in \<open>(simp only: distrib_left right_diff_distrib)?; linarith\<close>)
  obtain c q k where p: "y + 1 = 100 * c + 4 * q + k" "0 \<le> q" "q \<le> 24" "0 \<le> k" "k \<le> 3" by (rule year_parts)
  have c: "0 \<le> c" "c \<le> 4" "100 * c + 4 * q + k \<le> 400" "1 \<le> 100 * c + 4 * q + k" using assms p by linarith+
  have start: "march_start (y + 1) = 36524 * c + 1461 * q + 365 * k"
    unfolding p(1) by (rule march_start_parts [OF p(2-5)])
  consider "k > 0" | "k = 0" "q > 0" | "k = 0" "q = 0" using p by linarith
  then show "era_year (march_start (y + 1) - 1) = y"
  proof cases
    case 1
    show ?thesis unfolding start
      by (rule era_year_eq [of "25 * c + q" _ c]; use p c 1 in \<open>(simp only: distrib_left right_diff_distrib)?; linarith\<close>)
  next
    case 2
    show ?thesis unfolding start
      by (rule era_year_eq [of "25 * c + q" _ c]; use p c 2 in \<open>(simp only: distrib_left right_diff_distrib)?; linarith\<close>)
  next
    case 3
    show ?thesis unfolding start
      by (rule era_year_eq [of "25 * c" _ "c - 1"]; use p c 3 in \<open>(simp only: distrib_left right_diff_distrib)?; linarith\<close>)
  qed
qed
lemma mono_step:
  "a' = a + (if p then 1 else 0) \<Longrightarrow> b' = b + (if q then 1 else 0) \<Longrightarrow> c' = c + (if r then 1 else 0) \<Longrightarrow>
     (r \<Longrightarrow> q) \<Longrightarrow> d - a + b - c \<le> d + 1 - a' + b' - (c' :: int)"
  by auto

lemma era_year_mono: "a \<le> b \<Longrightarrow> era_year a \<le> era_year b"
proof -
  define f where "f = (\<lambda>d :: int. d - d div 1460 + d div 36524 - d div 146096)"
  have step: "f d \<le> f (d + 1)" for d
    unfolding f_def
    by (rule mono_step [OF div_pred [of 1460 "d + 1", unfolded add_diff_cancel_right']
          div_pred [of 36524 "d + 1", unfolded add_diff_cancel_right']
          div_pred [of 146096 "d + 1", unfolded add_diff_cancel_right']])
      (use mod_mult_0 [of "d + 1" 4 36524] in simp_all)
  have "f a \<le> f (a + int n)" for n
  proof (induction n)
    case (Suc n)
    with step [of "a + int n"] show ?case by (simp add: algebra_simps)
  qed simp
  then have "a \<le> b \<Longrightarrow> f a \<le> f b" using zle_iff_zadd [of a b] by auto
  then show "a \<le> b \<Longrightarrow> era_year a \<le> era_year b"
    unfolding era_year_def f_def by (intro zdiv_mono1) auto
qed

lemma march_start_400: "march_start 400 = 146096"
  by (simp add: march_start_def)

text \<open>Every day of an era lies in the year that \<open>era_year\<close> computes; the last one is the leap day of
  year 400.\<close>

lemma era_year_spec:
  assumes "0 \<le> doe" "doe < 146097"
  shows "0 \<le> era_year doe \<and> era_year doe \<le> 399 \<and> march_start (era_year doe) \<le> doe \<and>
    (doe < march_start (era_year doe + 1) \<or> doe = 146096)"
proof (cases "doe = 146096")
  case True
  then show ?thesis by (simp add: era_year_def march_start_def)
next
  case False
  have ex: "0 \<le> n \<Longrightarrow> n \<le> 400 \<Longrightarrow> doe < march_start n \<Longrightarrow>
      \<exists>y. 0 \<le> y \<and> y < n \<and> march_start y \<le> doe \<and> doe < march_start (y + 1)" for n
  proof (induction "nat n" arbitrary: n)
    case 0
    then show ?case using assms(1) by (simp add: march_start_def)
  next
    case (Suc k)
    show ?case
    proof (cases "march_start (n - 1) \<le> doe")
      case True
      with Suc show ?thesis by (intro exI [of _ "n - 1"]) auto
    next
      case False
      with Suc(1) [of "n - 1"] Suc(2-) show ?thesis by force
    qed
  qed
  from ex [of 400] assms(2) False march_start_400
  obtain y where y: "0 \<le> y" "y < 400" "march_start y \<le> doe" "doe < march_start (y + 1)" by auto
  have "era_year (march_start y) = y" "era_year (march_start (y + 1) - 1) = y"
    using y by (auto intro: era_year_ends)
  moreover have "era_year (march_start y) \<le> era_year doe" "era_year doe \<le> era_year (march_start (y + 1) - 1)"
    using y by (intro era_year_mono; simp)+
  ultimately have "era_year doe = y" by simp
  with y show ?thesis by simp
qed

section \<open>Months\<close>

lemma days_before_month_march:
  assumes "0 \<le> mp" "mp \<le> 11"
  shows "days_before_year (y + (if (if mp < 10 then mp + 3 else mp - 9) \<le> 2 then 1 else 0)) +
      days_before_month (y + (if (if mp < 10 then mp + 3 else mp - 9) \<le> 2 then 1 else 0)) (if mp < 10 then mp + 3 else mp - 9)
    = days_before_year (y + 1) - 306 + (153 * mp + 2) div 5"
proof -
  have "mp \<in> {0, 1, 2, 3, 4, 5, 6, 7, 8, 9, 10, 11}" using assms by simp presburger
  then show ?thesis
    by (elim insertE; simp add: days_before_month_def days_in_def days_before_next_year upto.simps)
qed

lemma month_bounds:
  fixes doy :: int
  assumes "0 \<le> doy" "doy \<le> 365" and "mp = (5 * doy + 2) div 153"
  shows "0 \<le> mp \<and> mp \<le> 11 \<and> 1 \<le> doy - (153 * mp + 2) div 5 + 1 \<and>
    doy - (153 * mp + 2) div 5 + 1 \<le>
      (if mp = 11 then if doy = 365 then 29 else 28 else if mp \<in> {1, 3, 6, 8} then 30 else 31)"
proof -
  have m: "153 * mp \<le> 5 * doy + 2" "5 * doy + 2 < 153 * mp + 153" unfolding assms(3) by linarith+
  with assms(1,2) have "0 \<le> mp" "mp \<le> 11" by linarith+
  then have "mp \<in> {0, 1, 2, 3, 4, 5, 6, 7, 8, 9, 10, 11}" by simp presburger
  with m assms(1,2) show ?thesis by (elim insertE; simp; linarith?)
qed

lemma march_step_count:
  "a = p + u \<Longrightarrow> b = q + v \<Longrightarrow> 365 * (y + 1) + a - b - (365 * y + p - q) = (365 :: int) + u - v"
  by simp

lemma march_step: "march_start (y + 1) - march_start y =
    365 + (if (y + 1) mod 4 = 0 then 1 else 0) - (if (y + 1) mod 100 = 0 then 1 else 0)"
  using march_step_count [OF div_pred [of 4 "y + 1"] div_pred [of 100 "y + 1"], of y]
  by (simp only: march_start_def add_diff_cancel_right' zero_less_numeral)

lemma leap_day:
  assumes "march_start y + 365 < march_start (y + 1)"
  shows "is_leap (y + 1 + 400 * era)"
proof -
  have "march_start (y + 1) - march_start y =
      365 + (if (y + 1) mod 4 = 0 then 1 else 0) - (if (y + 1) mod 100 = 0 then 1 else 0)"
    by (rule march_step)
  with assms have "(y + 1) mod 4 = 0" "(y + 1) mod 100 \<noteq> 0" by (simp_all split: if_splits)
  moreover have "(y + 1 + 400 * era) mod 4 = (y + 1) mod 4" "(y + 1 + 400 * era) mod 100 = (y + 1) mod 100"
    using mod_mult_self2 [of "y + 1" 4 "100 * era"] mod_mult_self2 [of "y + 1" 100 "4 * era"] by simp_all
  ultimately show ?thesis by (simp add: is_leap_def)
qed

theorem civil_of_days_correct:
  assumes "civil_of_days n = (y, m, d)"
  shows "valid_date y m d \<and> days_of_date y m d = n"
proof -
  define z era doe where "z = n + 719468" and "era = z div 146097" and "doe = z mod 146097"
  define yoe where "yoe = era_year doe"
  define doy where "doy = doe - march_start yoe"
  define mp where "mp = (5 * doy + 2) div 153"
  have doe: "0 \<le> doe" "doe < 146097" "n = 146097 * era + doe - 719468"
    unfolding doe_def era_def z_def by simp_all
  note e = era_year_spec [OF doe(1,2), folded yoe_def]
  have next_start: "march_start (yoe + 1) \<le> march_start yoe + 366"
    using march_step [of yoe] by (simp split: if_splits)
  have doy: "0 \<le> doy" "doy \<le> 365" and leap: "doy = 365 \<Longrightarrow> is_leap (yoe + 1 + 400 * era)"
  proof -
    show "0 \<le> doy" using e by (simp add: doy_def)
    have "(doy \<le> 365) \<and> (doy = 365 \<longrightarrow> is_leap (yoe + 1 + 400 * era))"
    proof (cases "doe = 146096")
      case True
      then have "yoe = 399" by (simp add: yoe_def era_year_def)
      moreover have "(400 + 400 * era) mod 400 = 0" by simp
      ultimately show ?thesis using True
        by (auto simp: doy_def march_start_def is_leap_def intro: mod_mult_0 [of _ 100 4])
    next
      case False
      with e next_start leap_day [of yoe era] show ?thesis by (auto simp: doy_def)
    qed
    then show "doy \<le> 365" "doy = 365 \<Longrightarrow> is_leap (yoe + 1 + 400 * era)" by auto
  qed
  note mb = month_bounds [OF doy mp_def]
  define mon where "mon = (if mp < 10 then mp + 3 else mp - 9)"
  define y0 where "y0 = yoe + 400 * era"
  have "civil_of_days n = (yoe + era * 400 + (if mon \<le> 2 then 1 else 0), mon, doy - (153 * mp + 2) div 5 + 1)"
    by (simp only: civil_of_days_def Let_def mon_def mp_def doy_def march_start_def yoe_def era_year_def era_def
        doe_def z_def)
  with assms have r: "y = y0 + (if mon \<le> 2 then 1 else 0)" "m = mon" "d = doy - (153 * mp + 2) div 5 + 1"
    by (auto simp: y0_def)
  have "valid_date y m d"
  proof -
    have mon: "mon = 2 \<longleftrightarrow> mp = 11" "mon \<in> {4, 6, 9, 11} \<longleftrightarrow> mp \<in> {1, 3, 6, 8}" and range: "1 \<le> mon" "mon \<le> 12"
      using mb by (auto simp: mon_def)
    have leap_day: "is_leap y" if "mp = 11" "doy = 365"
    proof -
      have "y = yoe + 1 + 400 * era" using that r(1) by (simp add: mon_def y0_def)
      with leap that show ?thesis by simp
    qed
    have "(if mp = 11 then if doy = 365 then 29 else 28 else if mp \<in> {1, 3, 6, 8} then 30 else 31) \<le> days_in y m"
      unfolding r(2) days_in_def mon using leap_day by auto
    with mb have "1 \<le> d" "d \<le> days_in y m" unfolding r(3) by (meson order_trans)+
    with range show ?thesis unfolding valid_date_def r(2) by blast
  qed
  moreover have "days_of_date y m d = n"
  proof -
    have "days_before_year y + days_before_month y m = days_before_year (y0 + 1) - 306 + (153 * mp + 2) div 5"
      using days_before_month_march [of mp y0] mb unfolding r mon_def by simp
    moreover have "days_before_year (y0 + 1) = 146097 * era + march_start yoe"
    proof -
      have d: "(400 * era + yoe) div 4 = yoe div 4 + 100 * era" "(400 * era + yoe) div 100 = yoe div 100 + 4 * era"
        using div_mult_self4 [of 4 "100 * era" yoe] div_mult_self4 [of 100 "4 * era" yoe] by simp_all
      have c: "(400 * era + yoe) div 400 = era" using e by simp
      have "days_before_year (y0 + 1) = 365 * (400 * era + yoe) + (400 * era + yoe) div 4 - (400 * era + yoe) div 100 +
          (400 * era + yoe) div 400"
        by (simp only: days_before_year_def Let_def add_diff_cancel_right' y0_def add.commute [of yoe])
      also have "\<dots> = 146097 * era + march_start yoe"
        unfolding d c march_start_def by (simp only: algebra_simps)
      finally show ?thesis .
    qed
    ultimately show ?thesis using doe(3) unfolding days_of_date_def unix_epoch_days_def r(3) doy_def by linarith
  qed
  ultimately show ?thesis ..
qed

section \<open>Printing and parsing\<close>

lemma length_nat_dec: "n < 10 ^ Suc w \<Longrightarrow> length (nat_dec n) \<le> Suc w"
proof (induction w arbitrary: n)
  case (Suc w)
  then show ?case using Suc.IH [of "n div 10"] by (subst nat_dec.simps) auto
qed (simp add: nat_dec.simps)

lemma digits_val_zeros: "digits_val (replicate k (CHR ''0'') @ s) = digits_val s"
  by (induction k) (simp_all add: digits_val_def digit_val_def)

lemma pad_dec_digits:
  assumes "0 \<le> n" "n < 10 ^ Suc w"
  shows "length (pad_dec (Suc w) n) = Suc w \<and> list_all is_digit (pad_dec (Suc w) n) \<and> digits_val (pad_dec (Suc w) n) = n"
proof -
  have "nat n < 10 ^ Suc w" using assms by (simp add: nat_less_iff)
  then have "length (nat_dec (nat n)) \<le> Suc w" by (rule length_nat_dec)
  moreover have "is_digit (CHR ''0'')" by (simp add: is_digit_def)
  ultimately show ?thesis
    using assms nat_dec_correct [of "nat n"]
    by (auto simp: pad_dec_def Let_def digits_val_zeros list_all_iff)
qed

lemma two_chars:
  assumes "0 \<le> n" "n < 100"
  obtains a b where "pad_dec 2 n = [a, b]" "is_digit a" "is_digit b" "digit_val a * 10 + digit_val b = n"
proof -
  have p: "length (pad_dec 2 n) = 2" "list_all is_digit (pad_dec 2 n)" "digits_val (pad_dec 2 n) = n"
    using pad_dec_digits [of n 1] assms by (simp_all add: numeral_2_eq_2)
  then obtain a b where "pad_dec 2 n = [a, b]" by (auto simp: length_Suc_conv numeral_2_eq_2)
  with p that show ?thesis by (simp add: digits_val_def)
qed

lemma two_digits_pad: "0 \<le> n \<Longrightarrow> n < 100 \<Longrightarrow> two_digits (pad_dec 2 n @ r) = Some (n, r)"
  by (erule two_chars) (simp_all add: two_digits_def)

lemma one_or_two_digits_pad: "0 \<le> n \<Longrightarrow> n < 100 \<Longrightarrow> one_or_two_digits (pad_dec 2 n @ r) = Some (n, r)"
  by (erule two_chars) (simp_all add: one_or_two_digits_def)

lemma four_digits_pad: "0 \<le> n \<Longrightarrow> n < 10000 \<Longrightarrow> four_digits (pad_dec 4 n @ r) = Some (n, r)"
  using pad_dec_digits [of n 3] by (simp add: four_digits_def numeral_eq_Suc)

lemma expect_Cons [simp]: "expect c (c # r) = Some r"
  by (simp add: expect_def)

lemma parse_date_format:
  assumes "valid_date y m d" "0 \<le> y" "y < 10000"
  shows "parse_date_prefix (format_ymd (y, m, d) @ r) = Some ((y, m, d), r)"
proof -
  have "d < 100" "m < 100" "0 \<le> d" "0 \<le> m" using assms(1) by (auto simp: valid_date_def days_in_def split: if_splits)
  with assms show ?thesis
    by (simp add: parse_date_prefix_def format_ymd_def four_digits_pad two_digits_pad)
qed

lemma parse_ymd_format:
  "valid_date y m d \<Longrightarrow> 0 \<le> y \<Longrightarrow> y < 10000 \<Longrightarrow> parse_ymd (format_ymd (y, m, d)) = Some (y, m, d)"
  using parse_date_format [of y m d "[]"] by (simp add: parse_ymd_def)

lemma hms_split: "(sod div 3600) * 3600 + (sod div 60 mod 60) * 60 + sod mod 60 = (sod :: int)"
proof -
  have "sod div 3600 = sod div 60 div 60" using zdiv_zmult2_eq [of 60 sod 60] by simp
  then show ?thesis using div_mult_mod_eq [of "sod div 60" 60] div_mult_mod_eq [of sod 60] by linarith
qed

lemma parse_clock_pad:
  assumes "0 \<le> hh" "hh < 24" "0 \<le> mm" "mm < 60" "0 \<le> ss" "ss < 60"
  shows "parse_clock True (pad_dec 2 hh @ CHR '':'' # pad_dec 2 mm @ CHR '':'' # pad_dec 2 ss @ ''Z'') =
    Some ((hh, mm, ss, 0), ''Z'')"
proof -
  have "one_or_two_digits (pad_dec 2 hh @ r) = Some (hh, r)" for r using assms by (intro one_or_two_digits_pad) auto
  moreover have "two_digits (pad_dec 2 mm @ r) = Some (mm, r)" for r using assms by (intro two_digits_pad) auto
  moreover have "two_digits (pad_dec 2 ss @ r) = Some (ss, r)" for r using assms by (intro two_digits_pad) auto
  moreover have "\<not> (24 \<le> hh \<or> 60 \<le> mm)" "\<not> 60 \<le> ss" using assms by auto
  ultimately show ?thesis by (simp add: parse_clock_def skip_fraction_def)
qed

definition clock_text :: "int \<Rightarrow> string" where
  "clock_text sod = pad_dec 2 (sod div 3600) @ CHR '':'' # pad_dec 2 (sod div 60 mod 60) @ CHR '':'' #
     pad_dec 2 (sod mod 60) @ ''Z''"

lemma format_clock_text:
  "format_rfc3339 t = format_ymd (civil_of_days (t div second div 86400)) @ CHR ''T'' # clock_text (t div second mod 86400)"
  by (simp add: format_rfc3339_def Let_def clock_text_def)

lemma clock_text_parse:
  assumes "0 \<le> sod" "sod < 86400"
  shows "parse_clock True (clock_text sod) = Some ((sod div 3600, sod div 60 mod 60, sod mod 60, 0), ''Z'')"
  unfolding clock_text_def by (rule parse_clock_pad) (use assms in simp_all)

lemma parse_format_rfc3339:
  assumes "civil_of_days (t div second div 86400) = (y, m, d)" "0 \<le> y" "y < 10000"
  shows "parse_rfc3339 (format_rfc3339 t) = Some (t div second * second)"
proof -
  define s where "s = t div second"
  define sod where "sod = s mod 86400"
  have sod: "0 \<le> sod" "sod < 86400" by (simp_all add: sod_def)
  have v: "valid_date y m d" "days_of_date y m d = s div 86400"
    using civil_of_days_correct [OF assms(1)] by (simp_all add: s_def)
  have "(sod div 3600) * 3600 + (sod div 60 mod 60) * 60 + sod mod 60 = sod" by (rule hms_split)
  moreover have "(s div 86400) * 86400 + sod = s" by (simp add: sod_def)
  ultimately have "civil_seconds y m d (sod div 3600) (sod div 60 mod 60) (sod mod 60) = s"
    unfolding civil_seconds_def v(2) by linarith
  moreover have "parse_offset ''Z'' = Some (0, [])" by (simp add: parse_offset_def)
  ultimately show ?thesis
    unfolding format_clock_text assms(1) parse_rfc3339_def
    by (simp add: parse_date_format [OF v(1) assms(2,3)] clock_text_parse [OF sod] flip: s_def sod_def)
qed

lemma format_rfc3339_shape:
  assumes "civil_of_days (t div second div 86400) = (y, m, d)" "0 \<le> y" "y < 10000"
  shows "length (format_rfc3339 t) = 20 \<and> is_digit (hd (format_rfc3339 t))"
proof -
  have l: "length (pad_dec 2 n) = 2" if "0 \<le> n" "n < 100" for n by (rule two_chars [OF that]) simp
  have "length (clock_text sod) = 9" if "0 \<le> sod" "sod < 86400" for sod
  proof -
    have "length (pad_dec 2 (sod div 3600)) = 2" by (rule l) (use that in auto)
    moreover have "length (pad_dec 2 (sod div 60 mod 60)) = 2" by (rule l) auto
    moreover have "length (pad_dec 2 (sod mod 60)) = 2" by (rule l) auto
    ultimately show ?thesis by (simp add: clock_text_def)
  qed
  then have c: "length (clock_text (t div second mod 86400)) = 9" by simp
  have v: "valid_date y m d" using civil_of_days_correct [OF assms(1)] by simp
  then have d: "d < 100" "m < 100" "0 \<le> d" "0 \<le> m" by (auto simp: valid_date_def days_in_def split: if_splits)
  obtain c0 cs where y: "pad_dec 4 y = c0 # cs" "length cs = 3" "is_digit c0"
    using pad_dec_digits [of y 3] assms by (cases "pad_dec 4 y") (auto simp: numeral_eq_Suc)
  show ?thesis
    unfolding format_clock_text assms(1) by (simp add: format_ymd_def y l [OF d(4,2)] l [OF d(3,1)] c)
qed

end
