(* ===== verification/TimeParse.thy ===== *)
theory TimeParse
  imports GoCalendar
begin

text \<open>
  \<open>internal/timeparse/timeparse.go\<close> and \<open>internal/tools/helpers_dates.go\<close>: the date and time inputs
  of the tools. A location is what Go's time zone database answers for an instant in seconds: the
  offset from UTC and the span of seconds over which it holds. \<open>date_in\<close> is \<open>time.Date\<close> with its
  adjustment near a transition; the clock reading \<open>now\<close> is an argument.
\<close>

section \<open>Locations\<close>

type_synonym location = "int \<Rightarrow> int \<times> int \<times> int"

definition utc_location :: location where
  "utc_location s = (0, min_int64, max_int64)"

definition offset_at :: "location \<Rightarrow> int \<Rightarrow> int" where
  "offset_at loc s = fst (loc s)"

definition date_in :: "location \<Rightarrow> int \<Rightarrow> int \<Rightarrow> int \<Rightarrow> int \<Rightarrow> int \<Rightarrow> int \<Rightarrow> int \<Rightarrow> instant" where
  "date_in loc y m d hh mm ss ns =
     (let unix = civil_seconds y m d hh mm ss in
      case loc unix of (offset, from0, until0) \<Rightarrow>
        (let adj = (if offset = 0 then 0
                    else if unix - offset < from0 \<or> until0 \<le> unix - offset then offset_at loc (unix - offset)
                    else offset)
         in (unix - adj) * second + ns))"

text \<open>The calendar fields of an instant in a location.\<close>

definition local_seconds :: "location \<Rightarrow> instant \<Rightarrow> int" where
  "local_seconds loc t = t div second + offset_at loc (t div second)"

definition civil_date :: "location \<Rightarrow> instant \<Rightarrow> int \<times> int \<times> int" where
  "civil_date loc t = civil_of_days (local_seconds loc t div 86400)"

text \<open>\<open>t.AddDate(0, 0, n)\<close>: the clock stays, the day moves.\<close>

definition add_days :: "location \<Rightarrow> int \<Rightarrow> instant \<Rightarrow> instant" where
  "add_days loc n t =
     (case civil_date loc t of (y, m, d) \<Rightarrow>
        let sod = local_seconds loc t mod 86400 in
        date_in loc y m (d + n) (sod div 3600) (sod div 60 mod 60) (sod mod 60) (t mod second))"

section \<open>Times of day\<close>

datatype clock_error =
    BadShape | BadHour | BadMinute | BadSecond | HourRange int | MinuteRange int | SecondRange int

definition parse_time_of_day :: "string \<Rightarrow> (clock_error, int \<times> int \<times> int) result" where
  "parse_time_of_day s =
     (let parts = split_on (CHR '':'') s in
      if length parts < 2 \<or> 3 < length parts then Inl BadShape
      else (case atoi (parts ! 0) of
        None \<Rightarrow> Inl BadHour
      | Some hour \<Rightarrow>
          (case atoi (parts ! 1) of
             None \<Rightarrow> Inl BadMinute
           | Some minute0 \<Rightarrow>
               (case (if length parts = 3 then atoi (parts ! 2) else Some 0) of
                  None \<Rightarrow> Inl BadSecond
                | Some sec \<Rightarrow>
                    if hour < 0 \<or> 23 < hour then Inl (HourRange hour)
                    else if minute0 < 0 \<or> 59 < minute0 then Inl (MinuteRange minute0)
                    else if sec < 0 \<or> 59 < sec then Inl (SecondRange sec)
                    else Inr (hour, minute0, sec)))))"

section \<open>Datetimes\<close>

datatype datetime_error = EmptyDatetime | BadClock string clock_error | Unrecognised string

text \<open>The layouts without a zone: date, a separator, and a clock with or without seconds.\<close>

definition parse_layout :: "location \<Rightarrow> char \<Rightarrow> bool \<Rightarrow> string \<Rightarrow> instant option" where
  "parse_layout loc sep with_seconds s =
     Option.bind (parse_date_prefix s) (\<lambda>((y, m, d), s1).
     Option.bind (expect sep s1) (\<lambda>s2.
     Option.bind (parse_clock with_seconds s2) (\<lambda>((hh, mm, ss, ns), s3).
       if s3 = [] then Some (date_in loc y m d hh mm ss ns) else None)))"

fun first_layout :: "location \<Rightarrow> (char \<times> bool) list \<Rightarrow> string \<Rightarrow> instant option" where
  "first_layout loc [] s = None"
| "first_layout loc ((sep, secs) # ls) s =
     (case parse_layout loc sep secs s of Some t \<Rightarrow> Some t | None \<Rightarrow> first_layout loc ls s)"

definition datetime_layouts :: "(char \<times> bool) list" where
  "datetime_layouts = [(CHR ''T'', False), (CHR '' '', False), (CHR ''T'', True), (CHR '' '', True)]"

definition bare_clock :: "string \<Rightarrow> bool" where
  "bare_clock s \<longleftrightarrow>
     length s = 5 \<and> is_digit (s ! 0) \<and> is_digit (s ! 1) \<and> s ! 2 = CHR '':'' \<and> is_digit (s ! 3) \<and> is_digit (s ! 4)"

definition parse_datetime :: "instant \<Rightarrow> string \<Rightarrow> location \<Rightarrow> (datetime_error, instant) result" where
  "parse_datetime now s loc =
     (if s = [] then Inl EmptyDatetime
      else if equal_fold s ''now'' then Inr now
      else
        (case civil_date loc now of (y, m, d) \<Rightarrow>
           let lower = to_lower s;
               today_midnight = date_in loc y m d 0 0 0 0;
               yesterday_midnight = add_days loc (- 1) today_midnight
           in
           if equal_fold s ''today'' then Inr today_midnight
           else if equal_fold s ''yesterday'' then Inr yesterday_midnight
           else if has_prefix lower ''today ''
           then (case parse_time_of_day (trim_space (drop 6 s)) of
                   Inl e \<Rightarrow> Inl (BadClock s e)
                 | Inr (hh, mm, ss) \<Rightarrow> Inr (date_in loc y m d hh mm ss 0))
           else if has_prefix lower ''yesterday ''
           then (case parse_time_of_day (trim_space (drop 10 s)) of
                   Inl e \<Rightarrow> Inl (BadClock s e)
                 | Inr (hh, mm, ss) \<Rightarrow>
                     (case civil_date loc yesterday_midnight of (y', m', d') \<Rightarrow>
                        Inr (date_in loc y' m' d' hh mm ss 0)))
           else if bare_clock s
           then (case parse_time_of_day s of
                   Inl e \<Rightarrow> Inl (BadClock s e)
                 | Inr (hh, mm, ss) \<Rightarrow> Inr (date_in loc y m d hh mm 0 0))
           else if length s = 10
           then (case parse_ymd s of
                   Some (y', m', d') \<Rightarrow> Inr (date_in loc y' m' d' 0 0 0 0)
                 | None \<Rightarrow> Inl (Unrecognised s))
           else (case parse_rfc3339 s of
                   Some t \<Rightarrow> Inr t
                 | None \<Rightarrow>
                     (case first_layout loc datetime_layouts s of
                        Some t \<Rightarrow> Inr t
                      | None \<Rightarrow> Inl (Unrecognised s)))))"

definition format_iso :: "instant \<Rightarrow> string" where
  "format_iso t = format_rfc3339 t"

section \<open>Dates of the tools\<close>

text \<open>\<open>loadLocation\<close>; \<open>load0\<close> is \<open>time.LoadLocation\<close>, \<open>here\<close> the local zone.\<close>

definition load_location ::
  "(string \<Rightarrow> location option) \<Rightarrow> location \<Rightarrow> string \<Rightarrow> location option \<Rightarrow> (string, location) result" where
  "load_location load0 here name default_tz =
     (if trim_space name = [] then Inr (case default_tz of Some tz \<Rightarrow> tz | None \<Rightarrow> here)
      else (case load0 name of None \<Rightarrow> Inl name | Some loc \<Rightarrow> Inr loc))"

definition parse_flexible_date_time :: "string \<Rightarrow> (string, instant) result" where
  "parse_flexible_date_time raw =
     (case parse_rfc3339 raw of
        Some t \<Rightarrow> Inr t
      | None \<Rightarrow>
          (case parse_ymd raw of
             Some (y, m, d) \<Rightarrow> Inr (date_in utc_location y m d 0 0 0 0)
           | None \<Rightarrow> Inl raw))"

definition is_bare_date_string :: "string \<Rightarrow> bool" where
  "is_bare_date_string raw0 =
     (let raw = trim_space raw0 in length raw = 10 \<and> parse_ymd raw \<noteq> None)"

datatype range_error = RangeRequired | BadStart string | BadEnd string | EndNotAfterStart

definition parse_range_in_location ::
  "instant \<Rightarrow> string \<Rightarrow> string \<Rightarrow> location option \<Rightarrow> (range_error, instant \<times> instant) result" where
  "parse_range_in_location now start_raw end_raw loc0 =
     (let loc = (case loc0 of None \<Rightarrow> utc_location | Some l \<Rightarrow> l) in
      if start_raw = [] \<or> end_raw = [] then Inl RangeRequired
      else (case parse_datetime now start_raw loc of
        Inl e \<Rightarrow> Inl (BadStart start_raw)
      | Inr start \<Rightarrow>
          (case parse_datetime now end_raw loc of
             Inl e \<Rightarrow> Inl (BadEnd end_raw)
           | Inr end0 \<Rightarrow>
               (let fin = (if end0 \<le> start \<and> is_bare_date_string end_raw then add_days utc_location 1 end0 else end0)
                in if fin \<le> start then Inl EndNotAfterStart else Inr (start, fin)))))"

definition entry_range_query :: "instant \<Rightarrow> instant \<Rightarrow> (string \<times> string) list" where
  "entry_range_query start fin = [(''start'', format_rfc3339 start), (''end'', format_rfc3339 fin)]"

section \<open>What the parsers promise\<close>

lemma equal_fold_length: "equal_fold s t \<Longrightarrow> length s = length t"
  by (metis equal_fold_def length_to_lower)

lemma lower_digit: "is_digit c \<Longrightarrow> lower_char c = c"
  by (auto simp: is_digit_def lower_char_def Let_def)

lemma digit_no_keyword:
  assumes "is_digit (hd s)" "s \<noteq> []" "\<not> is_digit (hd k)" "k \<noteq> []"
  shows "\<not> has_prefix (to_lower s) k"
  using assms by (cases s; cases k) (auto simp: to_lower_def lower_digit)

text \<open>C38 (printed times parse back): a time with a year of four digits, printed in RFC 3339, is read as
  the same time, cut to whole seconds, by both parsers, whatever the location and the clock.\<close>

theorem format_iso_roundtrip:
  assumes "0 \<le> fst (civil_of_days (t div second div 86400))" and "fst (civil_of_days (t div second div 86400)) < 10000"
  shows "parse_datetime now (format_iso t) loc = Inr (t div second * second) \<and>
    parse_flexible_date_time (format_iso t) = Inr (t div second * second)"
proof -
  obtain y m d where c: "civil_of_days (t div second div 86400) = (y, m, d)" by (metis prod_cases3)
  with assms have y: "0 \<le> y" "y < 10000" by simp_all
  let ?s = "format_rfc3339 t"
  have p: "parse_rfc3339 ?s = Some (t div second * second)" by (rule parse_format_rfc3339 [OF c y])
  have l: "length ?s = 20" "is_digit (hd ?s)" using format_rfc3339_shape [OF c y] by auto
  then have ne: "?s \<noteq> []" by auto
  have "\<not> equal_fold ?s ''now''" "\<not> equal_fold ?s ''today''" "\<not> equal_fold ?s ''yesterday''"
    using l(1) by (auto dest!: equal_fold_length)
  moreover have "\<not> has_prefix (to_lower ?s) ''today ''" "\<not> has_prefix (to_lower ?s) ''yesterday ''"
    using l(2) ne by (intro digit_no_keyword; simp add: is_digit_def)+
  moreover have "\<not> bare_clock ?s" "length ?s \<noteq> 10" using l(1) by (simp_all add: bare_clock_def)
  ultimately show ?thesis
    using ne p by (simp add: parse_datetime_def format_iso_def parse_flexible_date_time_def Let_def split: prod.split)
qed

lemma format_iso_roundtrip_witness:
  "parse_datetime 0 (format_iso (951782399 * second + 7)) utc_location = Inr (951782399 * second)"
proof -
  have "fst (civil_of_days ((951782399 * second + 7) div second div 86400)) = 2000" by code_simp
  moreover have "(951782399 * second + 7) div second * second = 951782399 * second" by (simp add: second_def)
  ultimately show ?thesis using format_iso_roundtrip [of "951782399 * second + 7" 0 utc_location] by simp
qed

lemma days_of_date_add: "days_of_date y m (d + n) = days_of_date y m d + n"
  by (simp add: days_of_date_def)

lemma date_in_utc: "date_in utc_location y m d hh mm ss ns = civil_seconds y m d hh mm ss * second + ns"
  by (simp add: date_in_def utc_location_def Let_def)

lemma local_seconds_utc: "local_seconds utc_location t = t div second"
  by (simp add: local_seconds_def offset_at_def utc_location_def)

lemma add_days_utc: "add_days utc_location n t = t + n * 86400 * second"
proof -
  obtain y m d where c: "civil_of_days (t div second div 86400) = (y, m, d)" by (metis prod_cases3)
  define sod where "sod = t div second mod 86400"
  have "days_of_date y m d = t div second div 86400" using civil_of_days_correct [OF c] by simp
  then have "civil_seconds y m (d + n) (sod div 3600) (sod div 60 mod 60) (sod mod 60) =
      (t div second div 86400 + n) * 86400 + sod"
    using hms_split [of sod] by (simp add: civil_seconds_def days_of_date_add)
  also have "\<dots> = t div second + n * 86400"
    using div_mult_mod_eq [of "t div second" 86400] by (simp only: sod_def distrib_right)
  finally have s: "civil_seconds y m (d + n) (sod div 3600) (sod div 60 mod 60) (sod mod 60) = t div second + n * 86400" .
  have "add_days utc_location n t = (t div second + n * 86400) * second + t mod second"
    unfolding add_days_def civil_date_def local_seconds_utc c prod.case Let_def date_in_utc sod_def [symmetric] s ..
  also have "\<dots> = t + n * 86400 * second"
    using div_mult_mod_eq [of t second] by (simp only: distrib_right)
  finally show ?thesis .
qed

text \<open>Date ranges: a range that is accepted is not empty, begins at the parsed start, and ends at the
  parsed end; only when that end is a bare date that does not lie after the start it ends exactly 24
  hours later, so that a one-day range covers its day. Everything else is rejected.\<close>

lemma range_well_formed:
  assumes "parse_range_in_location now a b loc0 = Inr (start, fin)"
  shows "start < fin \<and> a \<noteq> [] \<and> b \<noteq> [] \<and>
    parse_datetime now a (case loc0 of None \<Rightarrow> utc_location | Some l \<Rightarrow> l) = Inr start \<and>
    (\<exists>e. parse_datetime now b (case loc0 of None \<Rightarrow> utc_location | Some l \<Rightarrow> l) = Inr e \<and>
       (if e \<le> start then is_bare_date_string b \<and> fin = e + 86400 * second else fin = e))"
  using assms
  by (auto simp: parse_range_in_location_def add_days_utc Let_def not_le split: sum.splits if_splits)

lemma range_well_formed_witness:
  "parse_range_in_location 0 ''2026-03-29'' ''2026-03-29'' None = Inr (1774742400 * second, 1774828800 * second) \<and>
   1774742400 * second < 1774828800 * second"
proof -
  have "parse_range_in_location 0 ''2026-03-29'' ''2026-03-29'' None = Inr (1774742400 * second, 1774828800 * second)"
    by code_simp
  with range_well_formed [OF this] show ?thesis by blast
qed

text \<open>The 24 hours are counted in UTC: in a location whose clock moves forward that night, the range of a
  single day ends an hour after the local midnight.\<close>

definition spring_forward :: location where
  "spring_forward s = (if s < 1774746000 then (3600, min_int64, 1774746000) else (7200, 1774746000, max_int64))"

lemma range_of_short_day:
  "parse_range_in_location 0 ''2026-03-29'' ''2026-03-29'' (Some spring_forward) =
     Inr (date_in spring_forward 2026 3 29 0 0 0 0, date_in spring_forward 2026 3 30 0 0 0 0 + 3600 * second)"
  by code_simp

text \<open>The words of the clock, in UTC.\<close>

lemma clock_words_utc:
  "parse_datetime now ''today'' utc_location = Inr (now div (second * 86400) * 86400 * second)"
  "parse_datetime now ''yesterday'' utc_location = Inr ((now div (second * 86400) - 1) * 86400 * second)"
proof -
  obtain y m d where c: "civil_of_days (now div second div 86400) = (y, m, d)" by (metis prod_cases3)
  have "days_of_date y m d = now div second div 86400" using civil_of_days_correct [OF c] by simp
  then have m: "date_in utc_location y m d 0 0 0 0 = now div (second * 86400) * 86400 * second"
    by (simp add: date_in_utc civil_seconds_def zdiv_zmult2_eq)
  have f: "\<not> equal_fold ''today'' ''now''" "\<not> equal_fold ''yesterday'' ''now''" "equal_fold ''today'' ''today''"
    "\<not> equal_fold ''yesterday'' ''today''" "equal_fold ''yesterday'' ''yesterday''"
    by code_simp+
  have w: "civil_date utc_location now = (y, m, d)" by (simp add: civil_date_def local_seconds_utc c)
  show "parse_datetime now ''today'' utc_location = Inr (now div (second * 86400) * 86400 * second)"
    unfolding parse_datetime_def w using f m by (simp add: Let_def)
  show "parse_datetime now ''yesterday'' utc_location = Inr ((now div (second * 86400) - 1) * 86400 * second)"
    unfolding parse_datetime_def w using f m by (simp add: Let_def add_days_utc algebra_simps)
qed

end
