(* ===== verification/LruCache.thy ===== *)
theory LruCache
  imports GoPrelude
begin

text \<open>
  \<open>internal/tools/resource_cache.go\<close>: the bounded LRU cache of the last emitted serialisation of
  every subscribed resource. \<open>container/list\<close> is a list of element addresses, front first, with
  the values in a store; the index maps a URI to the address of its element. The section on the
  abstract cache gives the specification, an association list ordered by recency and cut to the
  capacity, and the locale \<open>baseline_store\<close> the laws a client of such a lossy map relies on.
\<close>

section \<open>The cache\<close>

record lru =
  lru_cap :: int
  lru_ll :: "nat list"
  lru_value :: "nat \<rightharpoonup> string \<times> string"
  lru_index :: "string \<rightharpoonup> nat"
  lru_next :: nat

definition new_resource_state_cache :: "int \<Rightarrow> lru" where
  "new_resource_state_cache capacity =
     \<lparr>lru_cap = (if capacity \<le> 0 then 1024 else capacity), lru_ll = [], lru_value = Map.empty,
      lru_index = Map.empty, lru_next = 0\<rparr>"

text \<open>\<open>list.MoveToFront\<close>: an element of another list is left alone.\<close>

definition move_to_front :: "nat \<Rightarrow> nat list \<Rightarrow> nat list" where
  "move_to_front el ll = (if el \<in> set ll then el # remove1 el ll else ll)"

definition lru_get :: "lru \<Rightarrow> string \<Rightarrow> string option \<times> lru" where
  "lru_get c uri =
     (case lru_index c uri of
        None \<Rightarrow> (None, c)
      | Some el \<Rightarrow>
          (case lru_value c el of
             None \<Rightarrow> (None, c\<lparr>lru_ll := move_to_front el (lru_ll c)\<rparr>)
           | Some (_, entry) \<Rightarrow> (Some entry, c\<lparr>lru_ll := move_to_front el (lru_ll c)\<rparr>)))"

definition evict_oldest :: "lru \<Rightarrow> lru" where
  "evict_oldest c =
     (case rev (lru_ll c) of
        [] \<Rightarrow> c
      | oldest # _ \<Rightarrow>
          c\<lparr>lru_index :=
              (case lru_value c oldest of
                 None \<Rightarrow> lru_index c
               | Some (uri, _) \<Rightarrow> (lru_index c)(uri := None)),
            lru_ll := remove1 oldest (lru_ll c)\<rparr>)"

definition push_front :: "lru \<Rightarrow> string \<Rightarrow> string \<Rightarrow> lru" where
  "push_front c uri snapshot =
     c\<lparr>lru_ll := lru_next c # lru_ll c,
       lru_value := (lru_value c)(lru_next c \<mapsto> (uri, snapshot)),
       lru_index := (lru_index c)(uri \<mapsto> lru_next c),
       lru_next := lru_next c + 1\<rparr>"

definition lru_put :: "lru \<Rightarrow> string \<Rightarrow> string \<Rightarrow> lru" where
  "lru_put c uri snapshot =
     (case lru_index c uri of
        Some el \<Rightarrow>
          c\<lparr>lru_ll := move_to_front el (lru_ll c),
            lru_value :=
              (case lru_value c el of
                 None \<Rightarrow> lru_value c
               | Some (u, _) \<Rightarrow> (lru_value c)(el \<mapsto> (u, snapshot)))\<rparr>
      | None \<Rightarrow>
          (let c' = push_front c uri snapshot
           in if int (length (lru_ll c')) > lru_cap c' then evict_oldest c' else c'))"

definition lru_drop :: "lru \<Rightarrow> string \<Rightarrow> lru" where
  "lru_drop c uri =
     (case lru_index c uri of
        None \<Rightarrow> c
      | Some el \<Rightarrow>
          c\<lparr>lru_index := (lru_index c)(uri := None), lru_ll := remove1 el (lru_ll c)\<rparr>)"

definition lru_len :: "lru \<Rightarrow> nat" where
  "lru_len c = length (lru_ll c)"

section \<open>The abstract cache\<close>

text \<open>Entries by recency, most recent first.\<close>

type_synonym entries = "(string \<times> string) list"

definition touch :: "string \<Rightarrow> entries \<Rightarrow> entries" where
  "touch uri al = (case map_of al uri of None \<Rightarrow> al | Some d \<Rightarrow> (uri, d) # AList.delete uri al)"

definition store_entry :: "int \<Rightarrow> string \<Rightarrow> string \<Rightarrow> entries \<Rightarrow> entries" where
  "store_entry capacity uri d al = take (nat capacity) ((uri, d) # AList.delete uri al)"

datatype cache_op = CGet string | CPut string string | CDrop string

fun cache_step :: "lru \<Rightarrow> cache_op \<Rightarrow> string option \<times> lru" where
  "cache_step c (CGet uri) = lru_get c uri"
| "cache_step c (CPut uri d) = (None, lru_put c uri d)"
| "cache_step c (CDrop uri) = (None, lru_drop c uri)"

fun spec_step :: "int \<Rightarrow> entries \<Rightarrow> cache_op \<Rightarrow> string option \<times> entries" where
  "spec_step capacity al (CGet uri) = (map_of al uri, touch uri al)"
| "spec_step capacity al (CPut uri d) = (None, store_entry capacity uri d al)"
| "spec_step capacity al (CDrop uri) = (None, AList.delete uri al)"

fun run_ops :: "('s \<Rightarrow> cache_op \<Rightarrow> string option \<times> 's) \<Rightarrow> 's \<Rightarrow> cache_op list \<Rightarrow> string option list \<times> 's" where
  "run_ops step s [] = ([], s)"
| "run_ops step s (x # ops) =
     (let (out, s') = step s x; (outs, s'') = run_ops step s' ops in (out # outs, s''))"

definition lru_entries :: "lru \<Rightarrow> entries" where
  "lru_entries c = map (\<lambda>el. the (lru_value c el)) (lru_ll c)"

section \<open>The invariant\<close>

text \<open>The index points to exactly the elements of the list, and the list is no longer than the
  capacity.\<close>

definition linked :: "lru \<Rightarrow> bool" where
  "linked c \<longleftrightarrow> distinct (lru_ll c) \<and>
     (\<forall>el \<in> set (lru_ll c). el < lru_next c \<and>
        (\<exists>u d. lru_value c el = Some (u, d) \<and> lru_index c u = Some el)) \<and>
     (\<forall>u el. lru_index c u = Some el \<longrightarrow>
        el \<in> set (lru_ll c) \<and> (\<exists>d. lru_value c el = Some (u, d)))"

definition lru_inv :: "lru \<Rightarrow> bool" where
  "lru_inv c \<longleftrightarrow> linked c \<and> 0 < lru_cap c \<and> int (length (lru_ll c)) \<le> lru_cap c"

lemma linkedD:
  assumes "linked c"
  shows "distinct (lru_ll c)"
    and "el \<in> set (lru_ll c) \<Longrightarrow> el < lru_next c"
    and "el \<in> set (lru_ll c) \<Longrightarrow> \<exists>u d. lru_value c el = Some (u, d) \<and> lru_index c u = Some el"
    and "lru_index c u = Some el \<Longrightarrow> el \<in> set (lru_ll c) \<and> (\<exists>d. lru_value c el = Some (u, d))"
  using assms by (auto simp: linked_def)

lemma linkedI:
  assumes "distinct (lru_ll c)"
    and "\<And>el. el \<in> set (lru_ll c) \<Longrightarrow>
           \<exists>u d. el < lru_next c \<and> lru_value c el = Some (u, d) \<and> lru_index c u = Some el"
    and "\<And>u el. lru_index c u = Some el \<Longrightarrow> \<exists>d. el \<in> set (lru_ll c) \<and> lru_value c el = Some (u, d)"
  shows "linked c"
  unfolding linked_def using assms by blast

lemma linked_cases:
  assumes "linked c"
  obtains (miss) "lru_index c u = None"
    | (hit) el d where "lru_index c u = Some el" "lru_value c el = Some (u, d)" "el \<in> set (lru_ll c)"
  using linkedD(4) [OF assms, of u] by (cases "lru_index c u") blast+

lemma entries_iff:
  assumes "linked c"
  shows "(u, d) \<in> set (lru_entries c) \<longleftrightarrow>
           (\<exists>el. lru_index c u = Some el \<and> lru_value c el = Some (u, d))" (is "?l \<longleftrightarrow> ?r")
proof
  assume ?l
  then obtain el where el: "el \<in> set (lru_ll c)" "the (lru_value c el) = (u, d)"
    by (auto simp: lru_entries_def)
  with linkedD(3) [OF assms el(1)] show ?r by auto
next
  assume ?r
  then obtain el where el: "lru_index c u = Some el" "lru_value c el = Some (u, d)" by blast
  then have "el \<in> set (lru_ll c)" using linkedD(4) [OF assms el(1)] by blast
  then show ?l using el(2) by (simp add: lru_entries_def rev_image_eqI)
qed

lemma entries_lookup_None:
  assumes "linked c" and "lru_index c u = None"
  shows "map_of (lru_entries c) u = None"
  using entries_iff [OF assms(1), of u] assms(2) by (force simp: map_of_eq_None_iff)

lemma entries_distinct: "linked c \<Longrightarrow> distinct (map fst (lru_entries c))"
proof -
  assume l: "linked c"
  have "inj_on (\<lambda>el. fst (the (lru_value c el))) (set (lru_ll c))"
    by (rule inj_onI) (metis linkedD(3) [OF l] fst_conv option.inject option.sel)
  with l show ?thesis by (simp add: lru_entries_def distinct_map linkedD comp_def)
qed

lemma entries_lookup:
  assumes "linked c" and "lru_index c u = Some el" and "lru_value c el = Some (v, d)"
  shows "v = u" and "map_of (lru_entries c) u = Some d"
proof -
  show v: "v = u" using assms(3) linkedD(4) [OF assms(1,2)] by auto
  have "(u, d) \<in> set (lru_entries c)" using assms v by (simp add: entries_iff)
  with assms(1) show "map_of (lru_entries c) u = Some d" by (simp add: entries_distinct)
qed

text \<open>Taking an element out of the list deletes its key.\<close>

lemma entries_remove:
  assumes "linked c" and "lru_index c u = Some el"
  shows "map (\<lambda>e. the (lru_value c e)) (remove1 el (lru_ll c)) = AList.delete u (lru_entries c)"
proof -
  have key: "fst (the (lru_value c e)) = u \<longleftrightarrow> e = el" if "e \<in> set (lru_ll c)" for e
    using that assms by (metis linkedD(3,4) fst_conv option.inject option.sel)
  have "remove1 el (lru_ll c) = filter (\<lambda>e. e \<noteq> el) (lru_ll c)"
    using assms by (simp add: distinct_remove1_removeAll linkedD removeAll_filter_not_eq eq_commute)
  also have "\<dots> = filter (\<lambda>e. u \<noteq> fst (the (lru_value c e))) (lru_ll c)"
    using key by (auto intro: filter_cong)
  finally show ?thesis
    by (simp add: lru_entries_def AList.delete_eq filter_map comp_def case_prod_beta)
qed

lemma linked_new: "linked (new_resource_state_cache capacity)"
  by (simp add: linked_def new_resource_state_cache_def)

lemma inv_new: "lru_inv (new_resource_state_cache capacity)"
  by (simp add: lru_inv_def linked_new) (simp add: new_resource_state_cache_def)

section \<open>Each operation refines its specification\<close>

lemma length_move_to_front [simp]: "length (move_to_front el ll) = length ll"
  by (auto simp: move_to_front_def length_remove1)
    (metis One_nat_def Suc_pred length_pos_if_in_set)

lemma set_move_to_front [simp]: "distinct ll \<Longrightarrow> set (move_to_front el ll) = set ll"
  by (auto simp: move_to_front_def)

lemma distinct_move_to_front [simp]: "distinct ll \<Longrightarrow> distinct (move_to_front el ll)"
  by (auto simp: move_to_front_def)

lemma touch_entries:
  assumes "linked c" and "lru_index c u = Some el" and "lru_value c el = Some (u, d)"
  shows "map (\<lambda>e. the (lru_value c e)) (move_to_front el (lru_ll c)) = (u, d) # AList.delete u (lru_entries c)"
  using assms linkedD(4) [OF assms(1,2)] by (simp add: move_to_front_def entries_remove)

lemma get_refines:
  assumes "linked c"
  shows "fst (lru_get c u) = map_of (lru_entries c) u \<and>
         lru_entries (snd (lru_get c u)) = touch u (lru_entries c) \<and>
         linked (snd (lru_get c u)) \<and>
         lru_cap (snd (lru_get c u)) = lru_cap c \<and>
         length (lru_ll (snd (lru_get c u))) = length (lru_ll c)"
proof (cases rule: linked_cases [OF assms, of u])
  case 1
  then show ?thesis by (simp add: lru_get_def touch_def entries_lookup_None assms)
next
  case (2 el d)
  have "linked (c\<lparr>lru_ll := move_to_front el (lru_ll c)\<rparr>)"
    using assms by (simp add: linked_def)
  moreover have "lru_entries (c\<lparr>lru_ll := move_to_front el (lru_ll c)\<rparr>) = (u, d) # AList.delete u (lru_entries c)"
    using touch_entries [OF assms 2(1,2)] by (simp add: lru_entries_def)
  ultimately show ?thesis
    using 2 entries_lookup [OF assms 2(1,2)] by (simp add: lru_get_def touch_def)
qed

lemma drop_refines:
  assumes "linked c"
  shows "lru_entries (lru_drop c u) = AList.delete u (lru_entries c) \<and> linked (lru_drop c u) \<and>
         lru_cap (lru_drop c u) = lru_cap c \<and> length (lru_ll (lru_drop c u)) \<le> length (lru_ll c)"
proof (cases rule: linked_cases [OF assms, of u])
  case 1
  then have "u \<notin> fst ` set (lru_entries c)"
    using entries_lookup_None [OF assms] by (simp add: map_of_eq_None_iff)
  with 1 assms show ?thesis by (simp add: lru_drop_def delete_id)
next
  case (2 el d)
  have "linked (lru_drop c u)"
  proof (rule linkedI)
    show "distinct (lru_ll (lru_drop c u))"
      using 2 linkedD(1) [OF assms] by (simp add: lru_drop_def)
  next
    fix e assume "e \<in> set (lru_ll (lru_drop c u))"
    then have e: "e \<in> set (lru_ll c)" "e \<noteq> el" using 2 linkedD(1) [OF assms] by (auto simp: lru_drop_def)
    then obtain v x where v: "lru_value c e = Some (v, x)" "lru_index c v = Some e" "e < lru_next c"
      using linkedD(2,3) [OF assms] by blast
    with 2 e(2) show "\<exists>v x. e < lru_next (lru_drop c u) \<and> lru_value (lru_drop c u) e = Some (v, x) \<and>
        lru_index (lru_drop c u) v = Some e"
      by (intro exI [of _ v] exI [of _ x]) (auto simp: lru_drop_def)
  next
    fix v e assume "lru_index (lru_drop c u) v = Some e"
    with 2 have v: "v \<noteq> u" "lru_index c v = Some e" by (auto simp: lru_drop_def split: if_splits)
    with 2 have "e \<noteq> el" using linkedD(4) [OF assms] by (metis option.inject prod.inject)
    with v 2 show "\<exists>x. e \<in> set (lru_ll (lru_drop c u)) \<and> lru_value (lru_drop c u) e = Some (v, x)"
      using linkedD(4) [OF assms v(2)] by (auto simp: lru_drop_def)
  qed
  moreover have "lru_entries (lru_drop c u) = AList.delete u (lru_entries c)"
    using 2 entries_remove [OF assms 2(1)] by (simp add: lru_drop_def) (simp add: lru_entries_def)
  ultimately show ?thesis using 2 by (simp add: lru_drop_def length_remove1)
qed

lemma push_front_refines:
  assumes "linked c" and "lru_index c u = None"
  shows "lru_entries (push_front c u d) = (u, d) # lru_entries c \<and> linked (push_front c u d)"
proof -
  have fresh: "lru_next c \<notin> set (lru_ll c)" using linkedD(2) [OF assms(1)] by blast
  then have "lru_entries (push_front c u d) = (u, d) # lru_entries c"
    by (auto simp: push_front_def lru_entries_def)
  moreover have "linked (push_front c u d)"
  proof (rule linkedI)
    show "distinct (lru_ll (push_front c u d))"
      using fresh linkedD(1) [OF assms(1)] by (simp add: push_front_def)
  next
    fix e assume e: "e \<in> set (lru_ll (push_front c u d))"
    show "\<exists>v x. e < lru_next (push_front c u d) \<and> lru_value (push_front c u d) e = Some (v, x) \<and>
        lru_index (push_front c u d) v = Some e"
    proof (cases "e = lru_next c")
      case True
      then show ?thesis by (simp add: push_front_def)
    next
      case False
      with e have m: "e \<in> set (lru_ll c)" by (simp add: push_front_def)
      then obtain v x where v: "lru_value c e = Some (v, x)" "lru_index c v = Some e"
        using linkedD(3) [OF assms(1)] by blast
      with False assms(2) linkedD(2) [OF assms(1) m] show ?thesis
        by (intro exI [of _ v] exI [of _ x]) (auto simp: push_front_def)
    qed
  next
    fix v e assume "lru_index (push_front c u d) v = Some e"
    then show "\<exists>x. e \<in> set (lru_ll (push_front c u d)) \<and> lru_value (push_front c u d) e = Some (v, x)"
      using linkedD(4) [OF assms(1), of v e] fresh by (auto simp: push_front_def split: if_splits)
  qed
  ultimately show ?thesis ..
qed

lemma evict_refines:
  assumes "linked c" and "lru_ll c \<noteq> []"
  shows "lru_entries (evict_oldest c) = butlast (lru_entries c) \<and> linked (evict_oldest c) \<and>
         lru_ll (evict_oldest c) = butlast (lru_ll c)"
proof -
  obtain es el where ll: "lru_ll c = es @ [el]" using assms(2) by (cases "lru_ll c" rule: rev_cases) auto
  then have el: "el \<in> set (lru_ll c)" and new: "el \<notin> set es" using linkedD(1) [OF assms(1)] by auto
  then obtain u d where v: "lru_value c el = Some (u, d)" "lru_index c u = Some el"
    using linkedD(3) [OF assms(1)] by blast
  have rest: "remove1 el (lru_ll c) = es" using ll new by (simp add: remove1_append)
  have evict: "evict_oldest c = lru_drop c u"
    using ll v by (simp add: evict_oldest_def lru_drop_def)
  then have "linked (evict_oldest c)" using drop_refines [OF assms(1)] by simp
  moreover have "lru_ll (evict_oldest c) = es" using evict v rest by (simp add: lru_drop_def)
  moreover have "lru_value (evict_oldest c) = lru_value c" using evict v by (simp add: lru_drop_def)
  ultimately show ?thesis using ll by (simp add: lru_entries_def)
qed

lemma put_refines:
  assumes inv: "lru_inv c"
  shows "lru_entries (lru_put c u d) = store_entry (lru_cap c) u d (lru_entries c) \<and>
         lru_inv (lru_put c u d) \<and> lru_cap (lru_put c u d) = lru_cap c"
proof -
  have l: "linked c" and cap: "0 < lru_cap c" "int (length (lru_ll c)) \<le> lru_cap c"
    using inv by (simp_all add: lru_inv_def)
  have len: "length (lru_entries c) = length (lru_ll c)" by (simp add: lru_entries_def)
  show ?thesis
  proof (cases rule: linked_cases [OF l, of u])
    case 1
    have fresh: "AList.delete u (lru_entries c) = lru_entries c"
      using entries_lookup_None [OF l 1] by (simp add: delete_id map_of_eq_None_iff)
    note push = push_front_refines [OF l 1, of d]
    have ll: "lru_ll (push_front c u d) = lru_next c # lru_ll c" "lru_cap (push_front c u d) = lru_cap c"
      by (simp_all add: push_front_def)
    have same: "lru_cap (evict_oldest b) = lru_cap b" for b
      by (simp add: evict_oldest_def split: list.split)
    show ?thesis
    proof (cases "int (length (lru_ll (push_front c u d))) > lru_cap (push_front c u d)")
      case True
      then have full: "nat (lru_cap c) = length (lru_ll c)" using cap ll by simp
      have put: "lru_put c u d = evict_oldest (push_front c u d)"
        using 1 True by (simp add: lru_put_def Let_def)
      note evict = evict_refines [OF conjunct2 [OF push]]
      show ?thesis
        using put evict push ll fresh full cap same len
        by (simp add: store_entry_def lru_inv_def butlast_conv_take)
    next
      case False
      then have "lru_put c u d = push_front c u d" using 1 by (simp add: lru_put_def Let_def)
      with False ll push fresh cap len show ?thesis by (simp add: store_entry_def lru_inv_def)
    qed
  next
    case (2 el d0)
    let ?c = "c\<lparr>lru_ll := move_to_front el (lru_ll c), lru_value := (lru_value c)(el \<mapsto> (u, d))\<rparr>"
    have put: "lru_put c u d = ?c" using 2 by (simp add: lru_put_def)
    have front: "lru_ll ?c = el # remove1 el (lru_ll c)" using 2 by (simp add: move_to_front_def)
    have "el \<notin> set (remove1 el (lru_ll c))" using linkedD(1) [OF l] by simp
    then have "map (\<lambda>e. the (lru_value ?c e)) (remove1 el (lru_ll c)) = AList.delete u (lru_entries c)"
      by (subst entries_remove [OF l 2(1), symmetric]) (auto intro: map_cong)
    then have ents: "lru_entries ?c = (u, d) # AList.delete u (lru_entries c)"
      using front by (simp add: lru_entries_def)
    have "length (lru_entries ?c) = length (lru_ll c)" by (simp add: lru_entries_def)
    with ents cap have "store_entry (lru_cap c) u d (lru_entries c) = lru_entries ?c"
      by (simp add: store_entry_def)
    moreover have "linked ?c"
      using l 2 by (simp add: linked_def) (metis option.inject prod.inject)
    ultimately show ?thesis using put cap by (simp add: lru_inv_def)
  qed
qed

lemma cache_step_refines:
  assumes "lru_inv c"
  shows "fst (cache_step c x) = fst (spec_step (lru_cap c) (lru_entries c) x) \<and>
         lru_entries (snd (cache_step c x)) = snd (spec_step (lru_cap c) (lru_entries c) x) \<and>
         lru_inv (snd (cache_step c x)) \<and> lru_cap (snd (cache_step c x)) = lru_cap c"
proof -
  have l: "linked c" using assms by (simp add: lru_inv_def)
  show ?thesis
  proof (cases x)
    case (CGet u)
    then show ?thesis using assms get_refines [OF l, of u] by (simp add: lru_inv_def)
  next
    case (CPut u d)
    then show ?thesis using put_refines [OF assms] by simp
  next
    case (CDrop u)
    then show ?thesis using assms drop_refines [OF l, of u] by (auto simp: lru_inv_def)
  qed
qed

lemma run_refines:
  assumes "lru_inv c"
  shows "fst (run_ops cache_step c ops) = fst (run_ops (spec_step (lru_cap c)) (lru_entries c) ops) \<and>
         lru_entries (snd (run_ops cache_step c ops)) = snd (run_ops (spec_step (lru_cap c)) (lru_entries c) ops) \<and>
         lru_inv (snd (run_ops cache_step c ops)) \<and> lru_cap (snd (run_ops cache_step c ops)) = lru_cap c"
  using assms
proof (induction ops arbitrary: c)
  case (Cons x ops)
  note step = cache_step_refines [OF Cons.prems, of x]
  then have "lru_inv (snd (cache_step c x))" by blast
  from Cons.IH [OF this] step show ?case by (simp add: Let_def case_prod_beta)
qed simp

text \<open>C37 (the delta cache is a bounded recency list): whatever the capacity asked for and whatever
  sequence of \<open>get\<close>, \<open>put\<close> and \<open>drop\<close> calls is made on a new cache, the linked list and its index
  answer every call as the association list ordered by recency and cut to the capacity does, they
  stay consistent with one another, and no more than the capacity (1024 for a non-positive one) is
  ever held.\<close>

theorem lru_refines_recency_list:
  "let c0 = new_resource_state_cache capacity;
       bound = (if capacity \<le> 0 then 1024 else capacity);
       (outs, c) = run_ops cache_step c0 ops;
       (spec_outs, al) = run_ops (spec_step bound) [] ops
   in outs = spec_outs \<and> lru_entries c = al \<and> lru_inv c \<and> int (lru_len c) \<le> bound"
proof -
  let ?c = "new_resource_state_cache capacity"
  have "lru_entries ?c = []" and "lru_cap ?c = (if capacity \<le> 0 then 1024 else capacity)"
    by (simp_all add: new_resource_state_cache_def lru_entries_def)
  with run_refines [OF inv_new, of capacity ops] show ?thesis
    by (auto simp: Let_def case_prod_beta lru_inv_def lru_len_def)
qed

section \<open>The contract of a lossy store\<close>

text \<open>What a client that diffs against a remembered state relies on: a hit returns the last value
  stored, and no operation makes up or changes an entry of another key. Entries may vanish.\<close>

locale baseline_store =
  fixes inv :: "'c \<Rightarrow> bool"
    and peek :: "'c \<Rightarrow> string \<Rightarrow> string option"
    and get :: "'c \<Rightarrow> string \<Rightarrow> string option \<times> 'c"
    and put :: "'c \<Rightarrow> string \<Rightarrow> string \<Rightarrow> 'c"
    and drop_entry :: "'c \<Rightarrow> string \<Rightarrow> 'c"
  assumes get_returns: "inv c \<Longrightarrow> fst (get c k) = peek c k"
    and get_inv: "inv c \<Longrightarrow> inv (snd (get c k))"
    and get_peek: "inv c \<Longrightarrow> peek (snd (get c k)) j = peek c j"
    and put_inv: "inv c \<Longrightarrow> inv (put c k v)"
    and put_same: "inv c \<Longrightarrow> peek (put c k v) k = Some v"
    and put_other: "inv c \<Longrightarrow> j \<noteq> k \<Longrightarrow> peek (put c k v) j = Some w \<Longrightarrow> peek c j = Some w"
    and drop_inv: "inv c \<Longrightarrow> inv (drop_entry c k)"
    and drop_same: "inv c \<Longrightarrow> peek (drop_entry c k) k = None"
    and drop_other: "inv c \<Longrightarrow> peek (drop_entry c k) j = Some w \<Longrightarrow> peek c j = Some w"
begin

lemma put_peek: "inv c \<Longrightarrow> peek (put c k v) j = Some w \<Longrightarrow> (j = k \<and> w = v) \<or> (j \<noteq> k \<and> peek c j = Some w)"
  by (cases "j = k") (auto simp: put_same dest: put_other)

lemma drop_peek: "inv c \<Longrightarrow> peek (drop_entry c k) j = Some w \<Longrightarrow> j \<noteq> k \<and> peek c j = Some w"
  by (cases "j = k") (auto simp: drop_same dest: drop_other)

end

definition lru_peek :: "lru \<Rightarrow> string \<Rightarrow> string option" where
  "lru_peek c u = map_of (lru_entries c) u"

lemma map_of_touch: "map_of (touch u al) v = map_of al v"
  by (auto simp: touch_def delete_conv' split: option.splits)

lemma map_of_take_Some: "distinct (map fst al) \<Longrightarrow> map_of (take n al) k = Some v \<Longrightarrow> map_of al k = Some v"
  by (metis distinct_map distinct_take in_set_takeD map_of_SomeD map_of_eq_Some_iff take_map)

interpretation lru_store: baseline_store lru_inv lru_peek lru_get lru_put lru_drop
proof
  fix c k v j w assume i: "lru_inv c"
  then have l: "linked c" by (simp add: lru_inv_def)
  note put = put_refines [OF i, of k v] and get = get_refines [OF l, of k] and drp = drop_refines [OF l, of k]
  show "fst (lru_get c k) = lru_peek c k" using get by (simp add: lru_peek_def)
  show "lru_inv (snd (lru_get c k))" using i get by (simp add: lru_inv_def)
  show "lru_peek (snd (lru_get c k)) j = lru_peek c j" using get by (simp add: lru_peek_def map_of_touch)
  show "lru_inv (lru_put c k v)" using put by simp
  have cap: "nat (lru_cap c) > 0" using i by (simp add: lru_inv_def)
  then show "lru_peek (lru_put c k v) k = Some v"
    using put by (cases "nat (lru_cap c)") (simp_all add: lru_peek_def store_entry_def)
  show "lru_inv (lru_drop c k)" using i drp by (auto simp: lru_inv_def)
  show "lru_peek (lru_drop c k) k = None" using drp by (simp add: lru_peek_def delete_conv')
  { assume "lru_peek (lru_drop c k) j = Some w"
    then show "lru_peek c j = Some w"
      using drp by (simp add: lru_peek_def delete_conv' split: if_splits) }
  { assume jk: "j \<noteq> k" and found: "lru_peek (lru_put c k v) j = Some w"
    have d: "distinct (map fst ((k, v) # AList.delete k (lru_entries c)))"
      using distinct_delete [OF entries_distinct [OF l], of k] by (auto simp: AList.delete_eq)
    have "map_of (take (nat (lru_cap c)) ((k, v) # AList.delete k (lru_entries c))) j = Some w"
      using found put by (simp add: lru_peek_def store_entry_def)
    from map_of_take_Some [OF d this] jk show "lru_peek c j = Some w"
      by (simp add: lru_peek_def delete_conv') }
qed

end
