(* ===== verification/DeltaSync.thy ===== *)
theory DeltaSync
  imports MergePatch Resources LruCache
begin

text \<open>
  The delta half of \<open>internal/tools/resources.go\<close>: what a mutation publishes to the subscribers of
  a resource. The hook \<open>EmitResourceUpdate\<close> is the emitted delta (\<open>None\<close> when nothing is
  published), \<open>SubscriptionGate\<close> an optional predicate and \<open>ReadResource\<close> a parameter of the
  functions that call it; \<open>dec\<close>, \<open>enc\<close> and \<open>cmpct\<close> are \<open>json.Unmarshal\<close>, \<open>json.Marshal\<close> and
  \<open>json.Compact\<close>, as in \<open>MergePatch\<close>. The second half models a subscriber that follows the
  notifications and shows that its copy stays equal to the server's state.
\<close>

section \<open>Resource URIs\<close>

definition entry_resource_uri :: "string \<Rightarrow> string \<Rightarrow> string" where
  "entry_resource_uri ws ident =
     (if ws = [] \<or> ident = [] then []
      else ''clockify://workspace/'' @ ws @ ''/entry/'' @ ident)"

definition project_resource_uri :: "string \<Rightarrow> string \<Rightarrow> string" where
  "project_resource_uri ws ident =
     (if ws = [] \<or> ident = [] then []
      else ''clockify://workspace/'' @ ws @ ''/project/'' @ ident)"

definition user_resource_uri :: "string \<Rightarrow> string \<Rightarrow> string" where
  "user_resource_uri ws ident =
     (if ws = [] \<or> ident = [] then []
      else ''clockify://workspace/'' @ ws @ ''/user/'' @ ident)"

definition group_resource_uri :: "string \<Rightarrow> string \<Rightarrow> string" where
  "group_resource_uri ws ident =
     (if ws = [] \<or> ident = [] then []
      else ''clockify://workspace/'' @ ws @ ''/group/'' @ ident)"

definition weekly_report_resource_uri :: "string \<Rightarrow> string \<Rightarrow> string" where
  "weekly_report_resource_uri ws week =
     (if ws = [] \<or> week = [] then []
      else ''clockify://workspace/'' @ ws @ ''/report/weekly/'' @ week)"

section \<open>Publishing a new state\<close>

definition bare_delta :: "string \<Rightarrow> update_delta" where
  "bare_delta format = \<lparr>ud_format = format, ud_patch = JNull\<rparr>"

definition format_text :: "patch_format \<Rightarrow> string" where
  "format_text f =
     (case f of FormatNone \<Rightarrow> ''none'' | FormatMerge \<Rightarrow> ''merge'' | FormatFull \<Rightarrow> ''full''
      | FormatDeleted \<Rightarrow> ''deleted'')"

text \<open>The common tail of both emitters: read the previous state, store the new one, publish the
  difference, or \<open>none\<close> when there is no baseline or no difference can be computed.\<close>

definition publish_state ::
  "('c \<Rightarrow> string \<Rightarrow> bytes option \<times> 'c) \<Rightarrow> ('c \<Rightarrow> string \<Rightarrow> bytes \<Rightarrow> 'c) \<Rightarrow>
   (bytes \<Rightarrow> json option) \<Rightarrow> (json \<Rightarrow> bytes) \<Rightarrow> (bytes \<Rightarrow> bytes option) \<Rightarrow>
   'c \<Rightarrow> string \<Rightarrow> bytes \<Rightarrow> 'c \<times> update_delta" where
  "publish_state get put dec enc cmpct c uri new_state =
     (let (prev_state, c1) = get c uri;
          c2 = put c1 uri new_state
      in case prev_state of
           None \<Rightarrow> (c2, bare_delta ''none'')
         | Some prev \<Rightarrow>
             (case diff_or_full dec enc cmpct prev new_state of
                Inl _ \<Rightarrow> (c2, bare_delta ''none'')
              | Inr (patch_bytes, format) \<Rightarrow>
                  (case dec patch_bytes of
                     None \<Rightarrow> (c2, bare_delta ''none'')
                   | Some patch \<Rightarrow> (c2, \<lparr>ud_format = format_text format, ud_patch = patch\<rparr>))))"

definition gate_open :: "(string \<Rightarrow> bool) option \<Rightarrow> string \<Rightarrow> bool" where
  "gate_open gate uri = (case gate of None \<Rightarrow> True | Some g \<Rightarrow> g uri)"

text \<open>\<open>emitResourceUpdateWithState\<close>; \<open>wired\<close> is \<open>s != nil && s.EmitResourceUpdate != nil\<close>,
  \<open>marshalled\<close> the outcome of \<open>json.Marshal(payload)\<close>.\<close>

definition emit_resource_update_with_state ::
  "bool \<Rightarrow> (string \<Rightarrow> bool) option \<Rightarrow> (bytes \<Rightarrow> json option) \<Rightarrow> (json \<Rightarrow> bytes) \<Rightarrow> (bytes \<Rightarrow> bytes option) \<Rightarrow>
   lru \<Rightarrow> string \<Rightarrow> bytes option \<Rightarrow> lru \<times> update_delta option" where
  "emit_resource_update_with_state wired gate dec enc cmpct cache uri marshalled =
     (if \<not> wired \<or> uri = [] then (cache, None)
      else if \<not> gate_open gate uri then (cache, None)
      else (case marshalled of
              None \<Rightarrow> (cache, Some (bare_delta ''none''))
            | Some new_state \<Rightarrow>
                (case publish_state lru_get lru_put dec enc cmpct cache uri new_state of
                   (cache', delta) \<Rightarrow> (cache', Some delta))))"

record resource_contents =
  rc_uri :: string
  rc_mime_type :: string
  rc_text :: string

definition flatten_resource_contents ::
  "(bytes \<Rightarrow> json option) \<Rightarrow> (json \<Rightarrow> bytes) \<Rightarrow> resource_contents list \<Rightarrow> bytes option" where
  "flatten_resource_contents dec enc contents =
     (case contents of
        [] \<Rightarrow> None
      | [c] \<Rightarrow> Some (rc_text c)
      | _ \<Rightarrow> Some (enc (JArr (List.map_filter (\<lambda>c. dec (rc_text c)) contents))))"

definition emit_resource_update ::
  "bool \<Rightarrow> (string \<Rightarrow> bool) option \<Rightarrow> (string \<Rightarrow> ('e, resource_contents list) result) \<Rightarrow>
   (bytes \<Rightarrow> json option) \<Rightarrow> (json \<Rightarrow> bytes) \<Rightarrow> (bytes \<Rightarrow> bytes option) \<Rightarrow>
   lru \<Rightarrow> string \<Rightarrow> lru \<times> update_delta option" where
  "emit_resource_update wired gate read_resource dec enc cmpct cache uri =
     (if \<not> wired \<or> uri = [] then (cache, None)
      else if \<not> gate_open gate uri then (cache, None)
      else (case read_resource uri of
              Inl _ \<Rightarrow> (lru_drop cache uri, Some (bare_delta ''none''))
            | Inr contents \<Rightarrow>
                (case flatten_resource_contents dec enc contents of
                   None \<Rightarrow> (cache, Some (bare_delta ''none''))
                 | Some new_state \<Rightarrow>
                     (case publish_state lru_get lru_put dec enc cmpct cache uri new_state of
                        (cache', delta) \<Rightarrow> (cache', Some delta)))))"

definition emit_resource_deleted :: "bool \<Rightarrow> lru \<Rightarrow> string \<Rightarrow> lru \<times> update_delta option" where
  "emit_resource_deleted wired cache uri =
     (if \<not> wired \<or> uri = [] then (cache, None)
      else (lru_drop cache uri, Some (bare_delta ''deleted'')))"

section \<open>Patching respects equality of documents\<close>

lemma canon_JNull_iff [simp]: "canon v = JNull \<longleftrightarrow> v = JNull"
  by (cases v) auto

lemma obj_or_empty_wf: "json_wf v \<Longrightarrow> distinct (map fst (obj_or_empty v))"
  by (cases v) (auto simp: obj_or_empty_def)

lemma obj_or_empty_member: "json_wf v \<Longrightarrow> map_of (obj_or_empty v) k = Some x \<Longrightarrow> json_wf x"
  using json_wf_lookup [of "obj_or_empty v" k x] by (cases v) (simp_all add: obj_or_empty_def)

lemma obj_or_empty_cong:
  assumes "json_wf v" and "json_wf w" and "deep_equal v w"
  shows "map_option canon (map_of (obj_or_empty v) k) = map_option canon (map_of (obj_or_empty w) k)"
proof (cases "as_obj v")
  case None
  then have "as_obj w = None"
    using deep_equal_objD [of _ v] deep_equal_sym [OF assms(3)] by (cases w) (auto; cases v; auto)+
  with None show ?thesis by (cases v; cases w) (simp_all add: obj_or_empty_def)
next
  case (Some m)
  then obtain m' where w: "w = JObj m'" using deep_equal_objD assms(3) by auto
  with Some assms deep_equal_obj [of m m'] show ?thesis by (simp add: obj_or_empty_def)
qed

lemma apply_any_wf:
  assumes "json_wf p" and "json_wf d"
  shows "json_wf (apply_any p d)"
  using assms
proof (induction d arbitrary: p rule: measure_induct_rule [of size])
  case (less d)
  show ?case
  proof (cases "as_obj d")
    case None
    with less.prems show ?thesis by (simp add: apply_any_scalar)
  next
    case (Some m)
    then have d: "d = JObj m" by simp
    with less.prems obtain out where out: "apply_any p d = JObj out" "distinct (map fst out)"
      and look: "\<And>k. map_of out k = patch_key (map_of (obj_or_empty p) k) (map_of m k)"
      using map_of_apply_any [of m p] obj_or_empty_wf [of p] by auto
    have "json_wf x" if "(k, x) \<in> set out" for k x
    proof -
      from that out(2) have x: "patch_key (map_of (obj_or_empty p) k) (map_of m k) = Some x"
        by (simp flip: look)
      show ?thesis
      proof (cases "map_of m k")
        case None
        with x less.prems(1) show ?thesis by (auto dest: obj_or_empty_member)
      next
        case (Some y)
        have y: "json_wf y" "size y < size d"
          using Some less.prems(2) json_wf_lookup size_member [OF map_of_SomeD [OF Some]] d by auto
        have "json_wf (case map_of (obj_or_empty p) k of None \<Rightarrow> JNull | Some e \<Rightarrow> e)"
          using less.prems(1) by (auto split: option.splits dest: obj_or_empty_member)
        with x Some less.IH [OF y(2) _ y(1)] show ?thesis
          by (cases "y = JNull") (auto simp: patch_key_Some)
      qed
    qed
    with out show ?thesis by (auto simp: list_all_iff)
  qed
qed

lemma apply_any_cong:
  assumes "json_wf p" and "json_wf q" and "deep_equal p q"
    and "json_wf d" and "json_wf e" and "deep_equal d e"
  shows "deep_equal (apply_any p d) (apply_any q e)"
  using assms
proof (induction d arbitrary: p q e rule: measure_induct_rule [of size])
  case (less d)
  show ?case
  proof (cases "as_obj d")
    case None
    then have "as_obj e = None"
      using deep_equal_objD [OF deep_equal_sym, of d] less.prems(6) by (cases e) (auto; cases d; auto)+
    with None less.prems show ?thesis by (simp add: apply_any_scalar)
  next
    case (Some m)
    then obtain m' where d: "d = JObj m" and e: "e = JObj m'"
      using deep_equal_objD less.prems(6) by auto
    obtain out where out: "apply_any p d = JObj out" "distinct (map fst out)"
      and look: "\<And>k. map_of out k = patch_key (map_of (obj_or_empty p) k) (map_of m k)"
      using map_of_apply_any [of m p] obj_or_empty_wf [of p] less.prems d by auto
    obtain out' where out': "apply_any q e = JObj out'" "distinct (map fst out')"
      and look': "\<And>k. map_of out' k = patch_key (map_of (obj_or_empty q) k) (map_of m' k)"
      using map_of_apply_any [of m' q] obj_or_empty_wf [of q] less.prems e by auto
    have dm: "map_option canon (map_of m k) = map_option canon (map_of m' k)" for k
      using less.prems d e deep_equal_obj [of m m'] by simp
    have "map_option canon (map_of out k) = map_option canon (map_of out' k)" for k
    proof (cases "map_of m k")
      case None
      with dm [of k] obj_or_empty_cong [OF less.prems(1-3)] show ?thesis by (simp add: look look')
    next
      case (Some x)
      with dm [of k] obtain y where y: "map_of m' k = Some y" "canon x = canon y"
        by (cases "map_of m' k") auto
      let ?old = "\<lambda>v. case map_of (obj_or_empty v) k of None \<Rightarrow> JNull | Some z \<Rightarrow> z"
      have wf_old: "json_wf (?old p)" "json_wf (?old q)"
        using less.prems(1,2) by (auto split: option.splits dest: obj_or_empty_member)
      have eq_old: "deep_equal (?old p) (?old q)"
        using obj_or_empty_cong [OF less.prems(1-3), of k]
        by (auto simp: deep_equal_def split: option.splits)
      have wf_new: "json_wf x" "json_wf y" and size: "size x < size d"
        using Some y less.prems(4,5) d e json_wf_lookup size_member [OF map_of_SomeD [OF Some]] by auto
      have "deep_equal x y" using y(2) by (simp add: deep_equal_def)
      from less.IH [OF size wf_old eq_old wf_new this]
      have new: "canon (apply_any (?old p) x) = canon (apply_any (?old q) y)"
        by (simp add: deep_equal_def)
      show ?thesis
      proof (cases "x = JNull")
        case True
        with y(2) have "y = JNull" by (metis canon_JNull_iff)
        with True Some y(1) show ?thesis by (simp add: look look')
      next
        case False
        with y(2) have "y \<noteq> JNull" by (metis canon_JNull_iff)
        with False Some y(1) new show ?thesis by (simp add: look look' patch_key_Some)
      qed
    qed
    then show ?thesis using out out' by (simp add: deep_equal_obj)
  qed
qed

section \<open>A subscriber that follows the deltas\<close>

text \<open>What the code relies on of \<open>encoding/json\<close>: a decoded document has distinct keys, a patch
  of two decoded documents survives encoding up to the order of its members, and \<open>json.Compact\<close>
  keeps the value.\<close>

definition json_codec :: "(bytes \<Rightarrow> json option) \<Rightarrow> (json \<Rightarrow> bytes) \<Rightarrow> (bytes \<Rightarrow> bytes option) \<Rightarrow> bool" where
  "json_codec dec enc cmpct \<longleftrightarrow>
     (\<forall>b v. dec b = Some v \<longrightarrow> json_wf v) \<and>
     (\<forall>a b p c. dec a = Some (JObj p) \<and> dec b = Some (JObj c) \<longrightarrow>
        (\<exists>d. dec (enc (JObj (diff_objects p c))) = Some d \<and> deep_equal d (JObj (diff_objects p c)))) \<and>
     dec ''{}'' = Some (JObj []) \<and>
     (\<forall>a b. cmpct a = Some b \<longrightarrow> dec b = dec a)"

lemma json_codecD:
  assumes "json_codec dec enc cmpct"
  shows "dec b = Some v \<Longrightarrow> json_wf v"
    and "dec a = Some (JObj p) \<Longrightarrow> dec b = Some (JObj c) \<Longrightarrow>
           \<exists>d. dec (enc (JObj (diff_objects p c))) = Some d \<and> deep_equal d (JObj (diff_objects p c))"
    and "dec ''{}'' = Some (JObj [])"
    and "cmpct a = Some b \<Longrightarrow> dec b = dec a"
  using assms unfolding json_codec_def by blast+

lemma diff_objects_wf:
  assumes "json_wf (JObj p)" and "json_wf (JObj c)"
  shows "json_wf (JObj (diff_objects p c))"
  using assms
proof (induction "size (JObj c)" arbitrary: p c rule: less_induct)
  case less
  then have dp: "distinct (map fst p)" and dc: "distinct (map fst c)" by auto
  note d = distinct_diff [OF dp dc]
  have "json_wf x" if "(k, x) \<in> set (diff_objects p c)" for k x
  proof -
    from that d have x: "diff_key (map_of p k) (map_of c k) = Some x"
      by (simp flip: map_of_diff [OF dc])
    show ?thesis
    proof (cases "map_of c k")
      case None
      with x show ?thesis by (auto simp: diff_key_def split: option.splits)
    next
      case (Some cv)
      have cv: "json_wf cv" "size cv < size (JObj c)"
        using less.prems(2) json_wf_lookup [OF _ Some] size_member [OF map_of_SomeD [OF Some]] by auto
      show ?thesis
      proof (cases "\<exists>pm cm. map_of p k = Some (JObj pm) \<and> cv = JObj cm")
        case False
        with x Some cv(1) show ?thesis
          by (auto simp: diff_key_def split: option.splits if_splits json.splits)
      next
        case True
        then obtain pm cm where o: "map_of p k = Some (JObj pm)" "cv = JObj cm" by blast
        have "json_wf (JObj (diff_objects pm cm))"
          using less.hyps [of cm pm] cv o json_wf_lookup [OF less.prems(1) o(1)] by simp
        with x Some o show ?thesis
          by (auto simp: diff_key_def Let_def split: if_splits)
      qed
    qed
  qed
  with d show ?case by (auto simp: list_all_iff)
qed

lemma diff_any_wf: "json_wf p \<Longrightarrow> json_wf c \<Longrightarrow> json_wf (diff_any p c)"
  using diff_objects_wf by (cases p; cases c) (simp_all add: diff_any_def)

text \<open>What \<open>DiffOrFull\<close> sends decodes to the new document or to a patch for it.\<close>

lemma diff_or_full_payload:
  assumes "json_codec dec enc cmpct" and "dec prev = Some p" and "dec cur = Some c"
    and "diff_or_full dec enc cmpct prev cur = Inr (patch, fmt)"
  shows "(fmt = FormatFull \<and> dec patch = Some c) \<or>
         (fmt = FormatMerge \<and> \<not> has_null c \<and>
          (\<exists>d. dec patch = Some d \<and> deep_equal d (diff_any p c)))"
proof (cases "has_null c")
  case True
  with assms json_codecD(4) [OF assms(1)] show ?thesis
    by (auto simp: diff_or_full_def contains_null_def compact_json_def bind_result_eq_Inr
        split: option.splits if_splits)
next
  case False
  with assms have doc: "diff_doc dec enc cmpct prev cur = Inr patch" and fmt: "fmt = FormatMerge"
    by (auto simp: diff_or_full_def contains_null_def bind_result_eq_Inr)
  have "\<exists>d. dec patch = Some d \<and> deep_equal d (diff_any p c)"
  proof (cases "\<exists>pm cm. p = JObj pm \<and> c = JObj cm")
    case True
    then obtain pm cm where o: "p = JObj pm" "c = JObj cm" by blast
    with doc assms(2,3) show ?thesis
      using json_codecD(2) [OF assms(1), of prev pm cur cm] json_codecD(3) [OF assms(1)]
      by (auto simp: diff_doc_def diff_any_def Let_def split: if_splits)
  next
    case False
    then have "compact_json cmpct cur = Inr patch" and "diff_any p c = c"
      using doc assms(2,3) by (auto simp: diff_doc_def diff_any_def split: json.splits)
    then show ?thesis
      using json_codecD(4) [OF assms(1)] assms(3)
      by (auto simp: compact_json_def split: option.splits if_splits)
  qed
  with fmt False show ?thesis by blast
qed

text \<open>The subscriber's copy after a notification; \<open>fetched\<close> is what reading the resource again
  returns, which \<open>none\<close> asks for.\<close>

definition follow :: "json option \<Rightarrow> json option \<Rightarrow> update_delta \<Rightarrow> json option" where
  "follow fetched copy delta =
     (if ud_format delta = ''merge'' then map_option (\<lambda>v. apply_any v (ud_patch delta)) copy
      else if ud_format delta = ''full'' then Some (ud_patch delta)
      else if ud_format delta = ''deleted'' then None
      else fetched)"

text \<open>The copies agree with the baselines the server remembers.\<close>

definition tracks :: "(bytes \<Rightarrow> json option) \<Rightarrow> (string \<Rightarrow> bytes option) \<Rightarrow> (string \<Rightarrow> json option) \<Rightarrow> bool" where
  "tracks dec baseline copies \<longleftrightarrow>
     (\<forall>u b. baseline u = Some b \<longrightarrow>
        (\<exists>v w. dec b = Some v \<and> copies u = Some w \<and> json_wf w \<and> deep_equal w v))"

lemma tracksD:
  "tracks dec baseline copies \<Longrightarrow> baseline u = Some b \<Longrightarrow>
     \<exists>v w. dec b = Some v \<and> copies u = Some w \<and> json_wf w \<and> deep_equal w v"
  by (auto simp: tracks_def)

context baseline_store
begin

lemma publish_cases:
  assumes "inv c" and "publish_state get put dec enc cmpct c u b = (c', delta)"
  shows "c' = put (snd (get c u)) u b"
    and "delta = bare_delta ''none'' \<or>
         (\<exists>prev patch_bytes fmt patch. peek c u = Some prev \<and>
            diff_or_full dec enc cmpct prev b = Inr (patch_bytes, fmt) \<and>
            dec patch_bytes = Some patch \<and> delta = \<lparr>ud_format = format_text fmt, ud_patch = patch\<rparr>)"
  using assms(2) get_returns [OF assms(1), of u]
  by (auto simp: publish_state_def Let_def split: prod.splits option.splits sum.splits)

lemma publish_follow:
  assumes codec: "json_codec dec enc cmpct" and inv: "inv c"
    and tracked: "tracks dec (peek c) copies" and new: "dec b = Some v"
    and publish: "publish_state get put dec enc cmpct c u b = (c', delta)"
  shows "\<exists>w. follow (Some v) (copies u) delta = Some w \<and> json_wf w \<and> deep_equal w v"
  using publish_cases(2) [OF inv publish]
proof (elim disjE exE conjE)
  assume "delta = bare_delta ''none''"
  then show ?thesis using json_codecD(1) [OF codec new] by (simp add: follow_def bare_delta_def)
next
  fix prev patch_bytes fmt patch
  assume prev: "peek c u = Some prev"
    and diff: "diff_or_full dec enc cmpct prev b = Inr (patch_bytes, fmt)"
    and patch: "dec patch_bytes = Some patch"
    and delta: "delta = \<lparr>ud_format = format_text fmt, ud_patch = patch\<rparr>"
  obtain p w where p: "dec prev = Some p" and w: "copies u = Some w" "json_wf w" "deep_equal w p"
    using tracksD [OF tracked prev] by blast
  note wf = json_codecD(1) [OF codec]
  from diff_or_full_payload [OF codec p new diff] patch
  consider (full) "fmt = FormatFull" "patch = v"
    | (merge) "fmt = FormatMerge" "\<not> has_null v" "deep_equal patch (diff_any p v)"
    by auto
  then show ?thesis
  proof cases
    case full
    with delta new wf show ?thesis by (simp add: follow_def format_text_def)
  next
    case merge
    note dwf = diff_any_wf [OF wf [OF p] wf [OF new]]
    have "deep_equal (apply_any w patch) (apply_any p (diff_any p v))"
      using apply_any_cong [OF w(2) wf [OF p] w(3) wf [OF patch] dwf merge(3)] .
    also have "deep_equal \<dots> v" using diff_any_apply [OF wf [OF p] wf [OF new] merge(2)] .
    finally have "deep_equal (apply_any w patch) v" .
    with merge(1) delta w apply_any_wf [OF w(2) wf [OF patch]] show ?thesis
      by (simp add: follow_def format_text_def)
  qed
qed

text \<open>Storing the new baseline, or forgetting it, keeps the other copies tracked.\<close>

lemma publish_tracks:
  assumes codec: "json_codec dec enc cmpct" and inv: "inv c"
    and tracked: "tracks dec (peek c) copies" and new: "dec b = Some v"
    and publish: "publish_state get put dec enc cmpct c u b = (c', delta)"
  shows "inv c' \<and> tracks dec (peek c') (copies(u := follow (Some v) (copies u) delta))"
proof -
  have c': "c' = put (snd (get c u)) u b" using publish_cases(1) [OF inv publish] .
  have i: "inv (snd (get c u))" using get_inv [OF inv] .
  obtain w where w: "follow (Some v) (copies u) delta = Some w" "json_wf w" "deep_equal w v"
    using publish_follow [OF codec inv tracked new publish] by blast
  have "tracks dec (peek c') (copies(u := follow (Some v) (copies u) delta))"
    unfolding tracks_def
  proof (intro allI impI)
    fix j x assume "peek c' j = Some x"
    then consider "j = u" "x = b" | "j \<noteq> u" "peek c j = Some x"
      using put_peek [OF i] get_peek [OF inv] c' by metis
    then show "\<exists>v' w'. dec x = Some v' \<and> (copies(u := follow (Some v) (copies u) delta)) j = Some w' \<and>
        json_wf w' \<and> deep_equal w' v'"
    proof cases
      case 1
      with w new show ?thesis by auto
    next
      case 2
      with tracksD [OF tracked] show ?thesis by simp
    qed
  qed
  then show ?thesis using c' put_inv [OF i] by simp
qed

lemma drop_tracks:
  assumes "inv c" and "tracks dec (peek c) copies"
  shows "inv (drop_entry c u) \<and> tracks dec (peek (drop_entry c u)) (copies(u := x))"
  using assms drop_inv [OF assms(1)] drop_peek [OF assms(1)]
  unfolding tracks_def by fastforce

end

text \<open>A change of the world, with the document a subscriber reads when told to fetch: a mutation
  whose response is at hand, one after which the resource is read again, a failed read, a delete.\<close>

datatype change =
    Written string bytes
  | Reread string bytes
  | Unreadable string "json option"
  | Removed string

definition deliver ::
  "json option \<Rightarrow> string \<Rightarrow> (string \<Rightarrow> json option) \<Rightarrow> lru \<times> update_delta option \<Rightarrow> lru \<times> (string \<Rightarrow> json option)" where
  "deliver fetched u copies out =
     (case out of
        (c, None) \<Rightarrow> (c, copies)
      | (c, Some delta) \<Rightarrow> (c, copies(u := follow fetched (copies u) delta)))"

definition contents_of :: "string \<Rightarrow> bytes \<Rightarrow> resource_contents list" where
  "contents_of u b = [\<lparr>rc_uri = u, rc_mime_type = ''application/json'', rc_text = b\<rparr>]"

fun sync_step ::
  "(string \<Rightarrow> bool) option \<Rightarrow> (bytes \<Rightarrow> json option) \<Rightarrow> (json \<Rightarrow> bytes) \<Rightarrow> (bytes \<Rightarrow> bytes option) \<Rightarrow>
   lru \<times> (string \<Rightarrow> json option) \<Rightarrow> change \<Rightarrow> lru \<times> (string \<Rightarrow> json option)" where
  "sync_step gate dec enc cmpct (c, copies) (Written u b) =
     deliver (dec b) u copies (emit_resource_update_with_state True gate dec enc cmpct c u (Some b))"
| "sync_step gate dec enc cmpct (c, copies) (Reread u b) =
     deliver (dec b) u copies
       (emit_resource_update True gate (\<lambda>_. Inr (contents_of u b) :: (unit, _) result) dec enc cmpct c u)"
| "sync_step gate dec enc cmpct (c, copies) (Unreadable u fetched) =
     deliver fetched u copies
       (emit_resource_update True gate (\<lambda>_. Inl ()) dec enc cmpct c u)"
| "sync_step gate dec enc cmpct (c, copies) (Removed u) =
     deliver None u copies (emit_resource_deleted True c u)"

definition sync_run where
  "sync_run gate dec enc cmpct s changes = foldl (sync_step gate dec enc cmpct) s changes"

fun change_uri :: "change \<Rightarrow> string" where
  "change_uri (Written u _) = u"
| "change_uri (Reread u _) = u"
| "change_uri (Unreadable u _) = u"
| "change_uri (Removed u) = u"

fun new_document :: "(bytes \<Rightarrow> json option) \<Rightarrow> change \<Rightarrow> json option" where
  "new_document dec (Written _ b) = dec b"
| "new_document dec (Reread _ b) = dec b"
| "new_document dec (Unreadable _ fetched) = fetched"
| "new_document dec (Removed _) = None"

definition truth_after :: "(bytes \<Rightarrow> json option) \<Rightarrow> (string \<Rightarrow> json option) \<Rightarrow> change list \<Rightarrow> string \<Rightarrow> json option" where
  "truth_after dec t changes = foldl (\<lambda>t ch. t(change_uri ch := new_document dec ch)) t changes"

text \<open>A change that is announced: it has a URI, its bytes are a document and the gate lets it pass.\<close>

fun announced :: "(string \<Rightarrow> bool) option \<Rightarrow> (bytes \<Rightarrow> json option) \<Rightarrow> change \<Rightarrow> bool" where
  "announced gate dec (Written u b) = (u \<noteq> [] \<and> dec b \<noteq> None \<and> gate_open gate u)"
| "announced gate dec (Reread u b) = (u \<noteq> [] \<and> dec b \<noteq> None \<and> gate_open gate u)"
| "announced gate dec (Unreadable u _) = (u \<noteq> [] \<and> gate_open gate u)"
| "announced gate dec (Removed u) = (u \<noteq> [])"

definition synced :: "(bytes \<Rightarrow> json option) \<Rightarrow> lru \<times> (string \<Rightarrow> json option) \<Rightarrow> (string \<Rightarrow> json option) \<Rightarrow> bool" where
  "synced dec s t \<longleftrightarrow>
     lru_inv (fst s) \<and> tracks dec (lru_peek (fst s)) (snd s) \<and> (\<forall>u. rel_option deep_equal (snd s u) (t u))"

lemma synced_upd:
  assumes "synced dec (c, copies) t" and "lru_inv c'" and "tracks dec (lru_peek c') (copies(u := x))"
    and "rel_option deep_equal x y"
  shows "synced dec (c', copies(u := x)) (t(u := y))"
  using assms by (simp add: synced_def)

lemma synced_publish:
  assumes codec: "json_codec dec enc cmpct" and s: "synced dec (c, copies) t" and new: "dec b = Some v"
  shows "\<exists>c' delta. publish_state lru_get lru_put dec enc cmpct c u b = (c', delta) \<and>
           synced dec (c', copies(u := follow (Some v) (copies u) delta)) (t(u := Some v))"
proof -
  obtain c' delta where p: "publish_state lru_get lru_put dec enc cmpct c u b = (c', delta)"
    by (metis prod.exhaust)
  have i: "lru_inv c" "tracks dec (lru_peek c) copies" using s by (simp_all add: synced_def)
  from lru_store.publish_follow [OF codec i new p]
  have "rel_option deep_equal (follow (Some v) (copies u) delta) (Some v)" by auto
  with lru_store.publish_tracks [OF codec i new p] synced_upd [OF s] p show ?thesis by blast
qed

lemma synced_drop:
  assumes "synced dec (c, copies) t"
  shows "synced dec (lru_drop c u, copies(u := x)) (t(u := x))"
  using assms lru_store.drop_tracks [of c dec copies u x] synced_upd [OF assms, of "lru_drop c u" u x x]
  by (cases x) (auto simp: synced_def)

lemma synced_step:
  assumes codec: "json_codec dec enc cmpct" and s: "synced dec (c, copies) t"
    and pass: "announced gate dec ch"
  shows "synced dec (sync_step gate dec enc cmpct (c, copies) ch) (t(change_uri ch := new_document dec ch))"
proof (cases ch)
  case (Written u b)
  with pass obtain v where v: "dec b = Some v" by auto
  with Written pass synced_publish [OF codec s v, of u] show ?thesis
    by (auto simp: emit_resource_update_with_state_def deliver_def)
next
  case (Reread u b)
  with pass obtain v where v: "dec b = Some v" by auto
  with Reread pass synced_publish [OF codec s v, of u] show ?thesis
    by (auto simp: emit_resource_update_def deliver_def contents_of_def flatten_resource_contents_def)
next
  case (Unreadable u x)
  with pass synced_drop [OF s, of u x] show ?thesis
    by (simp add: emit_resource_update_def deliver_def follow_def bare_delta_def)
next
  case (Removed u)
  with pass synced_drop [OF s, of u None] show ?thesis
    by (simp add: emit_resource_deleted_def deliver_def follow_def bare_delta_def)
qed

lemma synced_run:
  assumes "json_codec dec enc cmpct" and "synced dec s t" and "list_all (announced gate dec) changes"
  shows "synced dec (sync_run gate dec enc cmpct s changes) (truth_after dec t changes)"
  using assms(2,3)
proof (induction changes arbitrary: s t)
  case (Cons ch changes)
  obtain c copies where s: "s = (c, copies)" by (cases s)
  from synced_step [OF assms(1), of c copies t gate ch] Cons s show ?case
    by (simp add: sync_run_def truth_after_def)
qed (simp add: sync_run_def truth_after_def)

section \<open>Properties\<close>

text \<open>C9 (a subscriber that follows the deltas holds the server's state): take any capacity of the
  cache, any codec that behaves as \<open>encoding/json\<close> is documented to, and any sequence of announced
  mutations, failed reads and deletes of any resources, with evictions in between. A subscriber
  that applies every merge patch, takes over every full document, drops its copy on \<open>deleted\<close> and
  reads again on \<open>none\<close> ends up, for every resource, with a copy equal to the current document
  (and with none when there is none).\<close>

theorem delta_followers_stay_in_sync:
  assumes "json_codec dec enc cmpct"
    and "list_all (announced gate dec) changes"
  shows "rel_option deep_equal
           (snd (sync_run gate dec enc cmpct (new_resource_state_cache capacity, Map.empty) changes) u)
           (truth_after dec Map.empty changes u)"
proof -
  have "synced dec (new_resource_state_cache capacity, Map.empty) Map.empty"
    using inv_new by (simp add: synced_def tracks_def lru_peek_def lru_entries_def new_resource_state_cache_def)
  from synced_run [OF assms(1) this assms(2)] show ?thesis by (simp add: synced_def)
qed

text \<open>A codec for the examples: a document is written in unary.\<close>

definition unary_enc :: "json \<Rightarrow> bytes" where
  "unary_enc v = replicate (to_nat v) CHR ''a''"

definition unary_dec :: "bytes \<Rightarrow> json option" where
  "unary_dec b =
     (if b = ''{}'' then Some (JObj [])
      else if set b \<subseteq> {CHR ''a''} \<and> json_wf (from_nat (length b)) then Some (from_nat (length b))
      else None)"

lemma unary_dec_enc: "json_wf v \<Longrightarrow> unary_dec (unary_enc v) = Some v"
proof -
  have "unary_enc v \<noteq> ''{}''"
  proof
    assume "unary_enc v = ''{}''"
    then have "CHR 0x7B \<in> set (unary_enc v)" by simp
    then show False by (simp add: unary_enc_def)
  qed
  moreover assume "json_wf v"
  ultimately show ?thesis by (simp add: unary_dec_def) (auto simp: unary_enc_def)
qed

lemma unary_codec: "json_codec unary_dec unary_enc Some"
proof -
  have wf: "json_wf v" if "unary_dec b = Some v" for b v
    using that by (auto simp: unary_dec_def split: if_splits)
  moreover have "\<exists>d. unary_dec (unary_enc (JObj (diff_objects p c))) = Some d \<and> deep_equal d (JObj (diff_objects p c))"
    if "unary_dec a = Some (JObj p)" "unary_dec b = Some (JObj c)" for a b p c
    using unary_dec_enc [OF diff_objects_wf [OF wf [OF that(1)] wf [OF that(2)]]] by simp
  moreover have "unary_dec ''{}'' = Some (JObj [])" by (simp add: unary_dec_def)
  ultimately show ?thesis unfolding json_codec_def by blast
qed

definition demo_doc :: "int \<Rightarrow> json" where
  "demo_doc n = JObj [(''seconds'', JInt n)]"

lemma demo_doc_wf [simp]: "unary_dec (unary_enc (demo_doc n)) = Some (demo_doc n)"
  by (rule unary_dec_enc) (simp add: demo_doc_def)

theorem delta_followers_stay_in_sync_witness:
  "\<exists>w. snd (sync_run None unary_dec unary_enc Some (new_resource_state_cache 1, Map.empty)
          [Written ''e'' (unary_enc (demo_doc 1)), Reread ''p'' (unary_enc (demo_doc 5)),
           Reread ''e'' (unary_enc (demo_doc 2)), Written ''e'' (unary_enc (demo_doc 3))]) ''e'' = Some w \<and>
        deep_equal w (demo_doc 3)"
proof -
  let ?changes = "[Written ''e'' (unary_enc (demo_doc 1)), Reread ''p'' (unary_enc (demo_doc 5)),
           Reread ''e'' (unary_enc (demo_doc 2)), Written ''e'' (unary_enc (demo_doc 3))]"
  have "list_all (announced None unary_dec) ?changes" by (simp add: gate_open_def)
  from delta_followers_stay_in_sync [OF unary_codec this, of 1 "''e''"] show ?thesis
    by (simp add: truth_after_def option_rel_Some2)
qed

text \<open>The gate leaves a stale baseline behind: a resource changes from \<open>1\<close> to \<open>2\<close> while nobody is
  subscribed, a client subscribes again and reads \<open>2\<close>, and the change back to \<open>1\<close> is published as
  an empty merge patch against the remembered \<open>1\<close>: the client keeps \<open>2\<close>.\<close>

lemma stale_baseline_after_resubscribe:
  "let doc = (\<lambda>n. unary_enc (demo_doc n));
       watched = sync_run None unary_dec unary_enc Some (new_resource_state_cache 8, Map.empty) [Written ''e'' (doc 1)];
       unwatched = sync_run (Some (\<lambda>_. False)) unary_dec unary_enc Some watched [Written ''e'' (doc 2)];
       again = sync_run None unary_dec unary_enc Some (fst unwatched, (snd unwatched)(''e'' \<mapsto> demo_doc 2))
                 [Written ''e'' (doc 1)]
   in snd again ''e'' = Some (demo_doc 2) \<and> \<not> deep_equal (demo_doc 2) (demo_doc 1)"
proof -
  have wf: "json_wf (demo_doc n)" "\<not> has_null (demo_doc n)" for n by (simp_all add: demo_doc_def)
  have same: "diff_or_full unary_dec unary_enc Some (unary_enc (demo_doc 1)) (unary_enc (demo_doc 1)) = Inr (''{}'', FormatMerge)"
  proof -
    have "diff_objects [(''seconds'', JInt 1)] [(''seconds'', JInt 1)] = []"
      by (simp add: diff_objects.simps)
    with wf show ?thesis
      by (simp add: diff_or_full_def contains_null_def diff_doc_def Let_def)
        (simp add: demo_doc_def)
  qed
  have empty: "unary_dec ''{}'' = Some (JObj [])" by (simp add: unary_dec_def)
  have keep: "apply_any (demo_doc 2) (JObj []) = demo_doc 2"
    by (simp add: apply_any_obj demo_doc_def obj_or_empty_def)
  show ?thesis
    by (simp add: Let_def sync_run_def emit_resource_update_with_state_def gate_open_def publish_state_def
        deliver_def new_resource_state_cache_def lru_get_def lru_put_def push_front_def move_to_front_def
        bare_delta_def follow_def same empty keep format_text_def)
      (simp add: demo_doc_def deep_equal_def)
qed

end
