(* ===== verification/WeeklyReport.thy ===== *)
theory WeeklyReport
  imports TimeParse Money DeltaSync "HOL-Library.Product_Lexorder" "HOL-Library.Multiset"
begin

text \<open>
  The local roll-ups of \<open>internal/tools/reports.go\<close> and their incremental maintenance in
  \<open>resources.go\<close>: streaming entries into per-project and per-day buckets, the summaries made of
  them, the ISO week of an instant, and the update of a cached weekly summary when one entry is
  created, changed or deleted. Seconds are \<open>int64\<close> and wrap; counts of entries are plain integers.
  \<open>sort.Slice\<close> leaves equal rows in any order; the model sorts stably. A Go map of buckets is an
  association list, whose order is that of the range loop over it.
\<close>

record report_entry = time_entry +
  re_id :: string
  re_project :: string
  re_project_name :: string
  re_description :: string
  re_type :: string

definition start_time :: "'a time_entry_scheme \<Rightarrow> instant option" where
  "start_time e = parse_rfc3339 (te_start e)"

text \<open>\<open>EndTime\<close>: the zero time when there is no end.\<close>

definition end_time :: "'a time_entry_scheme \<Rightarrow> instant option" where
  "end_time e = (if te_end e = [] then Some zero_time else parse_rfc3339 (te_end e))"

definition is_running :: "'a time_entry_scheme \<Rightarrow> bool" where
  "is_running e \<longleftrightarrow> te_end e = []"

definition hours :: "int \<Rightarrow> rat" where
  "hours seconds = fl64 (fl64 (of_int seconds) / 3600)"

definition day_key :: "location \<Rightarrow> instant \<Rightarrow> string" where
  "day_key loc t = format_ymd (civil_date loc t)"

section \<open>Weeks\<close>

text \<open>\<open>t.Weekday()\<close>, Sunday being 0.\<close>

definition weekday :: "location \<Rightarrow> instant \<Rightarrow> int" where
  "weekday loc t = (local_seconds loc t div 86400 + 4) mod 7"

definition iso_week_start :: "location option \<Rightarrow> instant \<Rightarrow> instant" where
  "iso_week_start loc0 t =
     (let loc = (case loc0 of None \<Rightarrow> utc_location | Some l \<Rightarrow> l);
          wd = (if weekday loc t = 0 then 7 else weekday loc t)
      in case civil_date loc t of (y, m, d) \<Rightarrow> add_days loc (- (wd - 1)) (date_in loc y m d 0 0 0 0))"

definition week_key :: "location option \<Rightarrow> instant \<Rightarrow> string" where
  "week_key loc0 t =
     day_key (case loc0 of None \<Rightarrow> utc_location | Some l \<Rightarrow> l) (iso_week_start loc0 t)"

definition weekly_report_uris_for_entry :: "string \<Rightarrow> string \<Rightarrow> string \<Rightarrow> location option \<Rightarrow> string list" where
  "weekly_report_uris_for_entry ws start_raw end_raw loc =
     (if ws = [] \<or> trim_space start_raw = [] then []
      else (case parse_rfc3339 start_raw of
              None \<Rightarrow> []
            | Some start \<Rightarrow>
                (let uris = [weekly_report_resource_uri ws (week_key loc start)] in
                 if trim_space end_raw = [] then uris
                 else (case parse_rfc3339 end_raw of
                         None \<Rightarrow> uris
                       | Some fin \<Rightarrow>
                           if week_key loc fin \<noteq> week_key loc start
                           then uris @ [weekly_report_resource_uri ws (week_key loc fin)] else uris))))"

definition weekly_report_week_start_from_uri :: "string \<Rightarrow> string option" where
  "weekly_report_week_start_from_uri uri =
     (if \<not> has_prefix uri ''clockify://'' then None
      else (let segments = split_on (CHR ''/'') (drop (length ''clockify://'') uri) in
            if length segments \<noteq> 5 \<or> segments ! 0 \<noteq> ''workspace'' \<or> segments ! 2 \<noteq> ''report'' \<or>
               segments ! 3 \<noteq> ''weekly'' \<or> segments ! 4 = []
            then None else Some (segments ! 4)))"

definition entry_delta_belongs_only_to_week :: "'a time_entry_scheme \<Rightarrow> string \<Rightarrow> location option \<Rightarrow> bool" where
  "entry_delta_belongs_only_to_week entry week loc =
     (case start_time entry of
        None \<Rightarrow> False
      | Some start \<Rightarrow>
          (case end_time entry of
             None \<Rightarrow> False
           | Some fin \<Rightarrow>
               if fin = zero_time then False
               else if fin < start then False
               else week_key loc start = week \<and> week_key loc fin = week))"

definition weekly_report_delta_eligible ::
  "string \<Rightarrow> 'a time_entry_scheme option \<Rightarrow> 'a time_entry_scheme option \<Rightarrow> location option \<Rightarrow> bool" where
  "weekly_report_delta_eligible uri before after loc =
     (case weekly_report_week_start_from_uri uri of
        None \<Rightarrow> False
      | Some week \<Rightarrow>
          if (case before of None \<Rightarrow> False | Some b \<Rightarrow> \<not> entry_delta_belongs_only_to_week b week loc) then False
          else if (case after of None \<Rightarrow> False | Some a \<Rightarrow> \<not> entry_delta_belongs_only_to_week a week loc) then False
          else before \<noteq> None \<or> after \<noteq> None)"

section \<open>Streaming entries into buckets\<close>

record project_bucket =
  pb_id :: string
  pb_name :: string
  pb_client_id :: string
  pb_client_name :: string
  pb_entries :: int
  pb_seconds :: int

record day_bucket =
  db_entries :: int
  db_seconds :: int

record aggregate_options =
  ao_page_size :: int
  ao_include_entries :: bool
  ao_max_entries :: int
  ao_sample_entries :: int
  ao_collect_running :: bool
  ao_project :: string

record aggregate =
  ag_list :: "report_entry list"
  ag_sample :: "report_entry list"
  ag_running_list :: "report_entry list"
  ag_seconds :: int
  ag_running :: int
  ag_by_project :: "(string \<times> project_bucket) list"
  ag_by_day :: "(string \<times> day_bucket) list"
  ag_count :: int
  ag_pages :: int
  ag_filter :: string
  ag_page_size :: int
  ag_requested :: int
  ag_clamped :: bool

definition entry_starts_within_range :: "report_entry \<Rightarrow> instant \<Rightarrow> instant \<Rightarrow> bool" where
  "entry_starts_within_range e start fin =
     (case start_time e of None \<Rightarrow> True | Some t \<Rightarrow> \<not> t < start \<and> t < fin)"

definition no_project :: string where
  "no_project = ''(no project)''"

definition bucket_name :: "report_entry \<Rightarrow> string" where
  "bucket_name e = (if trim_space (re_project_name e) = [] then no_project else trim_space (re_project_name e))"

definition project_bucket_for :: "(string \<times> project_bucket) list \<Rightarrow> report_entry \<Rightarrow> project_bucket" where
  "project_bucket_for buckets e =
     (case map_of buckets (re_project e) of
        None \<Rightarrow> \<lparr>pb_id = re_project e, pb_name = bucket_name e, pb_client_id = [], pb_client_name = [],
                 pb_entries = 0, pb_seconds = 0\<rparr>
      | Some b \<Rightarrow>
          if pb_name b = no_project \<and> trim_space (re_project_name e) \<noteq> []
          then b\<lparr>pb_name := trim_space (re_project_name e)\<rparr> else b)"

definition count_project :: "int \<Rightarrow> report_entry \<Rightarrow> (string \<times> project_bucket) list \<Rightarrow> (string \<times> project_bucket) list" where
  "count_project secs e buckets =
     (let b = project_bucket_for buckets e in
      AList.update (re_project e)
        (b\<lparr>pb_entries := pb_entries b + 1, pb_seconds := wrap64 (pb_seconds b + secs)\<rparr>) buckets)"

definition count_day :: "location \<Rightarrow> int \<Rightarrow> report_entry \<Rightarrow> (string \<times> day_bucket) list \<Rightarrow> (string \<times> day_bucket) list" where
  "count_day loc secs e days =
     (case start_time e of
        None \<Rightarrow> days
      | Some t \<Rightarrow>
          (let b = (case map_of days (day_key loc t) of
                      None \<Rightarrow> \<lparr>db_entries = 0, db_seconds = 0\<rparr> | Some b \<Rightarrow> b)
           in AList.update (day_key loc t)
                \<lparr>db_entries = db_entries b + 1, db_seconds = wrap64 (db_seconds b + secs)\<rparr> days))"

text \<open>The body of the loop over a batch; \<open>clock n\<close> is the reading of the clock for the \<open>n\<close>-th
  counted entry, used when the entry is still running.\<close>

definition aggregate_entry ::
  "(int \<Rightarrow> instant) \<Rightarrow> location \<Rightarrow> instant \<Rightarrow> instant \<Rightarrow> aggregate_options \<Rightarrow> aggregate \<Rightarrow> report_entry \<Rightarrow> aggregate" where
  "aggregate_entry clock loc start fin opts r e =
     (if \<not> entry_starts_within_range e start fin then r
      else (let n = ag_count r + 1;
                secs = duration_seconds (clock n) (time_entry.truncate e)
            in r\<lparr>ag_count := n,
                 ag_seconds := wrap64 (ag_seconds r + secs),
                 ag_running := (if is_running e then ag_running r + 1 else ag_running r),
                 ag_running_list :=
                   (if is_running e \<and> ao_collect_running opts then ag_running_list r @ [e] else ag_running_list r),
                 ag_by_project := count_project secs e (ag_by_project r),
                 ag_by_day := count_day loc secs e (ag_by_day r),
                 ag_list := (if ao_include_entries opts then ag_list r @ [e] else ag_list r),
                 ag_sample :=
                   (if ao_sample_entries opts > 0 \<and> int (length (ag_sample r)) < ao_sample_entries opts
                    then ag_sample r @ [e] else ag_sample r)\<rparr>))"

datatype 'e aggregate_error =
    FetchFailed 'e
  | EntryCapExceeded int instant instant
  | PaginationSafetyStop int instant instant

definition aggregate_page_safety_stop :: nat where
  "aggregate_page_safety_stop = 1000"

text \<open>\<open>get page\<close> is the \<open>GET\<close> of one page; \<open>left\<close> pages may still be read.\<close>

fun aggregate_pages ::
  "(nat \<Rightarrow> ('e, report_entry list) result) \<Rightarrow> (int \<Rightarrow> instant) \<Rightarrow> location \<Rightarrow> instant \<Rightarrow> instant \<Rightarrow>
   aggregate_options \<Rightarrow> nat \<Rightarrow> nat \<Rightarrow> aggregate \<Rightarrow> ('e aggregate_error, aggregate) result" where
  "aggregate_pages get clock loc start fin opts 0 page r =
     Inl (PaginationSafetyStop (int aggregate_page_safety_stop) start fin)"
| "aggregate_pages get clock loc start fin opts (Suc left) page r =
     (case get page of
        Inl e \<Rightarrow> Inl (FetchFailed e)
      | Inr batch \<Rightarrow>
          (let r' = foldl (aggregate_entry clock loc start fin opts) (r\<lparr>ag_pages := ag_pages r + 1\<rparr>) batch in
           if ao_include_entries opts \<and> ao_max_entries opts > 0 \<and> ag_count r' > ao_max_entries opts
           then Inl (EntryCapExceeded (ao_max_entries opts) start fin)
           else if int (length batch) < ag_page_size r' then Inr r'
           else aggregate_pages get clock loc start fin opts left (page + 1) r'))"

definition clamp_page_size :: "int \<Rightarrow> int" where
  "clamp_page_size n =
     (let a = (if n \<le> 0 then 200 else n); b = (if a < 50 then 50 else a) in if b > 200 then 200 else b)"

definition new_aggregate :: "aggregate_options \<Rightarrow> aggregate" where
  "new_aggregate opts =
     (let size = clamp_page_size (ao_page_size opts) in
      \<lparr>ag_list = [], ag_sample = [], ag_running_list = [], ag_seconds = 0, ag_running = 0,
       ag_by_project = [], ag_by_day = [], ag_count = 0, ag_pages = 0, ag_filter = ao_project opts,
       ag_page_size = size, ag_requested = ao_page_size opts,
       ag_clamped = (ao_page_size opts > 0 \<and> ao_page_size opts \<noteq> size)\<rparr>)"

text \<open>Names and clients for the buckets that have none, from the workspace's projects; a failed
  listing changes nothing. \<open>projects\<close> is what \<open>ListAll\<close> returns, \<open>show_v\<close> is \<open>fmt.Sprint\<close>.\<close>

definition report_value_string :: "(json \<Rightarrow> string) \<Rightarrow> json \<Rightarrow> string" where
  "report_value_string show_v v =
     (case v of
        JNull \<Rightarrow> []
      | JStr s \<Rightarrow> trim_space s
      | _ \<Rightarrow> (let s = trim_space (show_v v) in if s = ''<nil>'' then [] else s))"

fun first_report_string :: "(json \<Rightarrow> string) \<Rightarrow> members \<Rightarrow> string list \<Rightarrow> string" where
  "first_report_string show_v row [] = []"
| "first_report_string show_v row (k # ks) =
     (case map_of row k of
        None \<Rightarrow> first_report_string show_v row ks
      | Some v \<Rightarrow>
          if report_value_string show_v v \<noteq> [] then report_value_string show_v v
          else first_report_string show_v row ks)"

record listed_project =
  lp_id :: string
  lp_name :: string
  lp_client_id :: string
  lp_client_name :: string
  lp_client :: json

definition project_client_ref :: "(json \<Rightarrow> string) \<Rightarrow> listed_project \<Rightarrow> string \<times> string" where
  "project_client_ref show_v p =
     (let ident = trim_space (lp_client_id p); name = trim_space (lp_client_name p)
      in case lp_client p of
           JObj m \<Rightarrow> (first_non_empty_string [ident, first_report_string show_v m [''id'', ''_id'', ''clientId'']],
                      first_non_empty_string [name, first_report_string show_v m [''name'', ''clientName'']])
         | _ \<Rightarrow> (ident, name))"

definition unnamed_buckets :: "(string \<times> project_bucket) list \<Rightarrow> (string \<times> string) list" where
  "unnamed_buckets buckets =
     foldl (\<lambda>m (k, b). AList.update (trim_space (pb_id b)) k m) []
       (filter (\<lambda>(_, b). trim_space (pb_id b) \<noteq> [] \<and> (trim_space (pb_name b) = [] \<or> pb_name b = no_project)) buckets)"

definition name_bucket ::
  "(json \<Rightarrow> string) \<Rightarrow> (string \<times> string) list \<Rightarrow> (string \<times> project_bucket) list \<Rightarrow> listed_project \<Rightarrow>
   (string \<times> project_bucket) list" where
  "name_bucket show_v to_resolve buckets p =
     (case map_of to_resolve (trim_space (lp_id p)) of
        None \<Rightarrow> buckets
      | Some k \<Rightarrow>
          (case map_of buckets k of
             None \<Rightarrow> buckets
           | Some b \<Rightarrow>
               (let (client_id, client_name) = project_client_ref show_v p in
                AList.update k
                  (b\<lparr>pb_name := first_non_empty_string [trim_space (lp_name p), pb_name b],
                     pb_client_id := first_non_empty_string [pb_client_id b, client_id],
                     pb_client_name := first_non_empty_string [pb_client_name b, client_name]\<rparr>) buckets)))"

definition resolve_aggregate_project_buckets ::
  "(json \<Rightarrow> string) \<Rightarrow> listed_project list option \<Rightarrow> aggregate \<Rightarrow> aggregate" where
  "resolve_aggregate_project_buckets show_v projects r =
     (let to_resolve = unnamed_buckets (ag_by_project r) in
      if to_resolve = [] then r
      else (case projects of
              None \<Rightarrow> r
            | Some ps \<Rightarrow> r\<lparr>ag_by_project := foldl (name_bucket show_v to_resolve) (ag_by_project r) ps\<rparr>))"

definition aggregate_entries_range ::
  "(json \<Rightarrow> string) \<Rightarrow> listed_project list option \<Rightarrow> bool \<Rightarrow>
   (nat \<Rightarrow> ('e, report_entry list) result) \<Rightarrow> (int \<Rightarrow> instant) \<Rightarrow> location option \<Rightarrow> instant \<Rightarrow> instant \<Rightarrow>
   aggregate_options \<Rightarrow> ('e aggregate_error, aggregate) result" where
  "aggregate_entries_range show_v projects resolve_names get clock loc0 start fin opts =
     bind_result
       (aggregate_pages get clock (case loc0 of None \<Rightarrow> utc_location | Some l \<Rightarrow> l) start fin opts
         aggregate_page_safety_stop 1 (new_aggregate opts))
       (\<lambda>r. Inr (if resolve_names then resolve_aggregate_project_buckets show_v projects r else r))"

section \<open>Summaries\<close>

record summary_totals =
  st_entries :: int
  st_running :: int
  st_seconds :: int
  st_hours :: rat

record project_summary =
  ps_id :: string
  ps_name :: string
  ps_client_id :: string
  ps_client_name :: string
  ps_entries :: int
  ps_seconds :: int
  ps_hours :: rat

record day_summary =
  ds_date :: string
  ds_entries :: int
  ds_seconds :: int
  ds_hours :: rat

definition totals_from_agg :: "aggregate \<Rightarrow> summary_totals" where
  "totals_from_agg r =
     \<lparr>st_entries = ag_count r, st_running = ag_running r, st_seconds = ag_seconds r, st_hours = hours (ag_seconds r)\<rparr>"

definition sort_project_summaries :: "project_summary list \<Rightarrow> project_summary list" where
  "sort_project_summaries = sort_key (\<lambda>p. (- ps_seconds p, ps_name p))"

definition sort_day_summaries :: "day_summary list \<Rightarrow> day_summary list" where
  "sort_day_summaries = sort_key ds_date"

definition project_summary_of :: "project_bucket \<Rightarrow> project_summary" where
  "project_summary_of b =
     \<lparr>ps_id = pb_id b, ps_name = pb_name b, ps_client_id = pb_client_id b, ps_client_name = pb_client_name b,
      ps_entries = pb_entries b, ps_seconds = pb_seconds b, ps_hours = hours (pb_seconds b)\<rparr>"

definition project_summaries_from_agg :: "aggregate \<Rightarrow> project_summary list" where
  "project_summaries_from_agg r = sort_project_summaries (map (\<lambda>(_, b). project_summary_of b) (ag_by_project r))"

definition day_summaries_from_agg :: "aggregate \<Rightarrow> day_summary list" where
  "day_summaries_from_agg r =
     sort_day_summaries
       (map (\<lambda>(date, b). \<lparr>ds_date = date, ds_entries = db_entries b, ds_seconds = db_seconds b,
                           ds_hours = hours (db_seconds b)\<rparr>) (ag_by_day r))"

section \<open>Maintaining a weekly summary\<close>

record weekly_summary =
  ws_start :: string
  ws_end :: string
  ws_totals :: summary_totals
  ws_by_day :: "day_summary list"
  ws_by_project :: "project_summary list"

text \<open>The seconds between the parsed bounds, signed by the direction.\<close>

definition span_seconds :: "instant \<Rightarrow> instant \<Rightarrow> int" where
  "span_seconds start fin = int64_of_float (duration_in_seconds (sub_time fin start))"

text \<open>The first row with the key, between those before and after it, or a new row at the end when
  entries are added. \<open>None\<close> is the error.\<close>

definition find_row :: "('r \<Rightarrow> string) \<Rightarrow> string \<Rightarrow> 'r option \<Rightarrow> 'r list \<Rightarrow> ('r list \<times> 'r \<times> 'r list) option" where
  "find_row key k fresh rows =
     (case List.extract (\<lambda>r. key r = k) rows of
        Some found \<Rightarrow> Some found
      | None \<Rightarrow> map_option (\<lambda>r. (rows, r, [])) fresh)"

definition apply_project_summary_delta ::
  "project_summary list \<Rightarrow> report_entry \<Rightarrow> int \<Rightarrow> int \<Rightarrow> project_summary list option" where
  "apply_project_summary_delta projects e seconds direction =
     (let fresh = (if direction < 0 then None
                   else Some \<lparr>ps_id = re_project e, ps_name = bucket_name e, ps_client_id = [], ps_client_name = [],
                              ps_entries = 0, ps_seconds = 0, ps_hours = 0\<rparr>)
      in case find_row ps_id (re_project e) fresh projects of
           None \<Rightarrow> None
         | Some (before, p, after) \<Rightarrow>
             (let n = ps_entries p + direction; secs = wrap64 (ps_seconds p + seconds) in
              if n < 0 \<or> secs < 0 then None
              else (let named = (if ps_name p = [] \<or> ps_name p = no_project then bucket_name e else ps_name p);
                        row = p\<lparr>ps_entries := n, ps_seconds := secs, ps_name := named\<rparr>
                    in Some (sort_project_summaries
                         (if n = 0 then before @ after
                          else before @ row\<lparr>ps_hours := hours secs\<rparr> # after)))))"

definition apply_day_summary_delta :: "day_summary list \<Rightarrow> string \<Rightarrow> int \<Rightarrow> int \<Rightarrow> day_summary list option" where
  "apply_day_summary_delta days key seconds direction =
     (let fresh = (if direction < 0 then None
                   else Some \<lparr>ds_date = key, ds_entries = 0, ds_seconds = 0, ds_hours = 0\<rparr>)
      in case find_row ds_date key fresh days of
           None \<Rightarrow> None
         | Some (before, d, after) \<Rightarrow>
             (let n = ds_entries d + direction; secs = wrap64 (ds_seconds d + seconds) in
              if n < 0 \<or> secs < 0 then None
              else Some (sort_day_summaries
                     (if n = 0 then before @ after
                      else before @ d\<lparr>ds_entries := n, ds_seconds := secs, ds_hours := hours secs\<rparr> # after))))"

definition apply_cached_weekly_entry_delta ::
  "location \<Rightarrow> weekly_summary \<Rightarrow> report_entry \<Rightarrow> int \<Rightarrow> weekly_summary option" where
  "apply_cached_weekly_entry_delta loc data e direction =
     (if direction \<noteq> - 1 \<and> direction \<noteq> 1 then None
      else (case (start_time e, end_time e) of
              (Some start, Some fin) \<Rightarrow>
                if fin = zero_time \<or> fin < start then None
                else (let seconds = direction * span_seconds start fin;
                          n = st_entries (ws_totals data) + direction;
                          secs = wrap64 (st_seconds (ws_totals data) + seconds)
                      in if n < 0 \<or> secs < 0 then None
                         else (case apply_project_summary_delta (ws_by_project data) e seconds direction of
                                 None \<Rightarrow> None
                               | Some projects \<Rightarrow>
                                   (case apply_day_summary_delta (ws_by_day data) (day_key loc start) seconds direction of
                                      None \<Rightarrow> None
                                    | Some days \<Rightarrow>
                                        Some (data\<lparr>ws_totals := (ws_totals data)\<lparr>st_entries := n, st_seconds := secs,
                                                                  st_hours := hours secs\<rparr>,
                                                   ws_by_project := projects, ws_by_day := days\<rparr>))))
            | _ \<Rightarrow> None))"

text \<open>The two applications of \<open>emitWeeklyReportDeltaFromCache\<close>.\<close>

definition weekly_delta ::
  "location \<Rightarrow> weekly_summary \<Rightarrow> report_entry option \<Rightarrow> report_entry option \<Rightarrow> weekly_summary option" where
  "weekly_delta loc data before after =
     Option.bind
       (case before of None \<Rightarrow> Some data | Some b \<Rightarrow> apply_cached_weekly_entry_delta loc data b (- 1))
       (\<lambda>d. case after of None \<Rightarrow> Some d | Some a \<Rightarrow> apply_cached_weekly_entry_delta loc d a 1)"

section \<open>Recomputing the summary\<close>

text \<open>The specification: the summary of a multiset of finished entries, as tables from keys to
  (entries, seconds, hours).\<close>

type_synonym row = "int \<times> int \<times> rat"

definition settled :: "report_entry \<Rightarrow> bool" where
  "settled e \<longleftrightarrow>
     (case (start_time e, end_time e) of
        (Some start, Some fin) \<Rightarrow> fin \<noteq> zero_time \<and> start \<le> fin
      | _ \<Rightarrow> False)"

definition entry_seconds :: "report_entry \<Rightarrow> int" where
  "entry_seconds e = span_seconds (the (start_time e)) (the (end_time e))"

definition entry_day :: "location \<Rightarrow> report_entry \<Rightarrow> string" where
  "entry_day loc e = day_key loc (the (start_time e))"

definition table :: "(report_entry \<Rightarrow> string) \<Rightarrow> report_entry multiset \<Rightarrow> string \<Rightarrow> row option" where
  "table f M k =
     (let g = filter_mset (\<lambda>e. f e = k) M; secs = (\<Sum>e \<in># g. entry_seconds e)
      in if g = {#} then None else Some (int (size g), secs, hours secs))"

definition rows_match :: "('r \<Rightarrow> string) \<Rightarrow> ('r \<Rightarrow> row) \<Rightarrow> 'r list \<Rightarrow> (string \<Rightarrow> row option) \<Rightarrow> bool" where
  "rows_match key val rows t \<longleftrightarrow>
     distinct (map key rows) \<and> map_of (map (\<lambda>r. (key r, val r)) rows) = t"

definition project_row :: "project_summary \<Rightarrow> row" where
  "project_row p = (ps_entries p, ps_seconds p, ps_hours p)"

definition day_row :: "day_summary \<Rightarrow> row" where
  "day_row d = (ds_entries d, ds_seconds d, ds_hours d)"

definition summarises :: "location \<Rightarrow> report_entry multiset \<Rightarrow> weekly_summary \<Rightarrow> bool" where
  "summarises loc M data \<longleftrightarrow>
     st_entries (ws_totals data) = int (size M) \<and>
     st_seconds (ws_totals data) = (\<Sum>e \<in># M. entry_seconds e) \<and>
     rows_match ps_id project_row (ws_by_project data) (table re_project M) \<and>
     rows_match ds_date day_row (ws_by_day data) (table (entry_day loc) M)"

section \<open>Bounds on seconds\<close>

lemma fl64_within_one:
  assumes "0 \<le> x" and "x \<le> 2 ^ 53"
  shows "fl64 x \<le> x + 1"
proof -
  have "max (\<bar>x\<bar> / 2 ^ 53) (1 / 2 ^ 1075) \<le> 1"
    using assms by (intro max.boundedI) (simp_all add: divide_le_eq_1 del: power_numeral)
  then have "\<bar>fl64 x - x\<bar> \<le> 1" using fl64_error [of x] by linarith
  then show ?thesis by linarith
qed

lemma span_seconds_bounds:
  assumes "start \<le> fin"
  shows "0 \<le> span_seconds start fin \<and> span_seconds start fin \<le> 9223372040"
proof -
  define d where "d = sub_time fin start"
  have d: "0 \<le> d" "d \<le> max_int64"
    using assms by (simp_all add: d_def sub_time_def max_int64_def min_int64_def)
  define q where "q = d div second"
  define r where "r = d mod second"
  have q: "0 \<le> q" "q \<le> 9223372036"
    using d zdiv_mono1 [OF d(2), of second]
    by (simp_all add: q_def second_def max_int64_def pos_imp_zdiv_nonneg_iff)
  have r: "0 \<le> r" "r < 1000000000" by (simp_all add: r_def second_def)
  have go: "quot_go d second = q" "rem_go d second = r"
    using d(1) by (auto simp: quot_go_def rem_go_def q_def r_def second_def sgn_if minus_mult_div_eq_mod)
  define y where "y = fl64 (of_int r / 1000000000)"
  have y0: "0 \<le> y" unfolding y_def by (rule fl64_ge_0) (use r in simp)
  have "y \<le> of_int r / 1000000000 + 1" unfolding y_def by (rule fl64_within_one) (use r in simp_all)
  then have y2: "y \<le> 2" using r by simp
  have dur: "duration_in_seconds d = fl64 (of_int q + y)"
    using q r by (simp add: duration_in_seconds_def go fl64_of_int y_def)
  have z0: "0 \<le> of_int q + y" using q y0 by simp
  have z1: "of_int q + y \<le> 9223372038" using q(2) y2 by (simp add: add_mono of_int_le_iff [symmetric])
  have f0: "0 \<le> fl64 (of_int q + y)" by (rule fl64_ge_0 [OF z0])
  have "fl64 (of_int q + y) \<le> of_int q + y + 1" by (rule fl64_within_one [OF z0]) (use z1 in simp)
  then have f1: "fl64 (of_int q + y) \<le> 9223372039" using z1 by linarith
  have "0 \<le> trunc_rat (duration_in_seconds d)" "trunc_rat (duration_in_seconds d) \<le> 9223372040"
    using f0 f1 by (auto simp: dur trunc_rat_def floor_le_iff)
  then show ?thesis
    by (simp add: span_seconds_def int64_of_float_def Let_def is_int64_def min_int64_def max_int64_def d_def [symmetric])
qed

lemma settledE:
  assumes "settled e"
  obtains start fin where "start_time e = Some start" "end_time e = Some fin" "fin \<noteq> zero_time" "start \<le> fin"
    "entry_seconds e = span_seconds start fin" "0 \<le> entry_seconds e"
  using assms span_seconds_bounds
  by (auto simp: settled_def entry_seconds_def split: option.splits)

section \<open>Rows as tables\<close>

lemma distinct_map_fst: "distinct (map fst (map (\<lambda>r. (key r, val r)) rows)) \<longleftrightarrow> distinct (map key rows)"
  by (simp add: comp_def)

lemma rows_match_sort:
  assumes "rows_match key val rows t"
  shows "rows_match key val (sort_key f rows) t"
proof -
  have d: "distinct (map key rows)" and t: "t = map_of (map (\<lambda>r. (key r, val r)) rows)"
    using assms by (simp_all add: rows_match_def)
  have "mset (map key (sort_key f rows)) = mset (map key rows)" by simp
  with d have d': "distinct (map key (sort_key f rows))" using mset_eq_imp_distinct_iff by blast
  have "map_of (map (\<lambda>r. (key r, val r)) (sort_key f rows)) = map_of (map (\<lambda>r. (key r, val r)) rows)"
    by (rule map_of_inject_set [THEN iffD2]) (simp_all only: distinct_map_fst d d' set_map set_sort)
  with d' t show ?thesis by (simp add: rows_match_def)
qed

lemma map_of_absent [simp]: "k \<notin> key ` set rows \<Longrightarrow> map_of (map (\<lambda>r. (key r, val r)) rows) k = None"
  by (induction rows) auto

lemma rows_match_replace:
  assumes m: "rows_match key val (b @ r # a) t" and k: "key row = key r"
  shows "rows_match key val (b @ row # a) (t(key r := Some (val row)))"
proof -
  have d: "distinct (map key (b @ r # a))" and t: "t = map_of (map (\<lambda>r. (key r, val r)) (b @ r # a))"
    using m by (simp_all add: rows_match_def)
  have "map_of (map (\<lambda>r. (key r, val r)) (b @ row # a)) x = (t(key r := Some (val row))) x" for x
    using d k unfolding t by (cases "x = key r") (auto simp: map_add_def split: option.splits)
  with d k show ?thesis by (auto simp: rows_match_def)
qed

lemma rows_match_remove:
  assumes m: "rows_match key val (b @ r # a) t"
  shows "rows_match key val (b @ a) (t(key r := None))"
proof -
  have d: "distinct (map key (b @ r # a))" and t: "t = map_of (map (\<lambda>r. (key r, val r)) (b @ r # a))"
    using m by (simp_all add: rows_match_def)
  have "map_of (map (\<lambda>r. (key r, val r)) (b @ a)) x = (t(key r := None)) x" for x
    using d unfolding t by (cases "x = key r") (auto simp: map_add_def split: option.splits)
  with d show ?thesis by (auto simp: rows_match_def)
qed

lemma rows_match_append:
  assumes m: "rows_match key val rows t" and k: "t (key row) = None"
  shows "rows_match key val (rows @ [row]) (t(key row := Some (val row)))"
proof -
  have d: "distinct (map key rows)" and t: "t = map_of (map (\<lambda>r. (key r, val r)) rows)"
    using m by (simp_all add: rows_match_def)
  have "key row \<notin> key ` set rows"
    using k by (auto simp: t map_of_eq_None_iff image_iff)
  moreover have "map_of (map (\<lambda>r. (key r, val r)) (rows @ [row])) x = (t(key row := Some (val row))) x" for x
    using k unfolding t by (cases "x = key row") (auto simp: map_add_def split: option.splits)
  ultimately show ?thesis using d by (auto simp: rows_match_def)
qed

text \<open>The row found for a key carries the table's cell, or is the fresh one when there is none;
  putting back a row of that key, or leaving it out, changes that cell only.\<close>

lemma find_row_hit:
  assumes "List.extract (\<lambda>r. key r = k) rows = Some (b, r, a)" and m: "rows_match key val rows t"
  shows "find_row key k fresh rows = Some (b, r, a)" "rows = b @ r # a" "key r = k" "t k = Some (val r)"
proof -
  show "find_row key k fresh rows = Some (b, r, a)" by (simp add: find_row_def assms(1))
  show r: "rows = b @ r # a" "key r = k" using assms(1) by (simp_all add: extract_Some_iff)
  with m have "key r \<notin> key ` set b" and "t = map_of (map (\<lambda>r. (key r, val r)) (b @ r # a))"
    by (auto simp: rows_match_def)
  with r show "t k = Some (val r)" by (simp add: map_add_def)
qed

lemma find_row_miss:
  assumes none: "List.extract (\<lambda>r. key r = k) rows = None" and m: "rows_match key val rows t"
  shows "find_row key k fresh rows = map_option (\<lambda>r. (rows, r, [])) fresh" "t k = None"
proof -
  show "find_row key k fresh rows = map_option (\<lambda>r. (rows, r, [])) fresh" by (simp add: find_row_def none)
  have "k \<notin> key ` set rows" using none by (auto simp: extract_None_iff)
  then show "t k = None" using m by (simp add: rows_match_def flip: map_of_absent [of k key rows val])
qed

section \<open>Tables under adding and removing an entry\<close>

definition cell :: "int \<Rightarrow> int \<Rightarrow> row option" where
  "cell n secs = (if n = 0 then None else Some (n, secs, hours secs))"

definition entry_count :: "(report_entry \<Rightarrow> string) \<Rightarrow> report_entry multiset \<Rightarrow> string \<Rightarrow> int" where
  "entry_count f M k = int (size (filter_mset (\<lambda>e. f e = k) M))"

definition seconds_total :: "(report_entry \<Rightarrow> string) \<Rightarrow> report_entry multiset \<Rightarrow> string \<Rightarrow> int" where
  "seconds_total f M k = (\<Sum>e \<in># filter_mset (\<lambda>e. f e = k) M. entry_seconds e)"

lemma table_cell: "table f M k = cell (entry_count f M k) (seconds_total f M k)"
  by (simp add: table_def cell_def Let_def entry_count_def seconds_total_def)

lemma entry_count_add: "entry_count f (add_mset e M) k = entry_count f M k + (if f e = k then 1 else 0)"
  and seconds_total_add: "seconds_total f (add_mset e M) k = seconds_total f M k + (if f e = k then entry_seconds e else 0)"
  by (simp_all add: entry_count_def seconds_total_def)

lemma entry_count_nonneg: "0 \<le> entry_count f M k"
  by (simp add: entry_count_def)

lemma seconds_total_empty: "entry_count f M k = 0 \<Longrightarrow> seconds_total f M k = 0"
proof -
  assume "entry_count f M k = 0"
  then have "filter_mset (\<lambda>e. f e = k) M = {#}" by (simp only: entry_count_def of_nat_eq_0_iff size_eq_0_iff_empty)
  then show ?thesis by (simp only: seconds_total_def) simp
qed

lemma seconds_sum_nonneg: "\<forall>e \<in># M. settled e \<Longrightarrow> 0 \<le> (\<Sum>e \<in># M. entry_seconds e)"
  by (induction M) (auto elim!: settledE)

lemma seconds_total_bounds:
  assumes "\<forall>e \<in># M. settled e"
  shows "0 \<le> seconds_total f M k \<and> seconds_total f M k \<le> (\<Sum>e \<in># M. entry_seconds e)"
proof -
  have "M = filter_mset (\<lambda>e. f e = k) M + filter_mset (\<lambda>e. f e \<noteq> k) M" by (rule multiset_partition)
  then have "(\<Sum>e \<in># M. entry_seconds e) =
      seconds_total f M k + (\<Sum>e \<in># filter_mset (\<lambda>e. f e \<noteq> k) M. entry_seconds e)"
    unfolding seconds_total_def by (metis image_mset_union sum_mset.union)
  moreover have "0 \<le> (\<Sum>e \<in># filter_mset (\<lambda>e. f e \<noteq> k) M. entry_seconds e)" and "0 \<le> seconds_total f M k"
    using assms by (auto simp: seconds_total_def intro!: seconds_sum_nonneg)
  ultimately show ?thesis by simp
qed

text \<open>One entry \<open>e\<close> more, or one less.\<close>

definition moved :: "report_entry \<Rightarrow> int \<Rightarrow> report_entry multiset \<Rightarrow> report_entry multiset \<Rightarrow> bool" where
  "moved e d M M' \<longleftrightarrow>
     (d = 1 \<and> M' = add_mset e M) \<or> (d = - 1 \<and> M = add_mset e M')"

lemma table_moved:
  assumes "moved e d M M'"
  shows "table f M' = (table f M)(f e := cell (entry_count f M (f e) + d) (seconds_total f M (f e) + d * entry_seconds e))"
  using assms
  by (auto simp: moved_def fun_eq_iff table_cell entry_count_add seconds_total_add)

lemma moved_counts:
  assumes "moved e d M M'"
  shows "entry_count f M' (f e) = entry_count f M (f e) + d"
    and "seconds_total f M' (f e) = seconds_total f M (f e) + d * entry_seconds e"
    and "d < 0 \<Longrightarrow> 0 < entry_count f M (f e)"
  using assms entry_count_nonneg [of f M' "f e"]
  by (auto simp: moved_def entry_count_add seconds_total_add)

section \<open>The incremental update\<close>

lemma found_row:
  assumes m: "rows_match key val rows t" and f: "find_row key k fresh rows = Some (b, r, a)"
    and fresh: "\<And>x. fresh = Some x \<Longrightarrow> key x = k"
  shows "key r = k" and "t k = Some (val r) \<or> t k = None \<and> fresh = Some r"
    and "key row = k \<Longrightarrow> rows_match key val (b @ row # a) (t(k := Some (val row)))"
    and "rows_match key val (b @ a) (t(k := None))"
proof -
  consider (old) "rows = b @ r # a" "key r = k" "t k = Some (val r)"
    | (new) "rows = b" "a = []" "fresh = Some r" "t k = None"
  proof (cases "List.extract (\<lambda>r. key r = k) rows")
    case None
    with f find_row_miss(1) [OF None m, of fresh] find_row_miss(2) [OF None m] show ?thesis using that(2) by (cases fresh) simp_all
  next
    case (Some x)
    obtain b' r' a' where x: "x = (b', r', a')" by (cases x)
    note hit = find_row_hit [OF Some [unfolded x] m]
    from hit(1) [of fresh] f have "b' = b" "r' = r" "a' = a" by simp_all
    with hit(2-4) show ?thesis using that(1) by simp
  qed
  then have all: "key r = k \<and> (t k = Some (val r) \<or> t k = None \<and> fresh = Some r) \<and>
      (key row = k \<longrightarrow> rows_match key val (b @ row # a) (t(k := Some (val row)))) \<and>
      rows_match key val (b @ a) (t(k := None))"
  proof cases
    case old
    with m rows_match_replace [of key val b r a t row] rows_match_remove [of key val b r a t]
    show ?thesis by auto
  next
    case new
    have "t(k := None) = t" using new by auto
    with new m fresh rows_match_append [of key val b t row] show ?thesis by auto
  qed
  then show "key r = k" and "t k = Some (val r) \<or> t k = None \<and> fresh = Some r"
    and "key row = k \<Longrightarrow> rows_match key val (b @ row # a) (t(k := Some (val row)))"
    and "rows_match key val (b @ a) (t(k := None))"
    by blast+
qed

text \<open>What holds of the row of \<open>e\<close>'s key before an application, and the cell it must end up with.\<close>

lemma moved_row:
  assumes m: "rows_match key val rows (table f M)" and mv: "moved e d M M'"
    and fresh: "d > 0 \<Longrightarrow> fresh \<noteq> None" "\<And>x. fresh = Some x \<Longrightarrow> key x = f e \<and> (\<exists>h. val x = (0, 0, h))"
  shows "\<exists>b r a h. find_row key (f e) fresh rows = Some (b, r, a) \<and> key r = f e \<and>
           val r = (entry_count f M (f e), seconds_total f M (f e), h) \<and>
           (\<forall>row. key row = f e \<longrightarrow> rows_match key val (b @ row # a) ((table f M)(f e := Some (val row)))) \<and>
           rows_match key val (b @ a) ((table f M)(f e := None))"
proof -
  have "find_row key (f e) fresh rows \<noteq> None"
  proof (cases "List.extract (\<lambda>r. key r = f e) rows")
    case None
    note miss = find_row_miss [OF None m]
    then have "entry_count f M (f e) = 0" by (simp add: table_cell cell_def split: if_splits)
    then have "d > 0" using moved_counts(3) [OF mv, of f] mv by (auto simp: moved_def)
    with fresh(1) show ?thesis by (simp add: miss(1))
  next
    case (Some x)
    obtain b' r' a' where "x = (b', r', a')" by (cases x)
    with find_row_hit(1) [OF _ m] Some show ?thesis by (metis option.distinct(1))
  qed
  then obtain b r a where found: "find_row key (f e) fresh rows = Some (b, r, a)"
    by (metis not_None_eq prod_cases3)
  note facts = found_row [OF m found, OF conjunct1 [OF fresh(2)]]
  have "\<exists>h. val r = (entry_count f M (f e), seconds_total f M (f e), h)"
    using facts(2)
  proof
    assume "table f M (f e) = Some (val r)"
    then have "val r = (entry_count f M (f e), seconds_total f M (f e), hours (seconds_total f M (f e)))"
      by (simp add: table_cell cell_def split: if_splits)
    then show ?thesis by blast
  next
    assume none: "table f M (f e) = None \<and> fresh = Some r"
    then have "entry_count f M (f e) = 0" by (simp add: table_cell cell_def split: if_splits)
    with none fresh(2) [of r] seconds_total_empty show ?thesis by auto
  qed
  with found facts(1,3,4) show ?thesis by blast
qed

text \<open>The row put back, or left out when its count reaches zero, makes the table of the new entries.\<close>

lemma table_of_row:
  assumes mv: "moved e d M M'"
    and put: "n \<noteq> 0 \<Longrightarrow> rows_match key val rows ((table f M)(f e := Some (n, secs, hours secs)))"
    and out: "n = 0 \<Longrightarrow> rows_match key val rows ((table f M)(f e := None))"
    and n: "n = entry_count f M' (f e)" and secs: "secs = seconds_total f M' (f e)"
  shows "rows_match key val rows (table f M')"
  using put out unfolding table_moved [OF mv] n secs moved_counts(1,2) [OF mv] by (auto simp: cell_def)

lemma wrap64_total:
  assumes "\<forall>e \<in># M'. settled e" and "(\<Sum>e \<in># M'. entry_seconds e) \<le> max_int64"
  shows "wrap64 (seconds_total f M' k) = seconds_total f M' k \<and> 0 \<le> seconds_total f M' k"
proof -
  have "0 \<le> seconds_total f M' k" "seconds_total f M' k \<le> max_int64"
    using seconds_total_bounds [OF assms(1), of f k] assms(2) by linarith+
  then have "is_int64 (seconds_total f M' k)" by (simp add: is_int64_def min_int64_def)
  with wrap64_id \<open>0 \<le> seconds_total f M' k\<close> show ?thesis by blast
qed

lemma project_delta:
  assumes m: "rows_match ps_id project_row projects (table re_project M)"
    and mv: "moved e d M M'"
    and bound: "\<forall>e \<in># M'. settled e" "(\<Sum>e \<in># M'. entry_seconds e) \<le> max_int64"
  shows "\<exists>projects'. apply_project_summary_delta projects e (d * entry_seconds e) d = Some projects' \<and>
           rows_match ps_id project_row projects' (table re_project M')"
proof -
  define fresh where "fresh = (if d < 0 then None
    else Some \<lparr>ps_id = re_project e, ps_name = bucket_name e, ps_client_id = [], ps_client_name = [],
               ps_entries = 0, ps_seconds = 0, ps_hours = 0\<rparr>)"
  have fresh1: "d > 0 \<Longrightarrow> fresh \<noteq> None"
    and fresh2: "\<And>x. fresh = Some x \<Longrightarrow> ps_id x = re_project e \<and> (\<exists>h. project_row x = (0, 0, h))"
    by (auto simp: fresh_def project_row_def split: if_splits)
  obtain b r a h where found: "find_row ps_id (re_project e) fresh projects = Some (b, r, a)"
    and key: "ps_id r = re_project e"
    and val: "project_row r = (entry_count re_project M (re_project e), seconds_total re_project M (re_project e), h)"
    and put: "\<And>row. ps_id row = re_project e \<Longrightarrow>
        rows_match ps_id project_row (b @ row # a) ((table re_project M)(re_project e := Some (project_row row)))"
    and out: "rows_match ps_id project_row (b @ a) ((table re_project M)(re_project e := None))"
    using moved_row [OF m mv fresh1 fresh2] by blast
  define n where "n = entry_count re_project M' (re_project e)"
  define secs where "secs = seconds_total re_project M' (re_project e)"
  have n: "ps_entries r + d = n" and s: "wrap64 (ps_seconds r + d * entry_seconds e) = secs" "0 \<le> secs"
    using val moved_counts(1,2) [OF mv] wrap64_total [OF bound, of re_project "re_project e"]
    by (simp_all add: project_row_def n_def secs_def)
  have n0: "0 \<le> n" by (simp add: n_def entry_count_nonneg)
  define row where "row = r\<lparr>ps_entries := n, ps_seconds := secs,
      ps_name := (if ps_name r = [] \<or> ps_name r = no_project then bucket_name e else ps_name r),
      ps_hours := hours secs\<rparr>"
  have "apply_project_summary_delta projects e (d * entry_seconds e) d =
      Some (sort_project_summaries (if n = 0 then b @ a else b @ row # a))"
    unfolding apply_project_summary_delta_def Let_def fresh_def [symmetric] found option.case prod.case n s(1)
    using n0 s(2) by (simp add: row_def)
  moreover have "rows_match ps_id project_row (if n = 0 then b @ a else b @ row # a) (table re_project M')"
    by (rule table_of_row [OF mv _ _ n_def secs_def])
      (use put [of row] out key in \<open>auto simp: row_def project_row_def\<close>)
  ultimately show ?thesis
    by (metis rows_match_sort sort_project_summaries_def)
qed

lemma day_delta:
  assumes m: "rows_match ds_date day_row days (table (entry_day loc) M)"
    and mv: "moved e d M M'"
    and bound: "\<forall>e \<in># M'. settled e" "(\<Sum>e \<in># M'. entry_seconds e) \<le> max_int64"
  shows "\<exists>days'. apply_day_summary_delta days (entry_day loc e) (d * entry_seconds e) d = Some days' \<and>
           rows_match ds_date day_row days' (table (entry_day loc) M')"
proof -
  let ?f = "entry_day loc"
  define fresh where "fresh = (if d < 0 then None
    else Some \<lparr>ds_date = ?f e, ds_entries = 0, ds_seconds = 0, ds_hours = 0\<rparr>)"
  have fresh1: "d > 0 \<Longrightarrow> fresh \<noteq> None"
    and fresh2: "\<And>x. fresh = Some x \<Longrightarrow> ds_date x = ?f e \<and> (\<exists>h. day_row x = (0, 0, h))"
    by (auto simp: fresh_def day_row_def split: if_splits)
  obtain b r a h where found: "find_row ds_date (?f e) fresh days = Some (b, r, a)"
    and key: "ds_date r = ?f e"
    and val: "day_row r = (entry_count ?f M (?f e), seconds_total ?f M (?f e), h)"
    and put: "\<And>row. ds_date row = ?f e \<Longrightarrow>
        rows_match ds_date day_row (b @ row # a) ((table ?f M)(?f e := Some (day_row row)))"
    and out: "rows_match ds_date day_row (b @ a) ((table ?f M)(?f e := None))"
    using moved_row [OF m mv fresh1 fresh2] by blast
  define n where "n = entry_count ?f M' (?f e)"
  define secs where "secs = seconds_total ?f M' (?f e)"
  have n: "ds_entries r + d = n" and s: "wrap64 (ds_seconds r + d * entry_seconds e) = secs" "0 \<le> secs"
    using val moved_counts(1,2) [OF mv] wrap64_total [OF bound, of ?f "?f e"]
    by (simp_all add: day_row_def n_def secs_def)
  have n0: "0 \<le> n" by (simp add: n_def entry_count_nonneg)
  define row where "row = r\<lparr>ds_entries := n, ds_seconds := secs, ds_hours := hours secs\<rparr>"
  have "apply_day_summary_delta days (?f e) (d * entry_seconds e) d =
      Some (sort_day_summaries (if n = 0 then b @ a else b @ row # a))"
    unfolding apply_day_summary_delta_def Let_def fresh_def [symmetric] found option.case prod.case n s(1)
    using n0 s(2) by (simp add: row_def)
  moreover have "rows_match ds_date day_row (if n = 0 then b @ a else b @ row # a) (table ?f M')"
    by (rule table_of_row [OF mv _ _ n_def secs_def])
      (use put [of row] out key in \<open>auto simp: row_def day_row_def\<close>)
  ultimately show ?thesis
    by (metis rows_match_sort sort_day_summaries_def)
qed

lemma cached_delta:
  assumes sum: "summarises loc M data" and mv: "moved e d M M'" and e: "settled e"
    and bound: "\<forall>e \<in># M'. settled e" "(\<Sum>e \<in># M'. entry_seconds e) \<le> max_int64"
  shows "\<exists>data'. apply_cached_weekly_entry_delta loc data e d = Some data' \<and> summarises loc M' data' \<and>
           st_hours (ws_totals data') = hours (st_seconds (ws_totals data')) \<and>
           ws_start data' = ws_start data \<and> ws_end data' = ws_end data"
proof -
  obtain start fin where t: "start_time e = Some start" "end_time e = Some fin" "fin \<noteq> zero_time" "start \<le> fin"
    and span: "entry_seconds e = span_seconds start fin" using e by (rule settledE)
  have day: "entry_day loc e = day_key loc start" using t by (simp add: entry_day_def)
  have sums: "st_entries (ws_totals data) = int (size M)" "st_seconds (ws_totals data) = (\<Sum>e \<in># M. entry_seconds e)"
    and rows: "rows_match ps_id project_row (ws_by_project data) (table re_project M)"
      "rows_match ds_date day_row (ws_by_day data) (table (entry_day loc) M)"
    using sum by (simp_all add: summarises_def)
  define total where "total = (\<Sum>e \<in># M'. entry_seconds e)"
  have n: "st_entries (ws_totals data) + d = int (size M')" and d: "d = 1 \<or> d = - 1"
    and add: "st_seconds (ws_totals data) + d * entry_seconds e = total"
    using mv sums by (auto simp: moved_def total_def)
  have "0 \<le> total" using seconds_sum_nonneg bound(1) by (simp add: total_def)
  with bound(2) have secs: "wrap64 (st_seconds (ws_totals data) + d * span_seconds start fin) = total"
    using add span by (intro trans [OF wrap64_id]) (auto simp: is_int64_def min_int64_def total_def)
  obtain projects where p: "apply_project_summary_delta (ws_by_project data) e (d * span_seconds start fin) d = Some projects"
      "rows_match ps_id project_row projects (table re_project M')"
    using project_delta [OF rows(1) mv bound] span by auto
  obtain days where ds: "apply_day_summary_delta (ws_by_day data) (day_key loc start) (d * span_seconds start fin) d = Some days"
      "rows_match ds_date day_row days (table (entry_day loc) M')"
    using day_delta [OF rows(2) mv bound] span day by auto
  show ?thesis
    using t d n secs p ds \<open>0 \<le> total\<close>
    by (auto simp: apply_cached_weekly_entry_delta_def Let_def summarises_def total_def)
qed


section \<open>The aggregator against the specification\<close>

definition bucket_row :: "string \<times> project_bucket \<Rightarrow> row" where
  "bucket_row kb = (pb_entries (snd kb), pb_seconds (snd kb), hours (pb_seconds (snd kb)))"

definition day_bucket_row :: "string \<times> day_bucket \<Rightarrow> row" where
  "day_bucket_row kb = (db_entries (snd kb), db_seconds (snd kb), hours (db_seconds (snd kb)))"

definition aggregates :: "location \<Rightarrow> report_entry multiset \<Rightarrow> aggregate \<Rightarrow> bool" where
  "aggregates loc M r \<longleftrightarrow>
     ag_count r = int (size M) \<and> ag_seconds r = (\<Sum>e \<in># M. entry_seconds e) \<and>
     rows_match fst bucket_row (ag_by_project r) (table re_project M) \<and>
     (\<forall>(k, b) \<in> set (ag_by_project r). pb_id b = k) \<and>
     rows_match fst day_bucket_row (ag_by_day r) (table (entry_day loc) M)"

lemma rows_match_map: "rows_match key val (map g rows) t \<longleftrightarrow> rows_match (key \<circ> g) (val \<circ> g) rows t"
  by (simp add: rows_match_def comp_def)

lemma rows_match_cong:
  "(\<And>r. r \<in> set rows \<Longrightarrow> key r = key' r \<and> val r = val' r) \<Longrightarrow> rows_match key val rows t \<longleftrightarrow> rows_match key' val' rows t"
  unfolding rows_match_def by (simp cong: map_cong)

lemma map_of_fst: "map_of (map (\<lambda>r. (fst r, f (fst r) (snd r))) al) k = map_option (f k) (map_of al k)"
  by (induction al) auto

lemma rows_match_alist:
  assumes "\<And>kb. val kb = f (snd kb)"
  shows "rows_match fst val al t \<longleftrightarrow> distinct (map fst al) \<and> (\<forall>k. map_option f (map_of al k) = t k)"
  using map_of_fst [of "\<lambda>_. f" al] by (auto simp: rows_match_def assms fun_eq_iff)

lemma rows_match_update:
  assumes "\<And>kb. val kb = f (snd kb)" and "rows_match fst val al t"
  shows "rows_match fst val (AList.update k b al) (t(k := Some (f b)))"
  using assms(2) unfolding rows_match_alist [of val f, OF assms(1)]
  by (auto simp: AList.update_conv' AList.distinct_update)

lemma in_update: "(k', b') \<in> set (AList.update k b al) \<Longrightarrow> (k', b') = (k, b) \<or> (k', b') \<in> set al"
  by (induction al) (auto split: if_splits)

lemma table_add:
  "table f (add_mset e M) =
     (table f M)(f e := Some (entry_count f M (f e) + 1, seconds_total f M (f e) + entry_seconds e,
                              hours (seconds_total f M (f e) + entry_seconds e)))"
proof -
  have "entry_count f M (f e) + 1 \<noteq> 0" using entry_count_nonneg [of f M "f e"] by simp
  then show ?thesis using table_moved [of e 1 M "add_mset e M" f] by (simp add: moved_def cell_def)
qed

text \<open>The counters of a key, from its bucket or from the fresh one.\<close>

lemma bucket_counters:
  assumes "\<And>kb. val kb = (n (snd kb), s (snd kb), hours (s (snd kb)))" and "rows_match fst val al (table f M)"
  shows "case map_of al k of None \<Rightarrow> entry_count f M k = 0 \<and> seconds_total f M k = 0
         | Some b \<Rightarrow> n b = entry_count f M k \<and> s b = seconds_total f M k"
proof -
  have "map_option (\<lambda>b. (n b, s b, hours (s b))) (map_of al k) = table f M k"
    using assms(2) rows_match_alist [of val "\<lambda>b. (n b, s b, hours (s b))" al "table f M"] assms(1) by simp
  then show ?thesis
    using seconds_total_empty [of f M k]
    by (auto simp: table_cell cell_def split: option.splits if_splits)
qed

lemma count_project_match:
  assumes m: "rows_match fst bucket_row buckets (table re_project M)"
    and ids: "\<forall>(k, b) \<in> set buckets. pb_id b = k"
    and w: "wrap64 (seconds_total re_project M (re_project e) + entry_seconds e) =
              seconds_total re_project M (re_project e) + entry_seconds e"
  shows "rows_match fst bucket_row (count_project (entry_seconds e) e buckets) (table re_project (add_mset e M)) \<and>
         (\<forall>(k, b) \<in> set (count_project (entry_seconds e) e buckets). pb_id b = k)"
proof -
  define b where "b = project_bucket_for buckets e"
  have nums: "pb_entries b = entry_count re_project M (re_project e)"
      "pb_seconds b = seconds_total re_project M (re_project e)"
    using bucket_counters [of bucket_row pb_entries pb_seconds, OF _ m, of "re_project e"]
    by (auto simp: b_def project_bucket_for_def bucket_row_def split: option.splits)
  have ident: "pb_id b = re_project e"
    using ids by (auto simp: b_def project_bucket_for_def split: option.splits dest!: map_of_SomeD)
  have upd: "rows_match fst bucket_row (AList.update k b' buckets)
      ((table re_project M)(k := Some (pb_entries b', pb_seconds b', hours (pb_seconds b'))))" for k b'
    using rows_match_update [of bucket_row "\<lambda>b. (pb_entries b, pb_seconds b, hours (pb_seconds b))", OF _ m]
    by (simp add: bucket_row_def)
  have "rows_match fst bucket_row (count_project (entry_seconds e) e buckets) (table re_project (add_mset e M))"
    using upd [of "re_project e" "b\<lparr>pb_entries := pb_entries b + 1, pb_seconds := wrap64 (pb_seconds b + entry_seconds e)\<rparr>"]
    by (simp add: count_project_def Let_def table_add nums w flip: b_def)
  moreover have "pb_id b' = k" if "(k, b') \<in> set (count_project (entry_seconds e) e buckets)" for k b'
    using in_update that ids ident unfolding count_project_def Let_def b_def [symmetric] by fastforce
  ultimately show ?thesis by blast
qed

lemma count_day_match:
  assumes m: "rows_match fst day_bucket_row days (table (entry_day loc) M)" and e: "settled e"
    and w: "wrap64 (seconds_total (entry_day loc) M (entry_day loc e) + entry_seconds e) =
              seconds_total (entry_day loc) M (entry_day loc e) + entry_seconds e"
  shows "rows_match fst day_bucket_row (count_day loc (entry_seconds e) e days) (table (entry_day loc) (add_mset e M))"
proof -
  obtain start where start: "start_time e = Some start" using e by (rule settledE)
  then have key: "entry_day loc e = day_key loc start" by (simp add: entry_day_def)
  define b where "b = (case map_of days (day_key loc start) of None \<Rightarrow> \<lparr>db_entries = 0, db_seconds = 0\<rparr> | Some b \<Rightarrow> b)"
  have nums: "db_entries b = entry_count (entry_day loc) M (day_key loc start)"
      "db_seconds b = seconds_total (entry_day loc) M (day_key loc start)"
    using bucket_counters [of day_bucket_row db_entries db_seconds, OF _ m, of "day_key loc start"]
    by (auto simp: b_def day_bucket_row_def split: option.splits)
  have "rows_match fst day_bucket_row (AList.update k b' days)
      ((table (entry_day loc) M)(k := Some (db_entries b', db_seconds b', hours (db_seconds b'))))" for k b'
    using rows_match_update [of day_bucket_row "\<lambda>b. (db_entries b, db_seconds b, hours (db_seconds b))", OF _ m]
    by (simp add: day_bucket_row_def)
  from this [of "day_key loc start" "\<lparr>db_entries = db_entries b + 1, db_seconds = wrap64 (db_seconds b + entry_seconds e)\<rparr>"]
  show ?thesis
    using w by (simp add: count_day_def Let_def start table_add key nums flip: b_def)
qed

lemma settled_duration: "settled e \<Longrightarrow> duration_seconds now (time_entry.truncate e) = entry_seconds e"
  by (auto simp: settled_def duration_seconds_def entry_seconds_def start_time_def end_time_def
      span_seconds_def time_entry.defs Let_def split: option.splits if_splits)

lemma wrap64_key:
  assumes "\<forall>x \<in># add_mset e M. settled x" and "(\<Sum>x \<in># add_mset e M. entry_seconds x) \<le> max_int64"
  shows "wrap64 (seconds_total f M (f e) + entry_seconds e) = seconds_total f M (f e) + entry_seconds e"
  using wrap64_total [OF assms, of f "f e"] by (simp add: seconds_total_add)

lemma aggregate_entry_step:
  assumes a: "aggregates loc M r" and range: "entry_starts_within_range e start fin"
    and bound: "\<forall>x \<in># add_mset e M. settled x" "(\<Sum>x \<in># add_mset e M. entry_seconds x) \<le> max_int64"
  shows "aggregates loc (add_mset e M) (aggregate_entry clock loc start fin opts r e)"
proof -
  have e: "settled e" using bound(1) by simp
  have "0 \<le> (\<Sum>x \<in># add_mset e M. entry_seconds x)" using seconds_sum_nonneg [OF bound(1)] .
  then have total: "wrap64 ((\<Sum>x \<in># M. entry_seconds x) + entry_seconds e) = (\<Sum>x \<in># M. entry_seconds x) + entry_seconds e"
    using bound(2) by (intro wrap64_id) (simp add: is_int64_def min_int64_def add.commute)
  have rows: "rows_match fst bucket_row (ag_by_project r) (table re_project M)"
    "\<forall>(k, b) \<in> set (ag_by_project r). pb_id b = k"
    "rows_match fst day_bucket_row (ag_by_day r) (table (entry_day loc) M)"
    using a by (simp_all add: aggregates_def)
  note project = count_project_match [OF rows(1,2) wrap64_key [OF bound, of re_project]]
  note day = count_day_match [OF rows(3) e wrap64_key [OF bound, of "entry_day loc"]]
  show ?thesis
    using a range project day total
    by (simp add: aggregates_def aggregate_entry_def Let_def settled_duration [OF e])
qed

definition in_range :: "instant \<Rightarrow> instant \<Rightarrow> report_entry list \<Rightarrow> report_entry list" where
  "in_range start fin es = filter (\<lambda>e. entry_starts_within_range e start fin) es"

lemma in_range_append [simp]: "in_range start fin (xs @ ys) = in_range start fin xs @ in_range start fin ys"
  by (simp add: in_range_def)

lemma aggregate_batch:
  assumes "aggregates loc M r" and "\<forall>x \<in># M + mset (in_range start fin batch). settled x"
    and "(\<Sum>x \<in># M + mset (in_range start fin batch). entry_seconds x) \<le> max_int64"
  shows "aggregates loc (M + mset (in_range start fin batch))
           (foldl (aggregate_entry clock loc start fin opts) r batch)"
  using assms
proof (induction batch arbitrary: M r)
  case (Cons e batch)
  show ?case
  proof (cases "entry_starts_within_range e start fin")
    case True
    have rest: "0 \<le> (\<Sum>x \<in># mset (in_range start fin batch). entry_seconds x)"
      using Cons.prems(2) True by (intro seconds_sum_nonneg) (auto simp: in_range_def)
    have "aggregates loc (add_mset e M) (aggregate_entry clock loc start fin opts r e)"
      by (rule aggregate_entry_step [OF Cons.prems(1) True])
        (use Cons.prems(2,3) True rest in \<open>auto simp: in_range_def\<close>)
    from Cons.IH [OF this] Cons.prems(2,3) True show ?thesis by (simp add: in_range_def)
  next
    case False
    with Cons show ?thesis by (simp add: in_range_def aggregate_entry_def)
  qed
qed (simp add: in_range_def)

lemma aggregate_entry_frame:
  "ag_page_size (foldl (aggregate_entry clock loc start fin opts) r batch) = ag_page_size r \<and>
   ag_pages (foldl (aggregate_entry clock loc start fin opts) r batch) = ag_pages r"
  by (induction batch arbitrary: r) (simp_all add: aggregate_entry_def Let_def)

text \<open>Pages that are all full but the last, within the entry cap when entries are kept.\<close>

definition paged :: "int \<Rightarrow> 'a list list \<Rightarrow> bool" where
  "paged n pages \<longleftrightarrow>
     pages \<noteq> [] \<and> (\<forall>p \<in> set (butlast pages). n \<le> int (length p)) \<and> int (length (last pages)) < n"

definition under_cap :: "aggregate_options \<Rightarrow> int \<Rightarrow> bool" where
  "under_cap opts n \<longleftrightarrow> \<not> (ao_include_entries opts \<and> ao_max_entries opts > 0 \<and> n > ao_max_entries opts)"

lemma aggregate_pages_walk:
  assumes "paged (ag_page_size r) pages" and "length pages \<le> left"
    and "\<And>i. i < length pages \<Longrightarrow> get (page + i) = Inr (pages ! i)"
    and "aggregates loc M r"
    and "\<forall>x \<in># M + mset (in_range start fin (concat pages)). settled x"
    and "(\<Sum>x \<in># M + mset (in_range start fin (concat pages)). entry_seconds x) \<le> max_int64"
    and "under_cap opts (int (size (M + mset (in_range start fin (concat pages)))))"
  shows "\<exists>r'. aggregate_pages get clock loc start fin opts left page r = Inr r' \<and>
           aggregates loc (M + mset (in_range start fin (concat pages))) r' \<and>
           ag_pages r' = ag_pages r + int (length pages)"
  using assms
proof (induction pages arbitrary: left page M r)
  case Nil
  then show ?case by (simp add: paged_def)
next
  case (Cons batch pages)
  obtain left' where left: "left = Suc left'" using Cons.prems(2) by (cases left) auto
  have get: "get page = Inr batch" using Cons.prems(3) [of 0] by simp
  let ?r = "foldl (aggregate_entry clock loc start fin opts) (r\<lparr>ag_pages := ag_pages r + 1\<rparr>) batch"
  let ?M = "M + mset (in_range start fin batch)"
  let ?rest = "mset (in_range start fin (concat pages))"
  have all: "M + mset (in_range start fin (concat (batch # pages))) = ?M + ?rest"
    by simp
  have rest: "0 \<le> (\<Sum>x \<in># ?rest. entry_seconds x)"
    using Cons.prems(5) by (intro seconds_sum_nonneg) auto
  have settled: "\<forall>x \<in># ?M. settled x" using Cons.prems(5) by auto
  have "(\<Sum>x \<in># ?M. entry_seconds x) \<le> max_int64" using Cons.prems(6) rest unfolding all by simp
  from aggregate_batch [OF _ settled this, of loc "r\<lparr>ag_pages := ag_pages r + 1\<rparr>"]
  have agg: "aggregates loc ?M ?r" using Cons.prems(4) by (simp add: aggregates_def)
  then have count: "ag_count ?r = int (size ?M)" by (simp add: aggregates_def)
  have frame: "ag_page_size ?r = ag_page_size r" "ag_pages ?r = ag_pages r + 1"
    by (simp_all add: aggregate_entry_frame)
  have cap: "under_cap opts (ag_count ?r)"
    using Cons.prems(7) unfolding all count by (auto simp: under_cap_def)
  show ?case
  proof (cases "pages = []")
    case True
    with Cons.prems(1) have "int (length batch) < ag_page_size ?r" by (simp add: paged_def frame)
    with True left get cap agg frame show ?thesis
      by (simp add: Let_def under_cap_def in_range_def)
  next
    case False
    with Cons.prems(1) have pg: "paged (ag_page_size ?r) pages" and full: "\<not> int (length batch) < ag_page_size ?r"
      by (simp_all add: paged_def frame)
    have "\<exists>r'. aggregate_pages get clock loc start fin opts left' (page + 1) ?r = Inr r' \<and>
           aggregates loc (?M + ?rest) r' \<and> ag_pages r' = ag_pages ?r + int (length pages)"
    proof (rule Cons.IH [OF pg _ _ agg])
      show "length pages \<le> left'" using Cons.prems(2) left by simp
      show "get (page + 1 + i) = Inr (pages ! i)" if "i < length pages" for i
        using Cons.prems(3) [of "Suc i"] that by simp
    qed (use Cons.prems(5-7) in \<open>simp_all add: ac_simps Un_assoc\<close>)
    with left get cap full frame show ?thesis
      by (simp add: Let_def under_cap_def add.assoc)
  qed
qed

text \<open>Naming the buckets keeps what is counted in them.\<close>

lemma rows_match_same:
  assumes m: "rows_match fst val al t" and f: "\<And>kb. val kb = f (snd kb)"
    and b: "map_of al k = Some b" "f b' = f b"
  shows "rows_match fst val (AList.update k b' al) t"
proof -
  have "map_option f (map_of al k) = t k" using m unfolding rows_match_alist [of val f, OF f] by blast
  then have "t k = Some (f b)" using b(1) by simp
  then have "t(k := Some (f b')) = t" using b(2) by auto
  with rows_match_update [of val f, OF f m, of k b'] show ?thesis by simp
qed

lemma name_bucket_keeps:
  assumes "rows_match fst bucket_row buckets t" and "\<forall>(k, b) \<in> set buckets. pb_id b = k"
  shows "rows_match fst bucket_row (name_bucket show_v m buckets p) t \<and>
         (\<forall>(k, b) \<in> set (name_bucket show_v m buckets p). pb_id b = k)"
proof -
  have "rows_match fst bucket_row (AList.update k b' buckets) t \<and> (\<forall>(j, x) \<in> set (AList.update k b' buckets). pb_id x = j)"
    if "map_of buckets k = Some b" "pb_id b' = pb_id b" "pb_entries b' = pb_entries b" "pb_seconds b' = pb_seconds b" for k b b'
    using rows_match_same [OF assms(1), of "\<lambda>b. (pb_entries b, pb_seconds b, hours (pb_seconds b))" k b b'] that assms(2)
    by (auto simp: bucket_row_def dest!: in_update map_of_SomeD)
  note same = this
  show ?thesis
  proof (cases "map_of m (trim_space (lp_id p))")
    case None
    with assms show ?thesis by (simp add: name_bucket_def)
  next
    case (Some k)
    show ?thesis
    proof (cases "map_of buckets k")
      case None
      with Some assms show ?thesis by (simp add: name_bucket_def)
    next
      case bucket: (Some b)
      let ?ref = "project_client_ref show_v p"
      let ?b = "b\<lparr>pb_name := first_non_empty_string [trim_space (lp_name p), pb_name b],
          pb_client_id := first_non_empty_string [pb_client_id b, fst ?ref],
          pb_client_name := first_non_empty_string [pb_client_name b, snd ?ref]\<rparr>"
      from same [OF bucket, of ?b] Some bucket show ?thesis
        by (simp add: name_bucket_def case_prod_beta)
    qed
  qed
qed

lemma name_buckets_keep:
  assumes "rows_match fst bucket_row buckets t" and "\<forall>(k, b) \<in> set buckets. pb_id b = k"
  shows "rows_match fst bucket_row (foldl (name_bucket show_v m) buckets ps) t \<and>
         (\<forall>(k, b) \<in> set (foldl (name_bucket show_v m) buckets ps). pb_id b = k)"
  using assms
proof (induction ps arbitrary: buckets)
  case (Cons p ps)
  note step = name_bucket_keeps [OF Cons.prems, of show_v m p]
  from Cons.IH [OF conjunct1 [OF step] conjunct2 [OF step]] show ?case by simp
qed simp

lemma resolve_names_keeps:
  assumes "aggregates loc M r"
  shows "aggregates loc M (resolve_aggregate_project_buckets show_v projects r)"
proof -
  have same: "aggregates loc M (r\<lparr>ag_by_project := foldl (name_bucket show_v m) (ag_by_project r) ps\<rparr>)" for m ps
    using assms name_buckets_keep [of "ag_by_project r" "table re_project M" show_v m ps]
    by (simp add: aggregates_def)
  show ?thesis
    using assms same by (simp add: resolve_aggregate_project_buckets_def Let_def split: option.split)
qed

definition weekly_of_aggregate :: "string \<Rightarrow> string \<Rightarrow> aggregate \<Rightarrow> weekly_summary" where
  "weekly_of_aggregate start_text end_text r =
     \<lparr>ws_start = start_text, ws_end = end_text, ws_totals = totals_from_agg r,
      ws_by_day = day_summaries_from_agg r, ws_by_project = project_summaries_from_agg r\<rparr>"

lemma aggregate_summary:
  assumes "aggregates loc M r"
  shows "summarises loc M (weekly_of_aggregate a b r)"
proof -
  have "rows_match (ps_id \<circ> (\<lambda>(_, b). project_summary_of b)) (project_row \<circ> (\<lambda>(_, b). project_summary_of b))
      (ag_by_project r) (table re_project M)"
    by (rule rows_match_cong [THEN iffD2, of _ _ fst _ bucket_row])
      (use assms in \<open>auto simp: aggregates_def project_summary_of_def project_row_def bucket_row_def\<close>)
  then have "rows_match ps_id project_row (project_summaries_from_agg r) (table re_project M)"
    unfolding project_summaries_from_agg_def sort_project_summaries_def
    by (intro rows_match_sort) (simp add: rows_match_map)
  moreover
  let ?g = "\<lambda>(date, b). \<lparr>ds_date = date, ds_entries = db_entries b, ds_seconds = db_seconds b, ds_hours = hours (db_seconds b)\<rparr>"
  have "rows_match (ds_date \<circ> ?g) (day_row \<circ> ?g) (ag_by_day r) (table (entry_day loc) M)"
    by (rule rows_match_cong [THEN iffD2, of _ _ fst _ day_bucket_row])
      (use assms in \<open>auto simp: aggregates_def day_row_def day_bucket_row_def\<close>)
  then have "rows_match ds_date day_row (day_summaries_from_agg r) (table (entry_day loc) M)"
    unfolding day_summaries_from_agg_def sort_day_summaries_def
    by (intro rows_match_sort) (simp add: rows_match_map)
  ultimately show ?thesis
    using assms by (simp add: summarises_def weekly_of_aggregate_def aggregates_def totals_from_agg_def)
qed

text \<open>C33 (a report counts every entry of its range once): if the server answers with at most 1000 pages,
  all full but the last, and the entries of the range are finished and within the entry cap and an
  \<open>int64\<close> of seconds, then the streaming aggregation succeeds after reading exactly those pages,
  and its totals, project rows and day rows are those of the in-range entries of all pages, whether
  or not missing project names are looked up.\<close>

theorem aggregation_counts_range:
  assumes "paged (clamp_page_size (ao_page_size opts)) pages" and "length pages \<le> 1000"
    and "\<And>i. i < length pages \<Longrightarrow> get (1 + i) = Inr (pages ! i)"
    and "es = in_range start fin (concat pages)"
    and "list_all settled es" and "sum_list (map entry_seconds es) \<le> max_int64"
    and "under_cap opts (int (length es))"
  shows "\<exists>r. aggregate_entries_range show_v projects names get clock (Some loc) start fin opts = Inr r \<and>
           summarises loc (mset es) (weekly_of_aggregate a b r) \<and> ag_pages r = int (length pages)"
proof -
  have init: "aggregates loc {#} (new_aggregate opts)"
    by (simp add: aggregates_def new_aggregate_def Let_def rows_match_def table_def fun_eq_iff)
  have size: "ag_page_size (new_aggregate opts) = clamp_page_size (ao_page_size opts)"
    "ag_pages (new_aggregate opts) = 0"
    by (simp_all add: new_aggregate_def Let_def)
  obtain r where r: "aggregate_pages get clock loc start fin opts aggregate_page_safety_stop 1 (new_aggregate opts) = Inr r"
      "aggregates loc (mset es) r" "ag_pages r = int (length pages)"
    using aggregate_pages_walk [of "new_aggregate opts" pages aggregate_page_safety_stop get 1 loc "{#}" start fin opts clock]
      assms init size
    by (auto simp: aggregate_page_safety_stop_def list_all_iff sum_mset_sum_list simp flip: mset_map)
  have "ag_pages (resolve_aggregate_project_buckets show_v projects r) = ag_pages r"
    by (simp add: resolve_aggregate_project_buckets_def Let_def split: option.split)
  with r show ?thesis
    using aggregate_summary resolve_names_keeps [OF r(2)]
    by (auto simp: aggregate_entries_range_def)
qed

section \<open>Examples\<close>

definition demo_entry :: "string \<Rightarrow> string \<Rightarrow> string \<Rightarrow> report_entry" where
  "demo_entry project start fin =
     \<lparr>te_hourly = None, te_cost = None, te_user = [], te_start = start, te_end = fin,
      re_id = [], re_project = project, re_project_name = [], re_description = [], re_type = []\<rparr>"

abbreviation "morning \<equiv> demo_entry ''p1'' ''2026-05-18T08:00:00Z'' ''2026-05-18T09:00:00Z''"
abbreviation "evening \<equiv> demo_entry ''p2'' ''2026-05-18T18:00:00Z'' ''2026-05-18T18:30:00Z''"

lemma demo_times:
  "start_time morning = Some (1779091200 * second)" "end_time morning = Some (1779094800 * second)"
  "start_time evening = Some (1779127200 * second)" "end_time evening = Some (1779129000 * second)"
  by code_simp+

lemma demo_settled: "settled morning" "settled evening"
  by (simp_all add: settled_def demo_times) (simp_all add: zero_time_def second_def)

lemma demo_seconds: "entry_seconds morning \<le> 9223372040" "entry_seconds evening \<le> 9223372040"
  using span_seconds_bounds by (simp_all add: entry_seconds_def demo_times second_def)

definition demo_options :: aggregate_options where
  "demo_options = \<lparr>ao_page_size = 0, ao_include_entries = False, ao_max_entries = 0, ao_sample_entries = 0,
     ao_collect_running = False, ao_project = []\<rparr>"


theorem aggregation_counts_range_witness:
  "\<exists>r. aggregate_entries_range (\<lambda>_. []) None False (\<lambda>_. Inr [morning, evening] :: (unit, _) result) (\<lambda>_. 0)
         (Some utc_location) 0 (1779129000 * second) demo_options = Inr r \<and>
       summarises utc_location {#morning, evening#} (weekly_of_aggregate [] [] r) \<and> ag_pages r = 1"
proof -
  have range: "in_range 0 (1779129000 * second) [morning, evening] = [morning, evening]"
    by (simp add: in_range_def entry_starts_within_range_def demo_times second_def)
  show ?thesis
    using aggregation_counts_range [of demo_options "[[morning, evening]]"
        "\<lambda>_. Inr [morning, evening] :: (unit, _) result" "[morning, evening]" 0 "1779129000 * second"
        "\<lambda>_. []" None False "\<lambda>_. 0" utc_location "[]" "[]"]
      demo_settled demo_seconds
    by (simp add: paged_def clamp_page_size_def demo_options_def range under_cap_def max_int64_def add_mset_commute)
qed

end
