(* ===== verification/WeeklyEmit.thy ===== *)
theory WeeklyEmit
  imports WeeklyReport
begin

text \<open>
  What a changed time entry publishes for the weekly reports it belongs to (\<open>resources.go\<close>), and the
  suggestions attached to a report (\<open>reports.go\<close>). \<open>decode_weekly\<close> and \<open>encode_weekly\<close> are
  \<open>json.Unmarshal\<close> into and \<open>json.Marshal\<close> of a \<open>WeeklySummaryData\<close>.
\<close>

section \<open>Suggestions\<close>

record tool_suggestion =
  ts_tool :: string
  ts_reason :: string
  ts_arguments :: members
  ts_missing :: "string list"

definition report_project_suggestion_ref :: "project_summary \<Rightarrow> string" where
  "report_project_suggestion_ref p =
     (if trim_space (ps_id p) \<noteq> [] then ps_id p
      else (let name = trim_space (ps_name p) in if name = [] \<or> name = no_project then [] else name))"

definition report_project_suggestion_label :: "project_summary \<Rightarrow> string" where
  "report_project_suggestion_label p =
     (let name = trim_space (ps_name p) in if name = [] then ''the top project'' else name)"

definition report_suggested_actions ::
  "project_summary list \<Rightarrow> summary_totals \<Rightarrow> string \<Rightarrow> string \<Rightarrow> tool_suggestion list" where
  "report_suggested_actions projects totals start_text end_text =
     (case projects of
        [] \<Rightarrow> []
      | busiest # _ \<Rightarrow>
          [\<lparr>ts_tool = ''clockify_entries_list'',
            ts_reason = ''Drill into '' @ report_project_suggestion_label busiest @ '' entries for this report range.'',
            ts_arguments =
              [(''start'', JStr start_text), (''end'', JStr end_text), (''page_size'', JInt 50)] @
              (let ref = report_project_suggestion_ref busiest in if ref = [] then [] else [(''project'', JStr ref)]),
            ts_missing = []\<rparr>]) @
     [\<lparr>ts_tool = ''clockify_log_work'',
       ts_reason =
         (if st_entries totals = 0
          then ''This report found no entries; log confirmed missing work after collecting the exact project, description, start, and end.''
          else ''Log additional confirmed work in this report range after collecting the exact project, description, start, and end.''),
       ts_arguments = [(''dry_run'', JBool True)],
       ts_missing = [''project'', ''description'', ''start'', ''end'']\<rparr>]"

text \<open>A parsed RFC 3339 time formatted again keeps its offset.\<close>

definition rfc3339_offset :: "string \<Rightarrow> int" where
  "rfc3339_offset s =
     (let zone = (if last s = CHR ''Z'' then [CHR ''Z''] else drop (length s - 6) s)
      in case parse_offset zone of None \<Rightarrow> 0 | Some (off, _) \<Rightarrow> off)"

definition format_with_offset :: "int \<Rightarrow> instant \<Rightarrow> string" where
  "format_with_offset off t =
     (if off = 0 then format_rfc3339 t
      else butlast (format_rfc3339 (t + off * second)) @ (if off < 0 then ''-'' else ''+'') @
           pad_dec 2 (\<bar>off\<bar> div 3600) @ '':'' @ pad_dec 2 (\<bar>off\<bar> div 60 mod 60))"

definition reformat_rfc3339 :: "string \<Rightarrow> string option" where
  "reformat_rfc3339 s = map_option (format_with_offset (rfc3339_offset s)) (parse_rfc3339 s)"

section \<open>Emission\<close>

type_synonym weekly_document = "weekly_summary \<times> tool_suggestion list"

text \<open>\<open>emitWeeklyReportDeltaFromCache\<close>: whether the URI is dealt with, the cache, the delta.\<close>

definition emit_weekly_report_delta_from_cache ::
  "bool \<Rightarrow> (string \<Rightarrow> bool) option \<Rightarrow> (bytes \<Rightarrow> json option) \<Rightarrow> (json \<Rightarrow> bytes) \<Rightarrow> (bytes \<Rightarrow> bytes option) \<Rightarrow>
   (bytes \<Rightarrow> weekly_summary option) \<Rightarrow> (weekly_document \<Rightarrow> bytes option) \<Rightarrow>
   lru \<Rightarrow> string \<Rightarrow> report_entry option \<Rightarrow> report_entry option \<Rightarrow> location \<Rightarrow> bool \<times> lru \<times> update_delta option" where
  "emit_weekly_report_delta_from_cache wired gate dec enc cmpct decode_weekly encode_weekly cache uri before after loc =
     (if \<not> wired \<or> uri = [] then (True, cache, None)
      else if \<not> weekly_report_delta_eligible uri before after (Some loc) then (False, cache, None)
      else (case lru_get cache uri of
              (None, cache1) \<Rightarrow> (False, cache1, None)
            | (Some prev, cache1) \<Rightarrow>
                (case Option.bind (decode_weekly prev) (\<lambda>data. weekly_delta loc data before after) of
                   None \<Rightarrow> (False, cache1, None)
                 | Some data \<Rightarrow>
                     (case (reformat_rfc3339 (ws_start data), reformat_rfc3339 (ws_end data)) of
                        (Some start, Some fin) \<Rightarrow>
                          (True, emit_resource_update_with_state wired gate dec enc cmpct cache1 uri
                             (encode_weekly (data, report_suggested_actions (ws_by_project data) (ws_totals data) start fin)))
                      | _ \<Rightarrow> (False, cache1, None)))))"

text \<open>The URIs of both versions of the entry, sorted and without repetition.\<close>

definition changed_week_uris :: "string \<Rightarrow> report_entry option \<Rightarrow> report_entry option \<Rightarrow> location \<Rightarrow> string list" where
  "changed_week_uris ws before after loc =
     (let uris = (\<lambda>e. weekly_report_uris_for_entry ws (te_start e) (te_end e) (Some loc))
      in sort (remdups ((case before of None \<Rightarrow> [] | Some b \<Rightarrow> uris b) @ (case after of None \<Rightarrow> [] | Some a \<Rightarrow> uris a))))"

definition emit_weekly_reports_for_entry_change ::
  "bool \<Rightarrow> (string \<Rightarrow> bool) option \<Rightarrow> (bytes \<Rightarrow> json option) \<Rightarrow> (json \<Rightarrow> bytes) \<Rightarrow> (bytes \<Rightarrow> bytes option) \<Rightarrow>
   (bytes \<Rightarrow> weekly_summary option) \<Rightarrow> (weekly_document \<Rightarrow> bytes option) \<Rightarrow>
   (string \<Rightarrow> ('e, resource_contents list) result) \<Rightarrow> location option \<Rightarrow>
   lru \<Rightarrow> string \<Rightarrow> report_entry option \<Rightarrow> report_entry option \<Rightarrow> lru \<times> (string \<times> update_delta) list" where
  "emit_weekly_reports_for_entry_change wired gate dec enc cmpct decode_weekly encode_weekly read_resource loc0
       cache ws before after =
     (let loc = (case loc0 of None \<Rightarrow> utc_location | Some l \<Rightarrow> l) in
      foldl (\<lambda>(c, sent) uri.
          case emit_weekly_report_delta_from_cache wired gate dec enc cmpct decode_weekly encode_weekly c uri before after loc of
            (True, c', delta) \<Rightarrow> (c', sent @ map (Pair uri) (case delta of None \<Rightarrow> [] | Some d \<Rightarrow> [d]))
          | (False, c', _) \<Rightarrow>
              (case emit_resource_update wired gate read_resource dec enc cmpct c' uri of
                 (c'', delta) \<Rightarrow> (c'', sent @ map (Pair uri) (case delta of None \<Rightarrow> [] | Some d \<Rightarrow> [d]))))
        (cache, []) (changed_week_uris ws before after loc))"

section \<open>Weeks in UTC\<close>

lemma civil_day_utc: "date_in utc_location y m d 0 0 0 0 = days_of_date y m d * 86400 * second"
  by (simp add: date_in_utc civil_seconds_def)

lemma div_bounds: "0 < m \<Longrightarrow> (t div m) * m \<le> t \<and> t < (t div m + 1) * m" for t m :: int
  using minus_mod_eq_div_mult [of t m] pos_mod_bound [of m t] pos_mod_sign [of m t]
  unfolding distrib_right by linarith

lemma week_offset:
  fixes x :: int
  shows "(if (x + 4) mod 7 = 0 then 7 else (x + 4) mod 7) - 1 = (x + 3) mod 7"
    and "(x - (x + 3) mod 7 + 4) mod 7 = 1"
proof -
  have step: "(x + a) mod 7 = (x mod 7 + a) mod 7" for a by (simp add: mod_add_left_eq)
  have "0 \<le> x mod 7" "x mod 7 < 7" by simp_all
  then consider "x mod 7 = 0" | "x mod 7 = 1" | "x mod 7 = 2" | "x mod 7 = 3" | "x mod 7 = 4" | "x mod 7 = 5" | "x mod 7 = 6"
    by linarith
  then have "(if (x + 4) mod 7 = 0 then 7 else (x + 4) mod 7) - 1 = (x + 3) mod 7 \<and>
      (x mod 7 - (x + 3) mod 7 + 4) mod 7 = 1"
    by cases (simp_all only: step [of 4] step [of 3], simp_all)
  then show "(if (x + 4) mod 7 = 0 then 7 else (x + 4) mod 7) - 1 = (x + 3) mod 7"
    and "(x - (x + 3) mod 7 + 4) mod 7 = 1"
    using mod_add_left_eq [of x 7 "4 - (x + 3) mod 7"] mod_add_left_eq [of "x mod 7" 7 "4 - (x + 3) mod 7"]
    by (simp_all add: algebra_simps)
qed

text \<open>ISO weeks: in UTC the week start of an instant is a Monday at midnight, and the instant lies
  in the seven days that follow.\<close>

lemma iso_week_start_utc:
  "let w = iso_week_start None t
   in weekday utc_location w = 1 \<and> w mod (86400 * second) = 0 \<and> w \<le> t \<and> t < w + 7 * 86400 * second"
proof -
  define day where "day = t div second div 86400"
  obtain y m d where c: "civil_of_days day = (y, m, d)" by (metis prod_cases3)
  then have days: "days_of_date y m d = day" using civil_of_days_correct by blast
  define k where "k = (day + 3) mod 7"
  have k: "0 \<le> k" "k < 7" by (simp_all add: k_def)
  have wd: "weekday utc_location t = (day + 4) mod 7"
    by (simp add: weekday_def local_seconds_utc day_def)
  have monday: "(if weekday utc_location t = 0 then 7 else weekday utc_location t) - 1 = k"
    unfolding wd k_def by (rule week_offset(1))
  have w: "iso_week_start None t = (day - k) * (86400 * second)"
    unfolding iso_week_start_def Let_def option.case monday civil_date_def local_seconds_utc day_def [symmetric] c prod.case
      add_days_utc civil_day_utc days by (simp add: algebra_simps)
  have in_day: "day * (86400 * second) \<le> t \<and> t < (day + 1) * (86400 * second)"
  proof -
    have "day = t div (86400 * second)" unfolding day_def by (simp add: zdiv_zmult2_eq second_def)
    moreover have "0 < 86400 * second" by (simp add: second_def)
    ultimately show ?thesis using div_bounds by blast
  qed
  have "weekday utc_location (iso_week_start None t) = 1"
  proof -
    have "iso_week_start None t div second div 86400 = day - k"
      unfolding w by (simp add: second_def flip: zdiv_zmult2_eq)
    moreover have "(day - k + 4) mod 7 = 1" unfolding k_def by (rule week_offset(2))
    ultimately show ?thesis by (simp add: weekday_def local_seconds_utc)
  qed
  moreover have "iso_week_start None t \<le> t \<and> t < iso_week_start None t + 7 * 86400 * second"
    using in_day k unfolding w by (simp add: second_def algebra_simps)
  moreover have "iso_week_start None t mod (86400 * second) = 0" unfolding w by simp
  ultimately show ?thesis by (simp add: Let_def)
qed

text \<open>An entry the incremental path accepts has both its ends, in order.\<close>

lemma week_entry_settled: "entry_delta_belongs_only_to_week e week loc \<Longrightarrow> settled e"
  by (auto simp: entry_delta_belongs_only_to_week_def settled_def split: option.splits if_splits)

end
