(* ===== verification/Pagination.thy ===== *)
theory Pagination
  imports Money
begin

text \<open>
  Numeric tool arguments (\<open>internal/tools/common.go\<close>) and \<open>helpers_pagination.go\<close>: the page arguments,
  the two server-side scans behind \<open>auto_paginate\<close>, and the metadata and schema they add. \<open>list\<close> and
  \<open>handler\<close> are the per-page functions of a tool; a nil map is the empty one. \<open>reflect\<close> on the data
  of a tool result is the choice between a slice and anything else.
\<close>

section \<open>Arguments\<close>

definition number_from_any :: "json \<Rightarrow> rat option" where
  "number_from_any v =
     (case v of
        JNum s \<Rightarrow> parse_float64 s
      | JFlt f \<Rightarrow> Some f
      | JInt n \<Rightarrow> Some (fl64 (of_int n))
      | _ \<Rightarrow> None)"

definition int_arg :: "members \<Rightarrow> string \<Rightarrow> int \<Rightarrow> int" where
  "int_arg args key fallback =
     (case map_of args key of
        None \<Rightarrow> fallback
      | Some v \<Rightarrow>
          (case number_from_any v of
             None \<Rightarrow> fallback
           | Some f \<Rightarrow> if f < - (2 ^ 63) \<or> f > 2 ^ 63 then fallback else int64_of_float f))"

definition copy_args :: "members \<Rightarrow> members" where
  "copy_args args = foldl (\<lambda>out (k, v). AList.update k v out) [] args"

definition pagination_from_args :: "members \<Rightarrow> int \<times> int" where
  "pagination_from_args args =
     (let page = max (int_arg args ''page'' 1) 1;
          n = int_arg args ''page_size'' 50;
          n1 = (if n < 1 then 50 else n)
      in (page, if n1 > 200 then 200 else n1))"

definition auto_paginate_arg :: "members \<Rightarrow> bool" where
  "auto_paginate_arg args = (case map_of args ''auto_paginate'' of Some (JBool b) \<Rightarrow> b | _ \<Rightarrow> False)"

definition max_rows_arg :: "members \<Rightarrow> int" where
  "max_rows_arg args =
     (let n = int_arg args ''max_rows'' 5000 in if n \<le> 0 then 5000 else if n > 50000 then 50000 else n)"

text \<open>The arguments of one request of a scan.\<close>

definition scan_args :: "members \<Rightarrow> nat \<Rightarrow> members" where
  "scan_args args page =
     AList.update ''page'' (JFlt (of_nat page))
       (AList.delete ''max_rows''
         (AList.delete ''auto_paginate''
           (AList.update ''page_size'' (JFlt 200) (copy_args args))))"

definition list_all_safety_stop_pages :: nat where
  "list_all_safety_stop_pages = 1000"

section \<open>Scanning a list helper\<close>

type_synonym ('e, 'a) list_page_func = "members \<Rightarrow> ('e, 'a list \<times> int \<times> int) result"

text \<open>\<open>left\<close> pages may still be asked for; the result is the rows and the truncated flag.\<close>

fun scan_list ::
  "('e, 'a) list_page_func \<Rightarrow> members \<Rightarrow> int \<Rightarrow> nat \<Rightarrow> nat \<Rightarrow> 'a list \<Rightarrow> ('e, 'a list \<times> bool) result" where
  "scan_list list args max_rows 0 page acc = Inr (acc, True)"
| "scan_list list args max_rows (Suc left) page acc =
     (case list (scan_args args page) of
        Inl e \<Rightarrow> Inl e
      | Inr (batch, _, batch_page_size) \<Rightarrow>
          (let rows = acc @ batch in
           if int (length rows) \<ge> max_rows
           then Inr (if int (length rows) > max_rows then take (nat max_rows) rows else rows, True)
           else if batch_page_size = 0 \<or> int (length batch) < batch_page_size then Inr (rows, False)
           else scan_list list args max_rows left (Suc page) rows))"

record 'a listing =
  li_items :: "'a list"
  li_page :: int
  li_page_size :: int
  li_auto :: bool
  li_truncated :: bool

definition run_list_with_auto_paginate :: "members \<Rightarrow> ('e, 'a) list_page_func \<Rightarrow> ('e, 'a listing) result" where
  "run_list_with_auto_paginate args list =
     (let (requested_page, requested_size) = pagination_from_args args in
      if \<not> auto_paginate_arg args
      then bind_result (list args) (\<lambda>(items, page, size1).
             Inr \<lparr>li_items = items, li_page = (if page = 0 then requested_page else page),
                  li_page_size = (if size1 = 0 then requested_size else size1),
                  li_auto = False, li_truncated = False\<rparr>)
      else bind_result (scan_list list args (max_rows_arg args) list_all_safety_stop_pages 1 [])
             (\<lambda>(items, truncated).
               Inr \<lparr>li_items = items, li_page = requested_page, li_page_size = requested_size,
                    li_auto = True, li_truncated = truncated\<rparr>))"

section \<open>Scanning a tool handler\<close>

datatype ('a, 'd) tool_data = Slice "'a list" | OtherData 'd

record ('a, 'd, 'r) list_result =
  lr_action :: string
  lr_data :: "('a, 'd) tool_data"
  lr_meta :: members
  lr_rest :: 'r

type_synonym ('e, 'a, 'd, 'r) list_handler = "members \<Rightarrow> ('e, ('a, 'd, 'r) list_result) result"

fun slice_rows :: "('a, 'd) tool_data \<Rightarrow> 'a list" where
  "slice_rows (Slice xs) = xs"
| "slice_rows (OtherData _) = []"

fun is_slice :: "('a, 'd) tool_data \<Rightarrow> bool" where
  "is_slice (Slice _) = True"
| "is_slice (OtherData _) = False"

text \<open>The body of the loop once the slice of a page is known, and the pages after the first;
  \<open>acc\<close> are the rows so far.\<close>

definition merge_step ::
  "int \<Rightarrow> 'a list \<Rightarrow> ('a, 'd) tool_data \<Rightarrow> ('a list \<times> bool) + 'a list" where
  "merge_step max_rows acc batch =
     (let rows = acc @ slice_rows batch in
      if int (length rows) \<ge> max_rows
      then Inl (if int (length rows) > max_rows then take (nat max_rows) rows else rows, True)
      else if \<not> is_slice batch \<or> length (slice_rows batch) < 200 then Inl (rows, False)
      else Inr rows)"

fun scan_handler ::
  "('e, 'a, 'd, 'r) list_handler \<Rightarrow> members \<Rightarrow> int \<Rightarrow> nat \<Rightarrow> nat \<Rightarrow> 'a list \<Rightarrow>
   ('e, 'a list \<times> bool) result" where
  "scan_handler handler args max_rows 0 page acc = Inr (acc, True)"
| "scan_handler handler args max_rows (Suc left) page acc =
     (case handler (scan_args args page) of
        Inl e \<Rightarrow> Inl e
      | Inr partial \<Rightarrow>
          (case merge_step max_rows acc (lr_data partial) of
             Inl stop \<Rightarrow> Inr stop
           | Inr rows \<Rightarrow> scan_handler handler args max_rows left (Suc page) rows))"

definition run_auto_paginated_tool_result ::
  "members \<Rightarrow> ('e, 'a, 'd, 'r) list_handler \<Rightarrow> ('e, ('a, 'd, 'r) list_result \<times> bool \<times> bool) result" where
  "run_auto_paginated_tool_result args handler =
     (if \<not> auto_paginate_arg args then bind_result (handler args) (\<lambda>r. Inr (r, False, False))
      else (let max_rows = max_rows_arg args in
            case handler (scan_args args 1) of
              Inl e \<Rightarrow> Inl e
            | Inr first \<Rightarrow>
                (case lr_data first of
                   OtherData _ \<Rightarrow> Inr (first, True, False)
                 | Slice _ \<Rightarrow>
                     bind_result
                       (case merge_step max_rows [] (lr_data first) of
                          Inl stop \<Rightarrow> Inr stop
                        | Inr rows \<Rightarrow>
                            scan_handler handler args max_rows (list_all_safety_stop_pages - 1) 2 rows)
                       (\<lambda>(rows, truncated). Inr (first\<lparr>lr_data := Slice rows\<rparr>, True, truncated)))))"

section \<open>Metadata\<close>

definition add_auto_paginate_meta :: "members \<Rightarrow> bool \<Rightarrow> bool \<Rightarrow> int \<Rightarrow> members" where
  "add_auto_paginate_meta meta auto truncated max_rows =
     (if \<not> auto then meta
      else (let m = AList.update ''has_more'' (JBool False)
                      (AList.update ''max_rows'' (JInt max_rows)
                        (AList.update ''auto_paginate'' (JBool True) meta))
            in if truncated then AList.update ''truncated'' (JBool True) m else m))"

definition auto_paginated :: "('e, 'a, 'd, 'r) list_handler \<Rightarrow> ('e, 'a, 'd, 'r) list_handler" where
  "auto_paginated handler args =
     bind_result (run_auto_paginated_tool_result args handler) (\<lambda>(merged, auto, truncated).
       if \<not> auto then Inr merged
       else (let meta = add_auto_paginate_meta (lr_meta merged) True truncated (max_rows_arg args)
             in Inr (merged\<lparr>lr_meta :=
                  (case lr_data merged of
                     Slice rows \<Rightarrow> AList.update ''count'' (JInt (int (length rows))) meta
                   | OtherData _ \<Rightarrow> meta)\<rparr>)))"

definition report_int :: "json option \<Rightarrow> int option" where
  "report_int v = map_option int64_of_float (Option.bind v report_number)"

definition add_pagination_meta :: "members \<Rightarrow> members \<Rightarrow> int \<Rightarrow> int \<Rightarrow> members" where
  "add_pagination_meta meta0 args page page_size =
     (let meta1 = AList.update ''pageSize'' (JInt page_size) (AList.update ''page'' (JInt page) meta0);
          count = report_int (map_of meta1 ''count'');
          known = report_int (map_of meta1 ''total'');
          seen = (\<lambda>c. wrap64 (wrap64 (wrap64 (page - 1) * page_size) + c));
          meta2 = (case (known, count) of
                     (None, Some c) \<Rightarrow>
                       if c = page_size
                       then AList.update ''total_is_lower_bound'' (JBool True)
                              (AList.update ''total_min'' (JInt (seen c)) meta1)
                       else AList.update ''total'' (JInt (seen c)) meta1
                   | _ \<Rightarrow> meta1);
          meta3 = (case (map_of meta2 ''has_more'', count) of
                     (None, Some c) \<Rightarrow>
                       AList.update ''has_more''
                         (JBool (case known of Some t \<Rightarrow> wrap64 (page * page_size) < t | None \<Rightarrow> c = page_size)) meta2
                   | _ \<Rightarrow> meta2);
          requested = int_arg args ''page_size'' 50;
          pagination =
            [(''page'', JInt page), (''page_size'', JInt page_size), (''applied_page_size'', JInt page_size)] @
            (if map_of args ''page_size'' = None then []
             else (''requested_page_size'', JInt requested) #
                  (if requested \<noteq> page_size then [(''clamped'', JBool True)] else []))
      in AList.update ''pagination'' (JObj pagination) meta3)"

section \<open>Schemas\<close>

definition property_schema :: "string \<Rightarrow> string \<Rightarrow> json" where
  "property_schema typ0 description = JObj [(''type'', JStr typ0), (''description'', JStr description)]"

definition auto_paginate_schema :: json where
  "auto_paginate_schema = property_schema ''boolean''
     ''When true, walk every page server-side and return one consolidated result. Bounded by max_rows.''"

definition max_rows_schema :: json where
  "max_rows_schema = property_schema ''integer''
     ''Row cap for auto_paginate scans (default 5000, hard cap 50000).''"

definition pagination_schema :: "members \<Rightarrow> members" where
  "pagination_schema extras =
     (let props =
        [(''page'', property_schema ''integer'' ''Page number (default 1)''),
         (''page_size'', property_schema ''integer'' ''Items per page (default 50, max 200)''),
         (''auto_paginate'', auto_paginate_schema), (''max_rows'', max_rows_schema)];
          props1 = (case map_of extras ''properties'' of
                      Some (JObj extra) \<Rightarrow> foldl (\<lambda>m (k, v). AList.update k v m) props extra | _ \<Rightarrow> props)
      in [(''type'', JStr ''object''), (''properties'', JObj props1)] @
         (case map_of extras ''required'' of
            Some (JStrs req) \<Rightarrow> if req = [] then [] else [(''required'', JStrs req)] | _ \<Rightarrow> []))"

text \<open>The properties are mutated in place, so the schema holds the new ones.\<close>

definition inject_auto_paginate_schema_props :: "members \<Rightarrow> members" where
  "inject_auto_paginate_schema_props schema =
     (case map_of schema ''properties'' of
        Some (JObj props) \<Rightarrow>
          if map_of props ''page'' = None then schema
          else (let p1 = (if map_of props ''auto_paginate'' = None
                          then AList.update ''auto_paginate'' auto_paginate_schema props else props);
                    p2 = (if map_of p1 ''max_rows'' = None then AList.update ''max_rows'' max_rows_schema p1 else p1)
                in AList.update ''properties'' (JObj p2) schema)
      | _ \<Rightarrow> schema)"

section \<open>What one request of a scan asks for\<close>

lemma map_of_copy_onto:
  "distinct (map fst args) \<Longrightarrow> map_of (foldl (\<lambda>out (k, v). AList.update k v out) out args) = map_of out ++ map_of args"
proof (induction args arbitrary: out)
  case (Cons kv args)
  obtain k v where kv: "kv = (k, v)" by (cases kv)
  with Cons.prems have "k \<notin> dom (map_of args)" by (simp add: dom_map_of_conv_image_fst)
  then have "(map_of out)(k \<mapsto> v) ++ map_of args = (map_of out ++ map_of args)(k \<mapsto> v)"
    by (rule map_add_upd_left)
  with Cons.IH [of "AList.update k v out"] Cons.prems kv show ?case
    by (simp only: foldl.simps prod.case AList.update_conv' map_of.simps fst_conv snd_conv map_add_upd
        distinct.simps list.map)
qed simp

lemma map_of_copy: "distinct (map fst args) \<Longrightarrow> map_of (copy_args args) = map_of args"
  by (simp add: copy_args_def map_of_copy_onto)

text \<open>The other arguments, which carry the filters, reach every page unchanged.\<close>

lemma scan_args_filters:
  assumes "distinct (map fst args)" and "key \<notin> {''page'', ''page_size'', ''auto_paginate'', ''max_rows''}"
  shows "map_of (scan_args args page) key = map_of args key"
  using assms by (simp add: scan_args_def AList.update_conv' AList.delete_conv' map_of_copy)

lemma map_of_scan_args:
  "map_of (scan_args args page) ''page'' = Some (JFlt (of_nat page))"
  "map_of (scan_args args page) ''page_size'' = Some (JFlt 200)"
  "map_of (scan_args args page) ''auto_paginate'' = None"
  "map_of (scan_args args page) ''max_rows'' = None"
  by (simp_all add: scan_args_def AList.update_conv' AList.delete_conv')

lemma int_arg_flt:
  assumes "map_of args key = Some (JFlt (of_int n))" and "\<bar>n\<bar> < 2 ^ 62"
  shows "int_arg args key d = n"
proof -
  have "is_int64 n" using assms(2) by (auto simp: is_int64_def min_int64_def max_int64_def abs_less_iff)
  moreover have "\<not> (of_int n :: rat) < - (2 ^ 63)" "\<not> (of_int n :: rat) > 2 ^ 63"
  proof -
    have "(of_int (- (2 ^ 63)) :: rat) \<le> of_int n" "(of_int n :: rat) \<le> of_int (2 ^ 63)"
      using assms(2) unfolding of_int_le_iff by (simp_all add: abs_less_iff)
    then show "\<not> (of_int n :: rat) < - (2 ^ 63)" "\<not> (of_int n :: rat) > 2 ^ 63"
      by (simp_all add: not_less)
  qed
  ultimately show ?thesis
    using assms(1) by (simp add: int_arg_def number_from_any_def int64_of_float_of_int)
qed

text \<open>A scan asks for page \<open>k\<close> of 200 rows, whatever the caller's own page arguments were.\<close>

lemma scan_page:
  assumes "0 < k" and "k \<le> 1000"
  shows "pagination_from_args (scan_args args k) = (int k, 200)"
proof -
  have "int_arg (scan_args args k) ''page'' 1 = int k"
    by (rule int_arg_flt) (use assms in \<open>simp_all add: map_of_scan_args\<close>)
  moreover have "int_arg (scan_args args k) ''page_size'' 50 = 200"
    by (rule int_arg_flt) (simp_all add: map_of_scan_args)
  ultimately show ?thesis using assms by (simp add: pagination_from_args_def Let_def)
qed

lemma max_rows_bounds: "0 < max_rows_arg args \<and> max_rows_arg args \<le> 50000"
  by (simp add: max_rows_arg_def Let_def)

section \<open>A scan of a paged server\<close>

text \<open>A server with the given rows, which reads its page arguments as the list helpers do.\<close>

definition page_of :: "'a list \<Rightarrow> members \<Rightarrow> 'a list" where
  "page_of rows args =
     (case pagination_from_args args of (page, size1) \<Rightarrow> take (nat size1) (drop (nat ((page - 1) * size1)) rows))"

lemma page_of_scan:
  assumes "0 < k" and "k \<le> 1000"
  shows "page_of rows (scan_args args k) = take 200 (drop (200 * (k - 1)) rows)"
proof -
  have "nat ((int k - 1) * 200) = 200 * (k - 1)" using assms(1) by (simp add: nat_diff_distrib' of_nat_diff)
  then show ?thesis by (simp add: page_of_def scan_page [OF assms])
qed

text \<open>The rows after one more page, and what they say about the end of the scan.\<close>

lemma scan_progress:
  assumes k: "0 < k" "k \<le> 1000" and seen: "200 * (k - 1) \<le> length rows"
  shows "take (200 * (k - 1)) rows @ page_of rows (scan_args args k) = take (200 * k) rows"
    and "length (page_of rows (scan_args args k)) < 200 \<longleftrightarrow> length rows < 200 * k"
proof -
  have "200 * k = 200 * (k - 1) + 200" using k(1) by (cases k) simp_all
  then show "take (200 * (k - 1)) rows @ page_of rows (scan_args args k) = take (200 * k) rows"
    and "length (page_of rows (scan_args args k)) < 200 \<longleftrightarrow> length rows < 200 * k"
    using seen by (auto simp: page_of_scan [OF k] take_add)
qed

lemma scan_list_server:
  assumes "k + left = 1001" and "0 < k" and "200 * (k - 1) \<le> length rows" and "int (200 * (k - 1)) < max_rows"
    and max: "0 < max_rows" "max_rows \<le> 50000"
    and server: "\<And>j. j \<le> 1000 \<Longrightarrow> 0 < j \<Longrightarrow> list (scan_args args j) = Inr (page_of rows (scan_args args j), p j, 200)"
  shows "scan_list list args max_rows left k (take (200 * (k - 1)) rows) =
           Inr (take (nat max_rows) rows, max_rows \<le> int (length rows))"
  using assms(1-4)
proof (induction left arbitrary: k)
  case 0
  then show ?case using max by simp
next
  case (Suc left)
  then have k: "0 < k" "k \<le> 1000" by simp_all
  note step = scan_progress [OF k Suc.prems(3), of args]
  let ?rows = "take (200 * k) rows"
  have turn: "scan_list list args max_rows (Suc left) k (take (200 * (k - 1)) rows) =
      (if int (length ?rows) \<ge> max_rows
       then Inr (if int (length ?rows) > max_rows then take (nat max_rows) ?rows else ?rows, True)
       else if length rows < 200 * k then Inr (?rows, False)
       else scan_list list args max_rows left (Suc k) ?rows)"
    unfolding scan_list.simps server [OF k(2,1)] sum.case prod.case Let_def step(1) using step(2) by simp
  show ?case
  proof (cases "int (length ?rows) \<ge> max_rows")
    case True
    then have "max_rows \<le> int (length rows)" and "nat max_rows \<le> 200 * k" by auto
    then have cut: "take (nat max_rows) ?rows = take (nat max_rows) rows" by (simp add: min_absorb1)
    have "?rows = take (nat max_rows) ?rows" if "\<not> int (length ?rows) > max_rows"
    proof -
      have "length ?rows \<le> nat max_rows" using that by linarith
      then show ?thesis by (rule take_all [symmetric])
    qed
    with cut True \<open>max_rows \<le> int (length rows)\<close> show ?thesis unfolding turn by simp
  next
    case small: False
    show ?thesis
    proof (cases "length rows < 200 * k")
      case True
      with small show ?thesis unfolding turn by simp
    next
      case False
      with small have "int (200 * k) < max_rows" by simp
      with Suc.IH [of "Suc k"] Suc.prems(1) False small show ?thesis unfolding turn by simp
    qed
  qed
qed

text \<open>The other loop: one turn of it on such a server.\<close>

lemma merge_step_server:
  assumes k: "0 < k" "k \<le> 1000" and seen: "200 * (k - 1) \<le> length rows"
  shows "merge_step max_rows (take (200 * (k - 1)) rows) (Slice (page_of rows (scan_args args k))) =
      (if int (length (take (200 * k) rows)) \<ge> max_rows
       then Inl (take (nat max_rows) rows, True)
       else if length rows < 200 * k then Inl (rows, False)
       else Inr (take (200 * k) rows))"
proof -
  note step = scan_progress [OF k seen, of args]
  let ?rows = "take (200 * k) rows"
  have "(if int (length ?rows) > max_rows then take (nat max_rows) ?rows else ?rows) = take (nat max_rows) rows"
    if "int (length ?rows) \<ge> max_rows"
  proof -
    have "nat max_rows \<le> 200 * k" using that by auto
    then have cut: "take (nat max_rows) ?rows = take (nat max_rows) rows" by (simp add: min_absorb1)
    show ?thesis
    proof (cases "int (length ?rows) > max_rows")
      case True
      with cut show ?thesis by simp
    next
      case False
      then have "length ?rows \<le> nat max_rows" by linarith
      from take_all [OF this] cut False show ?thesis by simp
    qed
  qed
  then show ?thesis
    unfolding merge_step_def Let_def slice_rows.simps is_slice.simps step(1) using step(2) by simp
qed

lemma scan_handler_server:
  assumes "k + left = 1001" and "0 < k" and "200 * (k - 1) \<le> length rows" and "int (200 * (k - 1)) < max_rows"
    and max: "0 < max_rows" "max_rows \<le> 50000"
    and server: "\<And>j. j \<le> 1000 \<Longrightarrow> 0 < j \<Longrightarrow>
      \<exists>r. handler (scan_args args j) = Inr r \<and> lr_data r = Slice (page_of rows (scan_args args j))"
  shows "scan_handler handler args max_rows left k (take (200 * (k - 1)) rows) =
           Inr (take (nat max_rows) rows, max_rows \<le> int (length rows))"
  using assms(1-4)
proof (induction left arbitrary: k)
  case 0
  then show ?case using max by simp
next
  case (Suc left)
  then have k: "0 < k" "k \<le> 1000" by simp_all
  obtain r where r: "handler (scan_args args k) = Inr r" "lr_data r = Slice (page_of rows (scan_args args k))"
    using server [OF k(2,1)] by blast
  have turn: "merge_step max_rows (take (200 * (k - 1)) rows) (lr_data r) =
      (if int (length (take (200 * k) rows)) \<ge> max_rows then Inl (take (nat max_rows) rows, True)
       else if length rows < 200 * k then Inl (rows, False) else Inr (take (200 * k) rows))"
    unfolding r(2) by (rule merge_step_server [OF k Suc.prems(3)])
  consider (full) "int (length (take (200 * k) rows)) \<ge> max_rows"
    | (short) "\<not> int (length (take (200 * k) rows)) \<ge> max_rows" "length rows < 200 * k"
    | (more) "\<not> int (length (take (200 * k) rows)) \<ge> max_rows" "200 * k \<le> length rows"
    by linarith
  then show ?case
  proof cases
    case full
    then have "max_rows \<le> int (length rows)" by auto
    with full turn r show ?thesis by simp
  next
    case short
    with turn r show ?thesis by simp
  next
    case more
    with Suc.IH [of "Suc k"] Suc.prems(1) turn r show ?thesis by simp
  qed
qed

section \<open>Properties\<close>

text \<open>C36 (auto-pagination returns the first \<open>max_rows\<close> rows): with \<open>auto_paginate\<close> set, on any server that
  pages a list of rows as the list helpers do and whatever the caller's page and filter arguments,
  both scans return exactly the first \<open>max_rows\<close> rows in order (5000 by default, at most 50000); the
  list scan reports truncation, and the wrapped handler records it in its metadata, iff there are at
  least \<open>max_rows\<close> of them. The safety stop at 1000 pages never fires.\<close>

theorem auto_pagination_exact:
  assumes "auto_paginate_arg args"
    and "\<And>k. 0 < k \<Longrightarrow> k \<le> 1000 \<Longrightarrow>
           list (scan_args args k) = Inr (page_of rows (scan_args args k), p k, 200) \<and>
           handler (scan_args args k) = Inr (answer k\<lparr>lr_data := Slice (page_of rows (scan_args args k))\<rparr>)"
    and "wanted = take (nat (max_rows_arg args)) rows"
    and "truncated \<longleftrightarrow> max_rows_arg args \<le> int (length rows)"
  shows "run_list_with_auto_paginate args list =
           Inr \<lparr>li_items = wanted, li_page = fst (pagination_from_args args),
                li_page_size = snd (pagination_from_args args), li_auto = True, li_truncated = truncated\<rparr> \<and>
         (\<exists>r. auto_paginated handler args = Inr r \<and> lr_data r = Slice wanted \<and>
            map_of (lr_meta r) ''count'' = Some (JInt (int (length wanted))) \<and>
            map_of (lr_meta r) ''truncated'' =
              (if truncated then Some (JBool True) else map_of (lr_meta (answer 1)) ''truncated''))"
proof -
  let ?max = "max_rows_arg args"
  have max: "0 < ?max" "?max \<le> 50000" using max_rows_bounds by auto
  have "scan_list list args ?max list_all_safety_stop_pages 1 (take (200 * (1 - 1)) rows) =
      Inr (take (nat ?max) rows, ?max \<le> int (length rows))"
    by (rule scan_list_server [OF _ _ _ _ max]) (use assms(2) max in \<open>simp_all add: list_all_safety_stop_pages_def\<close>)
  with assms(1,3,4) have list: "run_list_with_auto_paginate args list =
      Inr \<lparr>li_items = wanted, li_page = fst (pagination_from_args args),
           li_page_size = snd (pagination_from_args args), li_auto = True, li_truncated = truncated\<rparr>"
    by (simp add: run_list_with_auto_paginate_def case_prod_beta)
  define first where "first = answer 1\<lparr>lr_data := Slice (page_of rows (scan_args args 1))\<rparr>"
  have handler1: "handler (scan_args args 1) = Inr first" using assms(2) [of 1] by (simp add: first_def)
  have turn: "merge_step ?max [] (lr_data first) =
      (if int (length (take 200 rows)) \<ge> ?max then Inl (take (nat ?max) rows, True)
       else if length rows < 200 then Inl (rows, False) else Inr (take 200 rows))"
  proof -
    have data: "lr_data first = Slice (page_of rows (scan_args args 1))" by (simp add: first_def)
    have "merge_step ?max (take (200 * (1 - 1)) rows) (lr_data first) =
      (if int (length (take (200 * 1) rows)) \<ge> ?max then Inl (take (nat ?max) rows, True)
       else if length rows < 200 * 1 then Inl (rows, False) else Inr (take (200 * 1) rows))"
      unfolding data by (rule merge_step_server) simp_all
    then show ?thesis by simp
  qed
  have rest: "scan_handler handler args ?max (list_all_safety_stop_pages - 1) 2 (take (200 * (2 - 1)) rows) =
      Inr (take (nat ?max) rows, ?max \<le> int (length rows))" if "200 \<le> length rows" "200 < ?max"
    by (rule scan_handler_server [OF _ _ _ _ max])
      (use assms(2) that in \<open>auto simp: list_all_safety_stop_pages_def\<close>)
  have "(case merge_step ?max [] (lr_data first) of
           Inl stop \<Rightarrow> Inr stop
         | Inr rows \<Rightarrow> scan_handler handler args ?max (list_all_safety_stop_pages - 1) 2 rows) =
        Inr (wanted, truncated)"
  proof (cases "int (length (take 200 rows)) \<ge> ?max")
    case True
    with assms(3,4) turn show ?thesis by simp
  next
    case small: False
    show ?thesis
    proof (cases "length rows < 200")
      case True
      with small turn assms(3,4) show ?thesis by simp
    next
      case False
      with small turn rest assms(3,4) show ?thesis by simp
    qed
  qed
  then have "run_auto_paginated_tool_result args handler = Inr (first\<lparr>lr_data := Slice wanted\<rparr>, True, truncated)"
    using assms(1) handler1
    by (simp add: run_auto_paginated_tool_result_def Let_def first_def)
  then have "\<exists>r. auto_paginated handler args = Inr r \<and> lr_data r = Slice wanted \<and>
      map_of (lr_meta r) ''count'' = Some (JInt (int (length wanted))) \<and>
      map_of (lr_meta r) ''truncated'' =
        (if truncated then Some (JBool True) else map_of (lr_meta (answer 1)) ''truncated'')"
    by (simp add: auto_paginated_def Let_def add_auto_paginate_meta_def AList.update_conv' first_def)
  with list show ?thesis by blast
qed

theorem auto_pagination_exact_witness:
  "\<exists>r. auto_paginated (\<lambda>a. Inr \<lparr>lr_action = ''list'', lr_data = Slice (page_of [1 :: nat ..< 6] a), lr_meta = [], lr_rest = ()\<rparr> ::
         (unit, (nat, unit, unit) list_result) result)
         [(''auto_paginate'', JBool True), (''max_rows'', JInt 3)] = Inr r \<and> lr_data r = Slice [1, 2, 3]"
proof -
  let ?args = "[(''auto_paginate'', JBool True), (''max_rows'', JInt 3)]"
  let ?answer = "\<lparr>lr_action = ''list'', lr_data = OtherData (), lr_meta = [], lr_rest = ()\<rparr> :: (nat, unit, unit) list_result"
  have "int_arg ?args ''max_rows'' 5000 = 3" by code_simp
  then have "max_rows_arg ?args = 3" by (simp add: max_rows_arg_def)
  then show ?thesis
    using auto_pagination_exact [of ?args "\<lambda>a. Inr (page_of [1 ..< 6] a, 0, 200) :: (unit, _) result" "[1 ..< 6]" "\<lambda>_. 0"
        "\<lambda>a. Inr (?answer\<lparr>lr_data := Slice (page_of [1 ..< 6] a)\<rparr>) :: (unit, _) result" "\<lambda>_. ?answer" "[1, 2, 3]" True]
    by (auto simp: auto_paginate_arg_def upt_rec)
qed

end
