(* ===== verification/GoNetip.thy ===== *)
theory GoNetip
  imports GoStrings "HOL-Library.Word"
begin

text \<open>
  The IP addresses of \<open>net/netip\<close> (and of \<open>net.ParseIP\<close>, which parses with it): parsing, the address
  classes, and prefixes. An IPv6 address carries its zone, the empty string when it has none; the
  zero \<open>Addr\<close>, which is not a valid address, is \<open>NoAddr\<close>.
\<close>

datatype ip_addr = NoAddr | V4 "32 word" | V6 "128 word" string

section \<open>Parsing\<close>

definition is_hex_char :: "char \<Rightarrow> bool" where
  "is_hex_char c \<longleftrightarrow>
     (let n = of_char c :: nat in (48 \<le> n \<and> n \<le> 57) \<or> (65 \<le> n \<and> n \<le> 70) \<or> (97 \<le> n \<and> n \<le> 102))"

definition hex_char_val :: "char \<Rightarrow> nat" where
  "hex_char_val c =
     (let n = of_char c :: nat in if n < 58 then n - 48 else if n < 71 then n - 55 else n - 87)"

definition hex_val_of :: "string \<Rightarrow> int" where
  "hex_val_of s = foldl (\<lambda>n c. n * 16 + int (hex_char_val c)) 0 s"

definition parse_octet :: "string \<Rightarrow> int option" where
  "parse_octet s =
     (if s = [] \<or> \<not> list_all is_digit s \<or> (length s > 1 \<and> hd s = CHR ''0'') \<or> digits_val s > 255
      then None else Some (digits_val s))"

fun all_some :: "'a option list \<Rightarrow> 'a list option" where
  "all_some [] = Some []"
| "all_some (None # xs) = None"
| "all_some (Some x # xs) = map_option (Cons x) (all_some xs)"

definition parse_ipv4_fields :: "string \<Rightarrow> int list option" where
  "parse_ipv4_fields s =
     (let parts = split_on (CHR ''.'') s in
      if length parts = 4 then all_some (map parse_octet parts) else None)"

definition base_value :: "int \<Rightarrow> int list \<Rightarrow> int" where
  "base_value b ds = foldl (\<lambda>n d. n * b + d) 0 ds"

definition parse_ipv4 :: "string \<Rightarrow> ip_addr option" where
  "parse_ipv4 s = map_option (\<lambda>ds. V4 (word_of_int (base_value 256 ds))) (parse_ipv4_fields s)"

text \<open>The groups of an IPv6 address: at most \<open>left\<close> more, those read so far, the position of the
  ellipsis; what is left of the text is returned with them.\<close>

fun ipv6_groups ::
  "nat \<Rightarrow> string \<Rightarrow> int list \<Rightarrow> nat option \<Rightarrow> (int list \<times> nat option \<times> string) option" where
  "ipv6_groups 0 s acc ellipsis = Some (acc, ellipsis, s)"
| "ipv6_groups (Suc left) s acc ellipsis =
     (let h = takeWhile is_hex_char s; rest = dropWhile is_hex_char s in
      if h = [] \<or> length h > 4 then None
      else if rest \<noteq> [] \<and> hd rest = CHR ''.'' then
        (if ellipsis = None \<and> length acc \<noteq> 6 then None
         else if length acc > 6 then None
         else (case parse_ipv4_fields s of
                 Some ds \<Rightarrow> Some (acc @ [base_value 256 (take 2 ds), base_value 256 (drop 2 ds)], ellipsis, [])
               | None \<Rightarrow> None))
      else (let acc1 = acc @ [hex_val_of h] in
        if rest = [] then Some (acc1, ellipsis, [])
        else if hd rest \<noteq> CHR '':'' then None
        else if tl rest = [] then None
        else if hd (tl rest) = CHR '':'' then
          (if ellipsis \<noteq> None then None
           else if tl (tl rest) = [] then Some (acc1, Some (length acc1), [])
           else ipv6_groups left (tl (tl rest)) acc1 (Some (length acc1)))
        else ipv6_groups left (tl rest) acc1 ellipsis))"

definition expand_ellipsis :: "int list \<Rightarrow> nat option \<Rightarrow> int list option" where
  "expand_ellipsis gs ellipsis =
     (case ellipsis of
        None \<Rightarrow> if length gs < 8 then None else Some gs
      | Some k \<Rightarrow> if length gs < 8 then Some (take k gs @ replicate (8 - length gs) 0 @ drop k gs) else None)"

definition parse_ipv6 :: "string \<Rightarrow> ip_addr option" where
  "parse_ipv6 input =
     (let (s, zone) = (case cut_byte (CHR ''%'') input of Some (a, z) \<Rightarrow> (a, Some z) | None \<Rightarrow> (input, None));
          z = (case zone of Some z \<Rightarrow> z | None \<Rightarrow> []) in
      if zone = Some [] then None
      else if s = ''::'' then Some (V6 0 z)
      else (let lead = has_prefix s ''::'' in
        case ipv6_groups 8 (if lead then drop 2 s else s) [] (if lead then Some 0 else None) of
          None \<Rightarrow> None
        | Some (gs, ellipsis, rest) \<Rightarrow>
            if rest \<noteq> [] then None
            else map_option (\<lambda>gs. V6 (word_of_int (base_value 65536 gs)) z) (expand_ellipsis gs ellipsis)))"

definition parse_addr :: "string \<Rightarrow> ip_addr option" where
  "parse_addr s =
     (case find (\<lambda>c. c = CHR ''.'' \<or> c = CHR '':'' \<or> c = CHR ''%'') s of
        Some c \<Rightarrow> if c = CHR ''.'' then parse_ipv4 s else if c = CHR '':'' then parse_ipv6 s else None
      | None \<Rightarrow> None)"

section \<open>Address classes\<close>

fun addr_unmap :: "ip_addr \<Rightarrow> ip_addr" where
  "addr_unmap (V6 a z) = (if drop_bit 32 a = 0xffff then V4 (ucast a) else V6 a z)"
| "addr_unmap a = a"

fun addr_zone :: "ip_addr \<Rightarrow> string" where
  "addr_zone (V6 a z) = z"
| "addr_zone _ = []"

definition is_loopback :: "ip_addr \<Rightarrow> bool" where
  "is_loopback ip =
     (case addr_unmap ip of V4 a \<Rightarrow> drop_bit 24 a = 127 | V6 a z \<Rightarrow> a = 1 | NoAddr \<Rightarrow> False)"

definition is_multicast :: "ip_addr \<Rightarrow> bool" where
  "is_multicast ip =
     (case addr_unmap ip of V4 a \<Rightarrow> drop_bit 28 a = 0xe | V6 a z \<Rightarrow> drop_bit 120 a = 0xff | NoAddr \<Rightarrow> False)"

definition is_link_local_unicast :: "ip_addr \<Rightarrow> bool" where
  "is_link_local_unicast ip =
     (case addr_unmap ip of
        V4 a \<Rightarrow> drop_bit 16 a = 0xa9fe | V6 a z \<Rightarrow> drop_bit 118 a = 0x3fa | NoAddr \<Rightarrow> False)"

definition is_link_local_multicast :: "ip_addr \<Rightarrow> bool" where
  "is_link_local_multicast ip =
     (case addr_unmap ip of
        V4 a \<Rightarrow> drop_bit 8 a = 0xe00000
      | V6 a z \<Rightarrow> drop_bit 120 a = 0xff \<and> drop_bit 112 a mod 16 = 2
      | NoAddr \<Rightarrow> False)"

definition is_private :: "ip_addr \<Rightarrow> bool" where
  "is_private ip =
     (case addr_unmap ip of
        V4 a \<Rightarrow> drop_bit 24 a = 10 \<or> drop_bit 20 a = 0xac1 \<or> drop_bit 16 a = 0xc0a8
      | V6 a z \<Rightarrow> drop_bit 121 a = 0x7e
      | NoAddr \<Rightarrow> False)"

fun is_unspecified :: "ip_addr \<Rightarrow> bool" where
  "is_unspecified (V4 a) = (a = 0)"
| "is_unspecified (V6 a z) = (a = 0 \<and> z = [])"
| "is_unspecified NoAddr = False"

definition is_global_unicast :: "ip_addr \<Rightarrow> bool" where
  "is_global_unicast ip =
     (case addr_unmap ip of
        NoAddr \<Rightarrow> False
      | V4 a \<Rightarrow> a \<noteq> 0 \<and> a \<noteq> - 1 \<and> \<not> is_loopback (V4 a) \<and> \<not> is_multicast (V4 a) \<and> \<not> is_link_local_unicast (V4 a)
      | V6 a z \<Rightarrow> \<not> is_unspecified (V6 a z) \<and> \<not> is_loopback (V6 a z) \<and> \<not> is_multicast (V6 a z) \<and>
                  \<not> is_link_local_unicast (V6 a z))"

section \<open>Prefixes\<close>

fun prefix_contains :: "ip_addr \<Rightarrow> nat \<Rightarrow> ip_addr \<Rightarrow> bool" where
  "prefix_contains (V4 p) n (V4 a) = (n \<le> 32 \<and> drop_bit (32 - n) a = drop_bit (32 - n) p)"
| "prefix_contains (V6 p _) n (V6 a z) = (z = [] \<and> n \<le> 128 \<and> drop_bit (128 - n) a = drop_bit (128 - n) p)"
| "prefix_contains _ _ _ = False"

definition parse_prefix :: "string \<Rightarrow> (ip_addr \<times> nat) option" where
  "parse_prefix s =
     (case cut_byte (CHR ''/'') s of
        None \<Rightarrow> None
      | Some (a, bits) \<Rightarrow>
          (case (parse_addr a, atoi_unsigned bits) of
             (Some ip, Some n) \<Rightarrow>
               if addr_zone ip \<noteq> [] \<or> n > (case ip of V4 _ \<Rightarrow> 32 | _ \<Rightarrow> 128) then None else Some (ip, nat n)
           | _ \<Rightarrow> None))"

text \<open>A prefix is the interval of the numbers that share its leading bits.\<close>

lemma drop_bit_eq_iff:
  fixes a :: "'a::len word"
  shows "drop_bit k a = drop_bit k b \<longleftrightarrow> unat a div 2 ^ k = unat b div 2 ^ k"
  by (simp only: word_unat_eq_iff unat_drop_bit_eq drop_bit_nat_def)

lemma drop_bit_eq_number:
  fixes a :: "'a::len word"
  shows "drop_bit k a = c \<longleftrightarrow> unat a div 2 ^ k = unat c"
  by (simp only: word_unat_eq_iff unat_drop_bit_eq drop_bit_nat_def)

lemma div_eq_interval:
  fixes n :: nat
  assumes "0 < m"
  shows "n div m = q \<longleftrightarrow> q * m \<le> n \<and> n < (q + 1) * m"
  using assms by (metis Suc_eq_plus1 div_nat_eqI div_times_less_eq_dividend dividend_less_times_div mult.commute
      mult_Suc_right)

lemma drop_bit_interval:
  fixes a :: "'a::len word"
  shows "drop_bit k a = c \<longleftrightarrow> unat c * 2 ^ k \<le> unat a \<and> unat a < (unat c + 1) * 2 ^ k"
  unfolding drop_bit_eq_number by (rule div_eq_interval) simp

end
