(* ===== verification/GoUrl.thy ===== *)
theory GoUrl
  imports GoNetip Resolve
begin

text \<open>
  \<open>net/url\<close> as the program uses it: \<open>url.Parse\<close> with the parts of a URL, \<open>Hostname\<close>, \<open>IsAbs\<close>,
  \<open>EscapedPath\<close> and \<open>PathUnescape\<close>. A parse error is \<open>None\<close>: no caller looks into it.
\<close>

section \<open>Escaping\<close>

datatype url_mode = EncodePath | EncodePathSegment | EncodeHost | EncodeZone | EncodeUserPassword | EncodeFragment

definition is_alpha :: "char \<Rightarrow> bool" where
  "is_alpha c \<longleftrightarrow> (let n = of_char c :: nat in (65 \<le> n \<and> n \<le> 90) \<or> (97 \<le> n \<and> n \<le> 122))"

definition host_escapes :: "char \<Rightarrow> bool" where
  "host_escapes c \<longleftrightarrow>
     \<not> (is_alpha c \<or> is_digit c \<or> c \<in> set ''!$&()*+,;=:[]<>-_.~'' \<or> c = CHR 0x27 \<or> c = CHR 0x22)"

definition path_mode_escapes :: "char \<Rightarrow> bool" where
  "path_mode_escapes c \<longleftrightarrow> \<not> (is_alpha c \<or> is_digit c \<or> c \<in> set ''-_.~$&+,/:;=@'')"

fun url_unescape :: "url_mode \<Rightarrow> string \<Rightarrow> string option" where
  "url_unescape m [] = Some []"
| "url_unescape m (c # s) =
     (if c = CHR ''%'' then
        (case s of
           a # b # r \<Rightarrow>
             if \<not> is_hex_char a \<or> \<not> is_hex_char b then None
             else if m = EncodeHost \<and> hex_char_val a < 8 \<and> (a, b) \<noteq> (CHR ''2'', CHR ''5'') then None
             else (let v = char_of (16 * hex_char_val a + hex_char_val b) in
               if m = EncodeZone \<and> (a, b) \<noteq> (CHR ''2'', CHR ''5'') \<and> v \<noteq> CHR '' '' \<and> host_escapes v then None
               else map_option (Cons v) (url_unescape m r))
         | _ \<Rightarrow> None)
      else if (m = EncodeHost \<or> m = EncodeZone) \<and> (of_char c :: nat) < 128 \<and> host_escapes c then None
      else map_option (Cons c) (url_unescape m s))"

definition escape_path_char :: "char \<Rightarrow> string" where
  "escape_path_char c =
     (if path_mode_escapes c
      then (let n = of_char c :: nat in [CHR ''%'', hex_digit (n div 16), hex_digit (n mod 16)]) else [c])"

definition escape_path :: "string \<Rightarrow> string" where
  "escape_path s = concat (map escape_path_char s)"

definition valid_encoded_path :: "string \<Rightarrow> bool" where
  "valid_encoded_path s \<longleftrightarrow>
     list_all (\<lambda>c. c \<in> set ''!$&()*+,;=:@[]%'' \<or> c = CHR 0x27 \<or> \<not> path_mode_escapes c) s"

section \<open>Parsing\<close>

record url =
  url_scheme :: string
  url_opaque :: string
  url_user :: "(string \<times> string option) option"
  url_host :: string
  url_path :: string
  url_raw_path :: string
  url_raw_query :: string
  url_fragment :: string

definition get_scheme :: "string \<Rightarrow> (string \<times> string) option" where
  "get_scheme s =
     (if s = [] then Some ([], s)
      else if hd s = CHR '':'' then None
      else if \<not> is_alpha (hd s) then Some ([], s)
      else (let is_part = (\<lambda>c. is_alpha c \<or> is_digit c \<or> c \<in> set ''+-.'');
                rest = dropWhile is_part s
            in if rest \<noteq> [] \<and> hd rest = CHR '':'' then Some (takeWhile is_part s, tl rest) else Some ([], s)))"

definition valid_optional_port :: "string \<Rightarrow> bool" where
  "valid_optional_port s \<longleftrightarrow> s = [] \<or> (hd s = CHR '':'' \<and> list_all is_digit (tl s))"

definition parse_bracket_host :: "string \<Rightarrow> string option" where
  "parse_bracket_host host =
     (case last_index_byte (CHR '']'') host of
        None \<Rightarrow> None
      | Some i \<Rightarrow>
          (let port = drop (Suc i) host; name = take (i - 1) (drop 1 host) in
           if \<not> valid_optional_port port then None
           else (case url_unescape EncodeHost port of None \<Rightarrow> None | Some port1 \<Rightarrow>
             (case (case index_str name ''%25'' of
                      None \<Rightarrow> url_unescape EncodeHost name
                    | Some z \<Rightarrow>
                        (case (url_unescape EncodeHost (take z name), url_unescape EncodeZone (drop z name)) of
                           (Some a, Some b) \<Rightarrow> Some (a @ b) | _ \<Rightarrow> None)) of
                None \<Rightarrow> None
              | Some name1 \<Rightarrow>
                  (case parse_addr name1 of
                     Some (V6 a z) \<Rightarrow> Some (''['' @ name1 @ '']'' @ port1) | _ \<Rightarrow> None)))))"

definition parse_host :: "string \<Rightarrow> string option" where
  "parse_host host =
     (case last_index_byte (CHR ''['') host of
        Some i \<Rightarrow> if i > 0 then None else parse_bracket_host host
      | None \<Rightarrow>
          (case last_index_byte (CHR '':'') host of
             Some i \<Rightarrow> if valid_optional_port (drop i host) then url_unescape EncodeHost host else None
           | None \<Rightarrow> url_unescape EncodeHost host))"

definition valid_userinfo :: "string \<Rightarrow> bool" where
  "valid_userinfo s \<longleftrightarrow>
     list_all (\<lambda>c. is_alpha c \<or> is_digit c \<or> c \<in> set ''-._:~!$&()*+,;=%@'' \<or> c = CHR 0x27) s"

definition parse_userinfo :: "string \<Rightarrow> (string \<times> string option) option" where
  "parse_userinfo s =
     (if \<not> valid_userinfo s then None
      else (case cut_byte (CHR '':'') s of
              None \<Rightarrow> map_option (\<lambda>u. (u, None)) (url_unescape EncodeUserPassword s)
            | Some (u, p) \<Rightarrow>
                (case (url_unescape EncodeUserPassword u, url_unescape EncodeUserPassword p) of
                   (Some u1, Some p1) \<Rightarrow> Some (u1, Some p1) | _ \<Rightarrow> None)))"

definition parse_authority :: "string \<Rightarrow> ((string \<times> string option) option \<times> string) option" where
  "parse_authority authority =
     (case last_index_byte (CHR ''@'') authority of
        None \<Rightarrow> map_option (\<lambda>h. (None, h)) (parse_host authority)
      | Some i \<Rightarrow>
          (case parse_host (drop (Suc i) authority) of
             None \<Rightarrow> None
           | Some h \<Rightarrow> map_option (\<lambda>u. (Some u, h)) (parse_userinfo (take i authority))))"

text \<open>The query is what follows the first question mark; a single one at the end leaves it empty.\<close>

definition set_path :: "string \<Rightarrow> url \<Rightarrow> url option" where
  "set_path p u =
     map_option (\<lambda>path. u\<lparr>url_path := path, url_raw_path := (if p = escape_path path then [] else p)\<rparr>)
       (url_unescape EncodePath p)"

definition parse_hier :: "string \<Rightarrow> string \<Rightarrow> string \<Rightarrow> url option" where
  "parse_hier scheme rest query =
     (let u = \<lparr>url_scheme = scheme, url_opaque = [], url_user = None, url_host = [], url_path = [],
               url_raw_path = [], url_raw_query = query, url_fragment = []\<rparr> in
      if \<not> has_prefix rest ''/'' \<and> scheme \<noteq> [] then Some (u\<lparr>url_opaque := rest\<rparr>)
      else if \<not> has_prefix rest ''/'' \<and> CHR '':'' \<in> set (takeWhile (\<lambda>c. c \<noteq> CHR ''/'') rest) then None
      else if (scheme \<noteq> [] \<or> \<not> has_prefix rest ''///'') \<and> has_prefix rest ''//'' then
        (let hier = drop 2 rest in
         case parse_authority (takeWhile (\<lambda>c. c \<noteq> CHR ''/'') hier) of
           None \<Rightarrow> None
         | Some (user, host) \<Rightarrow>
             set_path (dropWhile (\<lambda>c. c \<noteq> CHR ''/'') hier) (u\<lparr>url_user := user, url_host := host\<rparr>))
      else set_path rest u)"

definition url_parse_nofrag :: "string \<Rightarrow> url option" where
  "url_parse_nofrag raw =
     (if list_ex is_control raw then None
      else if raw = ''*'' then
        Some \<lparr>url_scheme = [], url_opaque = [], url_user = None, url_host = [], url_path = ''*'',
              url_raw_path = [], url_raw_query = [], url_fragment = []\<rparr>
      else (case get_scheme raw of
              None \<Rightarrow> None
            | Some (scheme, rest) \<Rightarrow>
                (let (rest1, query) = (case cut_byte (CHR ''?'') rest of Some rq \<Rightarrow> rq | None \<Rightarrow> (rest, []))
                 in parse_hier (to_lower scheme) rest1 query)))"

definition url_parse :: "string \<Rightarrow> url option" where
  "url_parse raw =
     (let (u, frag) = (case cut_byte (CHR ''#'') raw of Some uf \<Rightarrow> uf | None \<Rightarrow> (raw, [])) in
      case url_parse_nofrag u of
        None \<Rightarrow> None
      | Some url \<Rightarrow> map_option (\<lambda>f. url\<lparr>url_fragment := f\<rparr>) (url_unescape EncodeFragment frag))"

definition has_suffix :: "string \<Rightarrow> string \<Rightarrow> bool" where
  "has_suffix s t = has_prefix (rev s) (rev t)"

definition url_hostname :: "url \<Rightarrow> string" where
  "url_hostname u =
     (let host = (case last_index_byte (CHR '':'') (url_host u) of
                    Some i \<Rightarrow> if valid_optional_port (drop i (url_host u)) then take i (url_host u) else url_host u
                  | None \<Rightarrow> url_host u)
      in if has_prefix host ''['' \<and> has_suffix host '']'' then butlast (tl host) else host)"

definition url_escaped_path :: "url \<Rightarrow> string" where
  "url_escaped_path u =
     (if url_raw_path u \<noteq> [] \<and> valid_encoded_path (url_raw_path u) \<and>
         url_unescape EncodePath (url_raw_path u) = Some (url_path u)
      then url_raw_path u
      else if url_path u = ''*'' then ''*'' else escape_path (url_path u))"

section \<open>Escaping and unescaping a path\<close>

lemma has_suffix_iff: "has_suffix s t \<longleftrightarrow> (\<exists>p. s = p @ t)"
  unfolding has_suffix_def has_prefix_iff by (metis rev_append rev_rev_ident)

lemma hex_char_digit: "n < 16 \<Longrightarrow> is_hex_char (hex_digit n) \<and> hex_char_val (hex_digit n) = n"
  by (simp add: hex_digit_def is_hex_char_def hex_char_val_def of_char_of Let_def)

lemma escape_path_Cons [simp]:
  "escape_path [] = []"
  "escape_path (c # s) = escape_path_char c @ escape_path s"
  by (simp_all add: escape_path_def)

lemma unescape_escape_path [simp]: "url_unescape EncodePath (escape_path s) = Some s"
proof (induction s)
  case (Cons c s)
  have "16 * ((of_char c :: nat) div 16) + of_char c mod 16 = of_char c" by simp
  moreover have "path_mode_escapes (CHR ''%'')" by code_simp
  ultimately show ?case
    using Cons hex_char_digit [OF char_nibbles(1), of c] hex_char_digit [OF char_nibbles(2), of c]
    by (auto simp: escape_path_char_def Let_def)
qed simp

text \<open>So decoding the escaped path of a URL gives back its path.\<close>

lemma unescape_escaped_path: "url_unescape EncodePath (url_escaped_path u) = Some (url_path u)"
  by (simp add: url_escaped_path_def)

lemma unescape_plain:
  "CHR ''%'' \<notin> set s \<Longrightarrow> url_unescape EncodePath s = Some s"
  by (induction s) auto

lemma unescape_segment: "url_unescape EncodePathSegment s = url_unescape EncodePath s"
  by (induction EncodePathSegment s rule: url_unescape.induct) (auto split: list.splits)

end
