(* ===== verification/ToolResult.thy ===== *)
theory ToolResult
  imports Pagination HttpClient GoUrl
begin

text \<open>
  What the tool handlers of \<open>internal/tools\<close> share: arguments, the sanitised result envelope of
  \<open>common.go\<close>, the workspace of a call, and the state a handler runs in. A handler is a function of
  the state: the workspace ID and the user ID found so far and the world, which only \<open>api\<close> - the client call, its
  result decoded as JSON - reads and changes.
\<close>

section \<open>Handlers\<close>

record 'w tool_state =
  ts_workspace_cache :: string
  ts_user_cache :: "string option"
  ts_world :: 'w

type_synonym ('w, 'e, 'a) handler_m = "'w tool_state \<Rightarrow> ('e, 'a) result \<times> 'w tool_state"

definition bind_m :: "('w, 'e, 'a) handler_m \<Rightarrow> ('a \<Rightarrow> ('w, 'e, 'b) handler_m) \<Rightarrow> ('w, 'e, 'b) handler_m" where
  "bind_m m f s = (case m s of (Inl e, s1) \<Rightarrow> (Inl e, s1) | (Inr a, s1) \<Rightarrow> f a s1)"

definition of_result :: "('e, 'a) result \<Rightarrow> ('w, 'e, 'a) handler_m" where
  "of_result r s = (r, s)"

text \<open>An error of a handler: of the client, of decoding a response into a map, of the handler's own
  checks, or the panic of writing to a nil map.\<close>

datatype ('c, 'd) handler_error =
    BadId id_error
  | BadPath path_error
  | Upstream 'c
  | NoWorkspaces
  | ManyWorkspaces
  | NotStrings string
  | NotStringArray string
  | BadShape
  | Panicked
  | Domain 'd

type_synonym ('w, 'c) api = "json http_call \<Rightarrow> 'w \<Rightarrow> ('c, json) result \<times> 'w"

definition api_call :: "('w, 'c) api \<Rightarrow> json http_call \<Rightarrow> ('w, ('c, 'd) handler_error, json) handler_m" where
  "api_call api c s =
     (case api c (ts_world s) of
        (Inl e, w) \<Rightarrow> (Inl (Upstream e), s\<lparr>ts_world := w\<rparr>)
      | (Inr v, w) \<Rightarrow> (Inr v, s\<lparr>ts_world := w\<rparr>))"

text \<open>A response decoded into a map: a JSON null leaves the map nil.\<close>

definition decode_map :: "json \<Rightarrow> (('c, 'd) handler_error, members option) result" where
  "decode_map v = (case v of JObj m \<Rightarrow> Inr (Some m) | JNull \<Rightarrow> Inr None | _ \<Rightarrow> Inl BadShape)"

definition map_error :: "('e \<Rightarrow> 'f) \<Rightarrow> ('e, 'a) result \<Rightarrow> ('f, 'a) result" where
  "map_error f r = (case r of Inl e \<Rightarrow> Inl (f e) | Inr a \<Rightarrow> Inr a)"

text \<open>A list of workspaces that decodes is one of objects; the ID of one is its \<open>id\<close> member.\<close>

definition resolve_workspace_id ::
  "string \<Rightarrow> http_client \<Rightarrow> ('w, 'c) api \<Rightarrow> ('w, ('c, 'd) handler_error, string) handler_m" where
  "resolve_workspace_id pinned c api s =
     (if pinned \<noteq> [] then (map_error BadId (bind_result (validate_id pinned ''workspace_id'') (\<lambda>_. Inr pinned)), s)
      else if ts_workspace_cache s \<noteq> [] then (Inr (ts_workspace_cache s), s)
      else bind_m (api_call api (hc_get c ''/workspaces'' []))
             (\<lambda>v s1. (case v of
                JArr [JObj ws] \<Rightarrow> (Inr (str_member ws ''id''), s1\<lparr>ts_workspace_cache := str_member ws ''id''\<rparr>)
              | JArr (_ # _) \<Rightarrow> (Inl ManyWorkspaces, s1)
              | _ \<Rightarrow> (Inl NoWorkspaces, s1))) s)"

lemma bind_m_simps [simp]:
  "bind_m (of_result (Inl e)) f s = (Inl e, s)"
  "bind_m (of_result (Inr a)) f s = f a s"
  by (simp_all add: bind_m_def of_result_def)

lemma of_result_simps [simp]: "snd (of_result r s) = s" "fst (of_result r s) = r"
  by (simp_all add: of_result_def)

lemma resolve_pinned:
  "pinned \<noteq> [] \<Longrightarrow> snd (resolve_workspace_id pinned c api s) = s"
  by (simp add: resolve_workspace_id_def)

lemma snd_bind_m:
  "snd (bind_m m f s) = (case fst (m s) of Inl e \<Rightarrow> snd (m s) | Inr a \<Rightarrow> snd (f a (snd (m s))))"
  by (simp add: bind_m_def split: prod.split sum.split)

lemma bind_m_Inr:
  "bind_m m f s = (Inr b, s2) \<longleftrightarrow> (\<exists>a s1. m s = (Inr a, s1) \<and> f a s1 = (Inr b, s2))"
  by (auto simp: bind_m_def split: prod.splits sum.splits)

section \<open>Arguments\<close>

definition string_arg :: "members \<Rightarrow> string \<Rightarrow> string" where
  "string_arg args key = str_member args key"

definition keep_trimmed :: "string list \<Rightarrow> string list" where
  "keep_trimmed xs = filter (\<lambda>s. s \<noteq> []) (map trim_space xs)"

text \<open>The strings and whether the argument was there.\<close>

definition strict_string_slice_arg :: "members \<Rightarrow> string \<Rightarrow> (('c, 'd) handler_error, string list \<times> bool) result" where
  "strict_string_slice_arg args key =
     (case map_of args key of
        None \<Rightarrow> Inr ([], False)
      | Some (JStrs xs) \<Rightarrow> Inr (keep_trimmed xs, True)
      | Some (JArr xs) \<Rightarrow>
          (case all_some (map as_str xs) of
             Some ys \<Rightarrow> Inr (keep_trimmed ys, True) | None \<Rightarrow> Inl (NotStrings key))
      | Some _ \<Rightarrow> Inl (NotStringArray key))"

definition first_present :: "members \<Rightarrow> string list \<Rightarrow> json option" where
  "first_present m keys = (case filter (\<lambda>k. map_of m k \<noteq> None) keys of k # _ \<Rightarrow> map_of m k | [] \<Rightarrow> None)"

section \<open>Results\<close>

definition sensitive_result_keys :: "string list" where
  "sensitive_result_keys =
     [''accesstoken'', ''apikey'', ''authtoken'', ''bearer'', ''clientsecret'', ''cookie'', ''cookies'',
      ''credential'', ''credentials'', ''authorization'', ''idtoken'', ''password'', ''refreshtoken'',
      ''secret'', ''token'', ''xaddontoken'', ''xapikey'']"

definition sensitive_result_key :: "string \<Rightarrow> bool" where
  "sensitive_result_key key \<longleftrightarrow>
     filter (\<lambda>c. c \<notin> {CHR ''_'', CHR ''-'', CHR '' ''}) (to_lower key) \<in> set sensitive_result_keys"

fun sanitize_result_value :: "json \<Rightarrow> json" where
  "sanitize_result_value (JObj kvs) =
     JObj (map (\<lambda>(k, v). (k, sanitize_result_value v)) (filter (\<lambda>(k, v). \<not> sensitive_result_key k) kvs))"
| "sanitize_result_value (JArr xs) = JArr (map sanitize_result_value xs)"
| "sanitize_result_value (JStr s) = JStr (if str_contains (to_lower s) ''bearer '' then ''[redacted]'' else s)"
| "sanitize_result_value v = v"

record tool_result =
  tr_action :: string
  tr_data :: json
  tr_meta :: members

definition sanitize_result_meta :: "members \<Rightarrow> members" where
  "sanitize_result_meta meta = (case sanitize_result_value (JObj meta) of JObj m \<Rightarrow> m | _ \<Rightarrow> [])"

definition ok_result :: "string \<Rightarrow> json \<Rightarrow> members \<Rightarrow> tool_result" where
  "ok_result action data meta =
     \<lparr>tr_action = action, tr_data = sanitize_result_value data, tr_meta = sanitize_result_meta meta\<rparr>"

definition empty_list_meta :: "members \<Rightarrow> string \<Rightarrow> members" where
  "empty_list_meta meta create_tool =
     (if map_of meta ''count'' \<noteq> Some (JInt 0) then meta
      else AList.update ''nextAction'' (JStr
        (if create_tool \<noteq> []
         then ''No results matched the request. Use '' @ create_tool @ '' to create one, or retry with broader filters or a wider date range.''
         else ''No results matched the request. Retry with broader filters or a wider date range.'')) meta)"

text \<open>What no result contains, at any depth: a member with a sensitive name, or a bearer token text.\<close>

fun result_clean :: "json \<Rightarrow> bool" where
  "result_clean (JObj kvs) = (\<forall>(k, v) \<in> set kvs. \<not> sensitive_result_key k \<and> result_clean v)"
| "result_clean (JArr xs) = (\<forall>x \<in> set xs. result_clean x)"
| "result_clean (JStr s) = (\<not> str_contains (to_lower s) ''bearer '')"
| "result_clean _ = True"

lemma sanitized_clean: "result_clean (sanitize_result_value v)"
proof (induction v rule: sanitize_result_value.induct)
  case (3 s)
  have "\<not> str_contains (to_lower ''[redacted]'') ''bearer ''" by code_simp
  then show ?case by simp
qed auto

lemma sanitize_clean_id: "result_clean v \<Longrightarrow> sanitize_result_value v = v"
proof (induction v rule: sanitize_result_value.induct)
  case (1 kvs)
  then have "filter (\<lambda>(k, v). \<not> sensitive_result_key k) kvs = kvs" by (auto simp: filter_id_conv)
  with 1 show ?case by (auto intro!: map_idI simp: case_prod_beta)
next
  case (2 xs)
  then show ?case by (auto intro!: map_idI)
qed auto


end
