(* ===== verification/WebhookGate.thy ===== *)
theory WebhookGate
  imports ToolResult
begin

text \<open>
  The gate a webhook URL passes before Clockify is told to deliver to it (\<open>webhooks.go\<close>): HTTPS, no
  credentials, no local host name, and no address - literal, or resolved when DNS checking is on - that
  is not public. The operator's list of trusted hosts bypasses the check of resolved addresses only.
\<close>

section \<open>Addresses\<close>

definition blocked_prefixes :: "(string \<times> string) list" where
  "blocked_prefixes =
     [(''0.0.0.0/8'', ''current-network''),
      (''100.64.0.0/10'', ''carrier-grade-nat''),
      (''169.254.0.0/16'', ''link-local''),
      (''192.0.0.0/24'', ''ietf-protocol-assignment''),
      (''192.0.2.0/24'', ''documentation''),
      (''198.18.0.0/15'', ''benchmarking''),
      (''198.51.100.0/24'', ''documentation''),
      (''203.0.113.0/24'', ''documentation''),
      (''224.0.0.0/4'', ''multicast''),
      (''240.0.0.0/4'', ''reserved''),
      (''::/128'', ''unspecified''),
      (''::1/128'', ''loopback''),
      (''fe80::/10'', ''link-local''),
      (''fc00::/7'', ''private''),
      (''ff00::/8'', ''multicast''),
      (''2001:db8::/32'', ''documentation'')]"

definition in_prefix :: "ip_addr \<Rightarrow> string \<Rightarrow> bool" where
  "in_prefix addr cidr = (case parse_prefix cidr of Some (p, n) \<Rightarrow> prefix_contains p n addr | None \<Rightarrow> False)"

definition webhook_addr_rejection_reason :: "ip_addr \<Rightarrow> string" where
  "webhook_addr_rejection_reason addr0 =
     (let addr = addr_unmap addr0 in
      if addr = NoAddr \<or> \<not> is_global_unicast addr then
        (if is_loopback addr then ''loopback''
         else if is_unspecified addr then ''unspecified''
         else if is_multicast addr then ''multicast''
         else if is_link_local_unicast addr \<or> is_link_local_multicast addr then ''link-local''
         else ''not-global-unicast'')
      else if is_loopback addr then ''loopback''
      else if is_private addr then ''private''
      else if is_link_local_unicast addr \<or> is_link_local_multicast addr then ''link-local''
      else if is_multicast addr then ''multicast''
      else if is_unspecified addr then ''unspecified''
      else (case find (\<lambda>(cidr, _). in_prefix addr cidr) blocked_prefixes of
              Some (_, reason) \<Rightarrow> reason | None \<Rightarrow> []))"

section \<open>The gate\<close>

datatype webhook_url_error =
    UrlParse
  | NotHttps
  | HostMissing
  | EmbeddedCredentials
  | LocalHostName
  | PrivateLiteral string
  | LookupFailed string
  | NoAddresses string
  | ResolvesPrivate string ip_addr string

definition is_localhost_name :: "string \<Rightarrow> bool" where
  "is_localhost_name host \<longleftrightarrow> host = ''localhost'' \<or> has_suffix host ''.localhost''"

definition validate_webhook_url :: "string \<Rightarrow> (webhook_url_error, unit) result" where
  "validate_webhook_url url0 =
     (case url_parse url0 of
        None \<Rightarrow> Inl UrlParse
      | Some u \<Rightarrow>
          if url_scheme u \<noteq> ''https'' then Inl NotHttps
          else if url_host u = [] then Inl HostMissing
          else if url_user u \<noteq> None then Inl EmbeddedCredentials
          else (let host = to_lower (url_hostname u) in
            if is_localhost_name host then Inl LocalHostName
            else (case parse_addr host of
                    Some addr \<Rightarrow>
                      (let reason = webhook_addr_rejection_reason addr in
                       if reason \<noteq> [] then Inl (PrivateLiteral reason) else Inr ())
                  | None \<Rightarrow> Inr ())))"

fun is_webhook_host_allowed :: "string \<Rightarrow> string list \<Rightarrow> bool" where
  "is_webhook_host_allowed host [] = False"
| "is_webhook_host_allowed host (d0 # allow) =
     (let d = to_lower (trim_space d0) in
      if d = [] then is_webhook_host_allowed host allow
      else if host = d then True
      else if has_prefix d ''.'' \<and> has_suffix host d then True
      else is_webhook_host_allowed host allow)"

record webhook_policy =
  wp_validate_dns :: bool
  wp_allowed_domains :: "string list"

text \<open>\<open>lookup\<close> is the resolver, \<open>None\<close> its error.\<close>

fun first_private :: "ip_addr list \<Rightarrow> (ip_addr \<times> string) option" where
  "first_private [] = None"
| "first_private (a # addrs) =
     (let reason = webhook_addr_rejection_reason a in
      if reason \<noteq> [] then Some (a, reason) else first_private addrs)"

definition validate_webhook_url_for_service ::
  "webhook_policy \<Rightarrow> (string \<Rightarrow> ip_addr list option) \<Rightarrow> string \<Rightarrow> (webhook_url_error, unit) result" where
  "validate_webhook_url_for_service policy lookup url0 =
     bind_result (validate_webhook_url url0) (\<lambda>_.
       if \<not> wp_validate_dns policy then Inr ()
       else (case url_parse url0 of
               None \<Rightarrow> Inl UrlParse
             | Some u \<Rightarrow>
                 (let host = to_lower (url_hostname u) in
                  if parse_addr host \<noteq> None then Inr ()
                  else if is_webhook_host_allowed host (wp_allowed_domains policy) then Inr ()
                  else (case lookup host of
                          None \<Rightarrow> Inl (LookupFailed host)
                        | Some [] \<Rightarrow> Inl (NoAddresses host)
                        | Some addrs \<Rightarrow>
                            (case first_private addrs of
                               Some (a, reason) \<Rightarrow> Inl (ResolvesPrivate host a reason)
                             | None \<Rightarrow> Inr ())))))"

section \<open>What counts as public\<close>

text \<open>The special-purpose blocks of IPv4 and IPv6 as half-open intervals of address numbers.\<close>

definition special_v4 :: "(nat \<times> nat) list" where
  "special_v4 =
     [(0, 0x01000000), (0x0a000000, 0x0b000000), (0x64400000, 0x64800000), (0x7f000000, 0x80000000),
      (0xa9fe0000, 0xa9ff0000), (0xac100000, 0xac200000), (0xc0000000, 0xc0000100), (0xc0000200, 0xc0000300),
      (0xc0a80000, 0xc0a90000), (0xc6120000, 0xc6140000), (0xc6336400, 0xc6336500), (0xcb007100, 0xcb007200),
      (0xe0000000, 0x100000000)]"

definition special_v6 :: "(nat \<times> nat) list" where
  "special_v6 =
     [(0, 2), (0x20010db8 * 2 ^ 96, 0x20010db9 * 2 ^ 96), (0xfc * 2 ^ 120, 0xfe * 2 ^ 120),
      (0xfe80 * 2 ^ 112, 0xfec0 * 2 ^ 112), (0xff * 2 ^ 120, 2 ^ 128)]"

definition outside :: "(nat \<times> nat) list \<Rightarrow> nat \<Rightarrow> bool" where
  "outside blocks n \<longleftrightarrow> list_all (\<lambda>(lo, hi). n < lo \<or> hi \<le> n) blocks"

lemma blocked_prefixes_parsed:
  "map (parse_prefix \<circ> fst) blocked_prefixes =
     map Some [(V4 0, 8), (V4 0x64400000, 10), (V4 0xa9fe0000, 16), (V4 0xc0000000, 24), (V4 0xc0000200, 24),
       (V4 0xc6120000, 15), (V4 0xc6336400, 24), (V4 0xcb007100, 24), (V4 0xe0000000, 4), (V4 0xf0000000, 4),
       (V6 0 [], 128), (V6 1 [], 128), (V6 0xfe800000000000000000000000000000 [], 10), (V6 0xfc000000000000000000000000000000 [], 7),
       (V6 0xff000000000000000000000000000000 [], 8), (V6 0x20010db8000000000000000000000000 [], 32)]"
  by code_simp

definition parsed_prefixes :: "(ip_addr \<times> nat) list" where
  "parsed_prefixes = map (the \<circ> parse_prefix \<circ> fst) blocked_prefixes"

lemma parsed_prefixes:
  "parsed_prefixes =
     [(V4 0, 8), (V4 0x64400000, 10), (V4 0xa9fe0000, 16), (V4 0xc0000000, 24), (V4 0xc0000200, 24),
       (V4 0xc6120000, 15), (V4 0xc6336400, 24), (V4 0xcb007100, 24), (V4 0xe0000000, 4), (V4 0xf0000000, 4),
       (V6 0 [], 128), (V6 1 [], 128), (V6 0xfe800000000000000000000000000000 [], 10),
       (V6 0xfc000000000000000000000000000000 [], 7),
       (V6 0xff000000000000000000000000000000 [], 8), (V6 0x20010db8000000000000000000000000 [], 32)]"
  using arg_cong [OF blocked_prefixes_parsed, of "map the"]
  by (simp add: parsed_prefixes_def comp_def)

lemma blocked_reason_empty:
  "(case find (\<lambda>(cidr, _). in_prefix addr cidr) blocked_prefixes of Some (_, reason) \<Rightarrow> reason | None \<Rightarrow> []) = [] \<longleftrightarrow>
     list_all (\<lambda>(p, n). \<not> prefix_contains p n addr) parsed_prefixes"
proof -
  have reasons: "reason \<noteq> []" if "(cidr, reason) \<in> set blocked_prefixes" for cidr reason
    using that by (auto simp: blocked_prefixes_def)
  have parsed: "parse_prefix cidr \<noteq> None" if "(cidr, reason) \<in> set blocked_prefixes" for cidr reason
  proof -
    have "parse_prefix cidr \<in> set (map (parse_prefix \<circ> fst) blocked_prefixes)" using that by force
    then show ?thesis unfolding blocked_prefixes_parsed by auto
  qed
  have "list_all (\<lambda>(p, n). \<not> prefix_contains p n addr) parsed_prefixes \<longleftrightarrow>
      (\<forall>(cidr, reason) \<in> set blocked_prefixes. \<not> in_prefix addr cidr)"
    using parsed by (fastforce simp: parsed_prefixes_def list_all_iff in_prefix_def split: option.splits prod.splits)
  moreover have "(case find (\<lambda>(cidr, _). in_prefix addr cidr) blocked_prefixes of Some (_, reason) \<Rightarrow> reason | None \<Rightarrow> []) = [] \<longleftrightarrow>
      find (\<lambda>(cidr, _). in_prefix addr cidr) blocked_prefixes = None"
  proof (cases "find (\<lambda>(cidr, _). in_prefix addr cidr) blocked_prefixes")
    case (Some kv)
    then have "kv \<in> set blocked_prefixes" unfolding find_Some_iff by (metis nth_mem)
    with Some reasons show ?thesis by (cases kv) auto
  qed simp
  ultimately show ?thesis by (auto simp: find_None_iff)
qed

lemma reason_v4_cases:
  "webhook_addr_rejection_reason (V4 a) = [] \<longleftrightarrow>
     a \<noteq> 0 \<and> a \<noteq> - 1 \<and> \<not> is_loopback (V4 a) \<and> \<not> is_multicast (V4 a) \<and> \<not> is_link_local_unicast (V4 a) \<and>
     \<not> is_private (V4 a) \<and> \<not> is_link_local_multicast (V4 a) \<and>
     list_all (\<lambda>(p, n). \<not> prefix_contains p n (V4 a)) parsed_prefixes"
  unfolding blocked_reason_empty [symmetric]
  by (simp add: webhook_addr_rejection_reason_def is_global_unicast_def Let_def)

lemma special_v4_exact:
  "webhook_addr_rejection_reason (V4 a) = [] \<longleftrightarrow> outside special_v4 (unat a)"
proof -
  define n where "n = unat a"
  have n: "n < 2 ^ 32" unfolding n_def using unsigned_less [of a] by simp
  have "a = 0 \<longleftrightarrow> n = 0" unfolding n_def by (simp add: word_unat_eq_iff)
  moreover have "a = - 1 \<longleftrightarrow> n = 2 ^ 32 - 1"
  proof -
    have "(- 1 :: 32 word) = 0xffffffff" by simp
    then show ?thesis unfolding n_def by (simp only: word_unat_eq_iff) simp
  qed
  moreover have top: "n < 0xe0000000 \<or> 0xf0000000 \<le> n \<Longrightarrow> n < 0xf0000000 \<Longrightarrow> n < 0xe0000000"
      "n < 0xe0000000 \<Longrightarrow> n < 0xf0000000" "n < 0xe0000000 \<Longrightarrow> n \<noteq> 0xffffffff" "0x01000000 \<le> n \<Longrightarrow> 0 < n"
    by auto
  ultimately show ?thesis
    using n unfolding reason_v4_cases parsed_prefixes
    by (simp add: is_loopback_def is_multicast_def is_link_local_unicast_def is_private_def is_link_local_multicast_def
        drop_bit_eq_iff drop_bit_interval div_eq_interval outside_def special_v4_def not_less not_le imp_conv_disj flip: n_def)
      (rule iffI; elim conjE; intro conjI; (assumption | (rule disjI1, assumption) | (rule top; assumption)))
qed

text \<open>A zone hides an address from every prefix and from the check for the unspecified address.\<close>

definition special_zoned :: "(nat \<times> nat) list" where
  "special_zoned = [(1, 2), (0xfc * 2 ^ 120, 0xfe * 2 ^ 120), (0xfe80 * 2 ^ 112, 0xfec0 * 2 ^ 112), (0xff * 2 ^ 120, 2 ^ 128)]"

fun public_address :: "ip_addr \<Rightarrow> bool" where
  "public_address NoAddr = False"
| "public_address (V4 a) = outside special_v4 (unat a)"
| "public_address (V6 b z) =
     (if drop_bit 32 b = 0xffff then outside special_v4 (unat (ucast b :: 32 word))
      else outside (if z = [] then special_v6 else special_zoned) (unat b))"

lemma reason_v6_cases:
  assumes "drop_bit 32 b \<noteq> (0xffff :: 128 word)"
  shows "webhook_addr_rejection_reason (V6 b z) = [] \<longleftrightarrow>
     \<not> (b = 0 \<and> z = []) \<and> b \<noteq> 1 \<and> \<not> is_multicast (V6 b z) \<and> \<not> is_link_local_unicast (V6 b z) \<and> \<not> is_private (V6 b z) \<and>
     list_all (\<lambda>(p, n). \<not> prefix_contains p n (V6 b z)) parsed_prefixes"
  unfolding blocked_reason_empty [symmetric]
  using assms
  by (auto simp: webhook_addr_rejection_reason_def is_global_unicast_def Let_def is_loopback_def is_multicast_def
      is_link_local_multicast_def)

lemma v6_class_intervals:
  assumes "drop_bit 32 b \<noteq> (0xffff :: 128 word)"
  shows "is_multicast (V6 b z) \<longleftrightarrow> 0xff * 2 ^ 120 \<le> unat b"
    and "is_link_local_unicast (V6 b z) \<longleftrightarrow> 0xfe80 * 2 ^ 112 \<le> unat b \<and> unat b < 0xfec0 * 2 ^ 112"
    and "is_private (V6 b z) \<longleftrightarrow> 0xfc * 2 ^ 120 \<le> unat b \<and> unat b < 0xfe * 2 ^ 120"
    and "b = 0 \<longleftrightarrow> unat b = 0" and "b = 1 \<longleftrightarrow> unat b = 1" and "unat b < 2 ^ 128"
proof -
  show n: "unat b < 2 ^ 128" using unsigned_less [of b] by simp
  have unmap: "addr_unmap (V6 b z) = V6 b z" using assms by simp
  show "is_multicast (V6 b z) \<longleftrightarrow> 0xff * 2 ^ 120 \<le> unat b"
    and "is_link_local_unicast (V6 b z) \<longleftrightarrow> 0xfe80 * 2 ^ 112 \<le> unat b \<and> unat b < 0xfec0 * 2 ^ 112"
    and "is_private (V6 b z) \<longleftrightarrow> 0xfc * 2 ^ 120 \<le> unat b \<and> unat b < 0xfe * 2 ^ 120"
    using n unfolding is_multicast_def is_link_local_unicast_def is_private_def unmap
    by (simp_all add: drop_bit_interval)
  show "b = 0 \<longleftrightarrow> unat b = 0" "b = 1 \<longleftrightarrow> unat b = 1" by (simp_all add: word_unat_eq_iff)
qed

lemma v6_unspecial:
  fixes n :: nat
  shows "2 \<le> n \<Longrightarrow> 0 < n" "2 \<le> n \<Longrightarrow> n \<noteq> Suc 0" "0 < n \<Longrightarrow> n \<noteq> Suc 0 \<Longrightarrow> 2 \<le> n"
    "n < 1 \<or> 2 \<le> n \<Longrightarrow> n \<noteq> Suc 0" "n \<noteq> Suc 0 \<Longrightarrow> n = 0 \<or> 2 \<le> n" "n = 0 \<or> 2 \<le> n \<Longrightarrow> n \<noteq> Suc 0"
  by auto

lemma special_v6_exact:
  assumes "drop_bit 32 b \<noteq> (0xffff :: 128 word)"
  shows "webhook_addr_rejection_reason (V6 b []) = [] \<longleftrightarrow> outside special_v6 (unat b)"
proof -
  define n where "n = unat b"
  note classes = v6_class_intervals(1-3) [OF assms, of "[]", folded n_def] v6_class_intervals(4-6) [OF assms, folded n_def]
  have pref: "list_all (\<lambda>(p, k). \<not> prefix_contains p k (V6 b [])) parsed_prefixes \<longleftrightarrow> \<not> (n = 0) \<and> \<not> (n = 1) \<and>
    \<not> (0xfe80 * 2 ^ 112 \<le> n \<and> n < 0xfec0 * 2 ^ 112) \<and> \<not> (0xfc * 2 ^ 120 \<le> n \<and> n < 0xfe * 2 ^ 120) \<and> \<not> (0xff * 2 ^ 120 \<le> n) \<and>
    \<not> (0x20010db8 * 2 ^ 96 \<le> n \<and> n < 0x20010db9 * 2 ^ 96)"
    using classes(6) unfolding parsed_prefixes by (simp add: drop_bit_eq_iff div_eq_interval classes(4,5) flip: n_def)
  show ?thesis
    unfolding reason_v6_cases [OF assms] pref outside_def special_v6_def classes(1-5)
    using classes(6) by (simp add: not_less not_le imp_conv_disj flip: n_def)
      (rule iffI; elim conjE; intro conjI; (assumption | (rule v6_unspecial; assumption)))
qed

lemma special_zoned_exact:
  assumes "drop_bit 32 b \<noteq> (0xffff :: 128 word)" and "z \<noteq> []"
  shows "webhook_addr_rejection_reason (V6 b z) = [] \<longleftrightarrow> outside special_zoned (unat b)"
proof -
  define n where "n = unat b"
  note classes = v6_class_intervals(1-3) [OF assms(1), of z, folded n_def] v6_class_intervals(4-6) [OF assms(1), folded n_def]
  have "list_all (\<lambda>(p, k). \<not> prefix_contains p k (V6 b z)) parsed_prefixes"
    using assms(2) by (simp add: parsed_prefixes)
  then show ?thesis
    unfolding reason_v6_cases [OF assms(1)] outside_def special_zoned_def classes(1-5)
    using classes(6) assms(2) by (simp add: not_less not_le imp_conv_disj flip: n_def)
      (rule iffI; elim conjE; intro conjI; (assumption | (rule v6_unspecial; assumption)))
qed

lemma special_filter: "webhook_addr_rejection_reason addr = [] \<longleftrightarrow> public_address addr"
proof (cases addr)
  case NoAddr
  then show ?thesis
    by (simp add: webhook_addr_rejection_reason_def is_loopback_def is_multicast_def is_link_local_unicast_def
        is_link_local_multicast_def)
next
  case (V4 a)
  then show ?thesis by (simp add: special_v4_exact)
next
  case (V6 b z)
  show ?thesis
  proof (cases "drop_bit 32 b = (0xffff :: 128 word)")
    case True
    have "webhook_addr_rejection_reason (V6 b z) = webhook_addr_rejection_reason (V4 (ucast b))"
      using True by (simp add: webhook_addr_rejection_reason_def)
    with V6 True show ?thesis by (simp add: special_v4_exact)
  next
    case False
    with V6 show ?thesis by (simp add: special_v6_exact special_zoned_exact)
  qed
qed

text \<open>C17 (the address filter is exactly the special-purpose registry): the two classifications in a row
  - by address class and by blocked prefix - reject an address iff it lies in one of thirteen intervals
  of IPv4 (the current network, private, carrier-grade NAT, loopback, link-local, protocol assignment,
  documentation, benchmarking, multicast, reserved and broadcast blocks), an IPv4-mapped IPv6
  address being judged as the IPv4 address, or in one of five of IPv6; a zone only leaves the checks of
  the unspecified and the documentation addresses out.\<close>

theorem address_filter_exact:
  "webhook_addr_rejection_reason addr = [] \<longleftrightarrow> public_address addr"
  by (rule special_filter)

section \<open>What an accepted URL can reach\<close>

lemma first_private_None: "first_private addrs = None \<longleftrightarrow> list_all public_address addrs"
  by (induction addrs) (simp_all add: Let_def special_filter [symmetric])



text \<open>What the filter lets through: the unspecified address under a zone, the metadata address behind
  the NAT64 prefix, and, without DNS checking, the absolute form of the local host name.\<close>

lemma zoned_unspecified_accepted: "validate_webhook_url ''https://[::%25eth0]/hook'' = Inr ()"
  by code_simp

lemma nat64_metadata_accepted: "validate_webhook_url ''https://[64:ff9b::169.254.169.254]/hook'' = Inr ()"
  by code_simp

lemma absolute_localhost_accepted: "validate_webhook_url ''https://localhost./hook'' = Inr ()"
  by code_simp

end
