(* ===== verification/Webhooks.thy ===== *)
theory Webhooks
  imports WebhookGate
begin

text \<open>
  The webhook tools (\<open>webhooks.go\<close>): their arguments, the masking of the signing secret, and the
  handlers for creating, updating, reading and deleting a webhook and for its delivery logs. A map is an
  association list; the nil map of a JSON null is \<open>None\<close>, and writing to it panics.
\<close>

section \<open>Arguments\<close>

datatype webhook_error =
    BadUrl webhook_url_error
  | UrlRequired
  | NameRequired
  | EventRequired
  | UserSourceRequired string
  | NothingToUpdate
  | BadLogStatus
  | TestUnsupported

type_synonym 'c webhook_failure = "('c, webhook_error) handler_error"

definition webhook_event_arg :: "members \<Rightarrow> ('c webhook_failure, string) result" where
  "webhook_event_arg args =
     (let event = string_arg args ''webhook_event'' in
      if event \<noteq> [] then Inr event
      else bind_result (strict_string_slice_arg args ''events'')
             (\<lambda>(events, _). Inr (case events of e # _ \<Rightarrow> e | [] \<Rightarrow> [])))"

definition webhook_trigger_source_args ::
  "members \<Rightarrow> string \<Rightarrow> ('c webhook_failure, string \<times> string list) result" where
  "webhook_trigger_source_args args workspace =
     (let source_type = (if string_arg args ''trigger_source_type'' = [] then ''WORKSPACE_ID''
                         else string_arg args ''trigger_source_type'')
      in bind_result (strict_string_slice_arg args ''trigger_source'')
           (\<lambda>(source, _). Inr (source_type, if source = [] then [workspace] else source)))"

definition webhook_user_event_requires_user_source :: "string \<Rightarrow> bool" where
  "webhook_user_event_requires_user_source event \<longleftrightarrow>
     to_upper (trim_space event) \<in> {''USER_EMAIL_CHANGED'', ''USER_UPDATED''}"

definition validate_webhook_user_event_trigger_source ::
  "string \<Rightarrow> string \<Rightarrow> string list \<Rightarrow> ('c webhook_failure, unit) result" where
  "validate_webhook_user_event_trigger_source event source_type source =
     (if \<not> webhook_user_event_requires_user_source event then Inr ()
      else if to_upper (trim_space source_type) \<noteq> ''USER_ID'' then
        Inl (Domain (UserSourceRequired (to_upper (trim_space event))))
      else if list_ex (\<lambda>item. trim_space item \<noteq> []) source then Inr ()
      else Inl (Domain (UserSourceRequired (to_upper (trim_space event)))))"

definition webhook_string_from_payload :: "members \<Rightarrow> string \<Rightarrow> string" where
  "webhook_string_from_payload payload key = str_member payload key"

definition webhook_string_slice_from_payload :: "members \<Rightarrow> string \<Rightarrow> string list" where
  "webhook_string_slice_from_payload payload key =
     (case map_of payload key of
        Some (JStrs v) \<Rightarrow> v
      | Some (JArr v) \<Rightarrow> List.map_filter as_str v
      | Some (JStr v) \<Rightarrow> if trim_space v = [] then [] else [v]
      | _ \<Rightarrow> [])"

section \<open>The signing secret\<close>

definition mask_webhook_auth_token :: "members \<Rightarrow> members" where
  "mask_webhook_auth_token webhook =
     (let raw = (case map_of webhook ''authToken'' of
                   Some (JStr s) \<Rightarrow> Some s
                 | _ \<Rightarrow> (case map_of webhook ''auth_token'' of Some (JStr s) \<Rightarrow> Some s | _ \<Rightarrow> None));
          w = AList.delete ''auth_token'' webhook
      in case raw of
           None \<Rightarrow> (let w1 = AList.delete ''authToken'' w in
                    if map_of w1 ''secret_token_present'' = None
                    then AList.update ''secret_token_present'' (JBool False) w1 else w1)
         | Some s \<Rightarrow>
             if s = [] then
               (let w1 = AList.delete ''authToken'' w in
                if map_of w1 ''secret_token_present'' = None
                then AList.update ''secret_token_present'' (JBool False) w1 else w1)
             else (let w1 = AList.update ''secret_token_present'' (JBool True) w in
               AList.delete ''authToken''
                 (AList.update ''auth_token_suffix''
                   (JStr (if length s \<le> 4 then [] else drop (length s - 4) s)) w1)))"

fun mask_decoded :: "members option \<Rightarrow> ('c webhook_failure, members) result" where
  "mask_decoded None = Inl Panicked"
| "mask_decoded (Some m) = Inr (mask_webhook_auth_token m)"

definition webhook_dry_run_preview :: "string \<Rightarrow> members \<Rightarrow> members" where
  "webhook_dry_run_preview tool payload =
     [(''dry_run'', JBool True), (''tool'', JStr tool), (''payload'', JObj (mask_webhook_auth_token payload)),
      (''note'', JStr ''No changes were made.'')]"

section \<open>Handlers\<close>

record webhook_service =
  ws_client :: http_client
  ws_workspace :: string
  ws_policy :: webhook_policy
  ws_lookup :: "string \<Rightarrow> ip_addr list option"

definition accepted_url :: "webhook_service \<Rightarrow> string \<Rightarrow> ('c webhook_failure, unit) result" where
  "accepted_url sv url0 =
     map_error (\<lambda>e. Domain (BadUrl e)) (validate_webhook_url_for_service (ws_policy sv) (ws_lookup sv) url0)"

definition service_workspace ::
  "webhook_service \<Rightarrow> ('w, 'c) api \<Rightarrow> ('w, 'c webhook_failure, string) handler_m" where
  "service_workspace sv api = resolve_workspace_id (ws_workspace sv) (ws_client sv) api"

definition tool_path :: "string \<Rightarrow> string list \<Rightarrow> ('c webhook_failure, string) result" where
  "tool_path workspace segs = map_error BadPath (workspace_path workspace segs)"

definition masked_call ::
  "('w, 'c) api \<Rightarrow> json http_call \<Rightarrow> ('w, 'c webhook_failure, members) handler_m" where
  "masked_call api c = bind_m (api_call api c) (\<lambda>v. of_result (bind_result (decode_map v) mask_decoded))"

definition webhook_id_arg :: "members \<Rightarrow> ('c webhook_failure, string) result" where
  "webhook_id_arg args =
     (let ident = string_arg args ''webhook_id'' in
      map_error BadId (bind_result (validate_id ident ''webhook_id'') (\<lambda>_. Inr ident)))"

definition get_webhook ::
  "webhook_service \<Rightarrow> ('w, 'c) api \<Rightarrow> members \<Rightarrow> ('w, 'c webhook_failure, tool_result) handler_m" where
  "get_webhook sv api args =
     bind_m (of_result (webhook_id_arg args)) (\<lambda>ident.
     bind_m (service_workspace sv api) (\<lambda>ws.
     bind_m (of_result (tool_path ws [''webhooks'', ident])) (\<lambda>path.
     bind_m (masked_call api (hc_get (ws_client sv) path [])) (\<lambda>webhook.
     of_result (Inr (ok_result ''clockify_get_webhook'' (JObj webhook) [(''workspaceId'', JStr ws)]))))))"

text \<open>The checks of \<open>CreateWebhook\<close> before it needs the workspace, and the body it sends.\<close>

definition create_arguments ::
  "webhook_service \<Rightarrow> members \<Rightarrow> ('c webhook_failure, string \<times> string \<times> string) result" where
  "create_arguments sv args =
     (let url0 = string_arg args ''url'' in
      if url0 = [] then Inl (Domain UrlRequired)
      else bind_result (accepted_url sv url0) (\<lambda>_.
        (let name = string_arg args ''name'' in
         if name = [] then Inl (Domain NameRequired)
         else bind_result (webhook_event_arg args) (\<lambda>event.
           if event = [] then Inl (Domain EventRequired) else Inr (url0, name, event)))))"

definition create_payload ::
  "members \<Rightarrow> string \<Rightarrow> string \<times> string \<times> string \<Rightarrow> ('c webhook_failure, members) result" where
  "create_payload args ws = (\<lambda>(url0, name, event).
     bind_result (webhook_trigger_source_args args ws) (\<lambda>(source_type, source).
     bind_result (validate_webhook_user_event_trigger_source event source_type source) (\<lambda>_.
     Inr ([(''url'', JStr url0), (''webhookEvent'', JStr event), (''triggerSourceType'', JStr source_type),
           (''triggerSource'', JStrs source), (''name'', JStr name)] @
          (let token = string_arg args ''auth_token'' in if token = [] then [] else [(''authToken'', JStr token)])))))"

definition create_webhook ::
  "webhook_service \<Rightarrow> ('w, 'c) api \<Rightarrow> members \<Rightarrow> ('w, 'c webhook_failure, tool_result) handler_m" where
  "create_webhook sv api args =
     bind_m (of_result (create_arguments sv args)) (\<lambda>parts.
     bind_m (service_workspace sv api) (\<lambda>ws.
     bind_m (of_result (create_payload args ws parts)) (\<lambda>payload.
     if bool_member args ''dry_run'' then
       of_result (Inr (ok_result ''clockify_create_webhook''
         (JObj (webhook_dry_run_preview ''clockify_create_webhook'' payload)) [(''workspaceId'', JStr ws)]))
     else
       bind_m (of_result (tool_path ws [''webhooks''])) (\<lambda>path.
       bind_m (masked_call api (hc_post (ws_client sv) path (Some (JObj payload)))) (\<lambda>webhook.
       of_result (Inr (ok_result ''clockify_create_webhook'' (JObj webhook) [(''workspaceId'', JStr ws)])))))))"

text \<open>The fields an update overwrites; the flag says whether there was any.\<close>

definition put_if :: "bool \<Rightarrow> string \<Rightarrow> json \<Rightarrow> members \<times> bool \<Rightarrow> members \<times> bool" where
  "put_if b key v p = (if b then (AList.update key v (fst p), True) else p)"

definition kept_fields :: "members \<Rightarrow> members" where
  "kept_fields existing =
     List.map_filter (\<lambda>k. map_option (Pair k) (map_of existing k))
       [''name'', ''url'', ''webhookEvent'', ''triggerSourceType'', ''triggerSource'']"

definition update_fields :: "members \<Rightarrow> string \<Rightarrow> string list \<Rightarrow> members \<Rightarrow> members \<times> bool" where
  "update_fields args event source base =
     (let url0 = string_arg args ''url'';
          source_type = string_arg args ''trigger_source_type'';
          name = string_arg args ''name'';
          token = string_arg args ''auth_token''
      in put_if (token \<noteq> []) ''authToken'' (JStr token)
           (put_if (name \<noteq> []) ''name'' (JStr name)
             (put_if (source \<noteq> []) ''triggerSource'' (JStrs source)
               (put_if (source_type \<noteq> []) ''triggerSourceType'' (JStr source_type)
                 (put_if (event \<noteq> []) ''webhookEvent'' (JStr event)
                   (put_if (url0 \<noteq> []) ''url'' (JStr url0) (base, False)))))))"

definition update_payload ::
  "webhook_service \<Rightarrow> members \<Rightarrow> members \<Rightarrow> ('c webhook_failure, members) result" where
  "update_payload sv args existing =
     (let url0 = string_arg args ''url'' in
      bind_result (if url0 \<noteq> [] then accepted_url sv url0 else Inr ()) (\<lambda>_.
      bind_result (webhook_event_arg args) (\<lambda>event.
      bind_result (strict_string_slice_arg args ''trigger_source'') (\<lambda>(source, _).
      (let payload = fst (update_fields args event source (kept_fields existing)) in
       if \<not> snd (update_fields args event source (kept_fields existing)) then Inl (Domain NothingToUpdate)
       else bind_result
         (validate_webhook_user_event_trigger_source
           (webhook_string_from_payload payload ''webhookEvent'')
           (webhook_string_from_payload payload ''triggerSourceType'')
           (webhook_string_slice_from_payload payload ''triggerSource''))
         (\<lambda>_. Inr payload))))))"

definition fetch_webhook ::
  "('w, 'c) api \<Rightarrow> json http_call \<Rightarrow> ('w, 'c webhook_failure, members option) handler_m" where
  "fetch_webhook api c = bind_m (api_call api c) (\<lambda>v. of_result (decode_map v))"

text \<open>Reading a nil map is reading an empty one; cloning it leaves it nil.\<close>

definition members_of :: "members option \<Rightarrow> members" where
  "members_of m = (case m of Some kvs \<Rightarrow> kvs | None \<Rightarrow> [])"

definition update_webhook ::
  "webhook_service \<Rightarrow> ('w, 'c) api \<Rightarrow> members \<Rightarrow> ('w, 'c webhook_failure, tool_result) handler_m" where
  "update_webhook sv api args =
     bind_m (of_result (webhook_id_arg args)) (\<lambda>ident.
     bind_m (service_workspace sv api) (\<lambda>ws.
     bind_m (of_result (tool_path ws [''webhooks'', ident])) (\<lambda>path.
     bind_m (fetch_webhook api (hc_get (ws_client sv) path [])) (\<lambda>existing.
     bind_m (of_result (update_payload sv args (members_of existing))) (\<lambda>payload.
     (let meta = [(''workspaceId'', JStr ws), (''webhookId'', JStr ident)] in
      if bool_member args ''dry_run'' then
        bind_m (of_result (mask_decoded existing)) (\<lambda>current.
          of_result (Inr (ok_result ''clockify_update_webhook''
            (JObj [(''dry_run'', JBool True), (''tool'', JStr ''clockify_update_webhook''), (''current'', JObj current),
                   (''payload'', JObj (mask_webhook_auth_token payload)), (''note'', JStr ''No changes were made.'')]) meta)))
      else
        bind_m (masked_call api (hc_put (ws_client sv) path (Some (JObj payload)))) (\<lambda>webhook.
          of_result (Inr (ok_result ''clockify_update_webhook'' (JObj webhook) meta)))))))))"

definition delete_webhook ::
  "webhook_service \<Rightarrow> ('w, 'c) api \<Rightarrow> members \<Rightarrow> ('w, 'c webhook_failure, tool_result) handler_m" where
  "delete_webhook sv api args =
     bind_m (of_result (webhook_id_arg args)) (\<lambda>ident.
     bind_m (service_workspace sv api) (\<lambda>ws.
     bind_m (of_result (tool_path ws [''webhooks'', ident])) (\<lambda>path.
     if bool_member args ''dry_run'' then
       bind_m (masked_call api (hc_get (ws_client sv) path [])) (\<lambda>webhook.
         of_result (Inr \<lparr>tr_action = ''clockify_delete_webhook'',
           tr_data = dry_run_wrap (JObj webhook) ''clockify_delete_webhook'', tr_meta = [(''workspaceId'', JStr ws)]\<rparr>))
     else
       bind_m (api_call api (hc_delete (ws_client sv) path)) (\<lambda>_.
         of_result (Inr (ok_result ''clockify_delete_webhook''
           (JObj [(''deleted'', JBool True), (''webhookId'', JStr ident)]) [(''workspaceId'', JStr ws)]))))))"

definition test_webhook :: "members \<Rightarrow> ('w, 'c webhook_failure, tool_result) handler_m" where
  "test_webhook args = bind_m (of_result (webhook_id_arg args)) (\<lambda>_. of_result (Inl (Domain TestUnsupported)))"

text \<open>The search body of \<open>ListWebhookLogs\<close>.\<close>

definition webhook_log_body :: "members \<Rightarrow> ('c webhook_failure, members) result" where
  "webhook_log_body args =
     (let from = trim_space (string_arg args ''from'');
          to = trim_space (string_arg args ''to'');
          status = to_upper (trim_space (string_arg args ''status''));
          body = (if from = [] then [] else [(''from'', JStr from)]) @ (if to = [] then [] else [(''to'', JStr to)])
      in if status \<noteq> [] \<and> status \<noteq> ''ALL'' \<and> status \<noteq> ''SUCCEEDED'' \<and> status \<noteq> ''FAILED'' then Inl (Domain BadLogStatus)
         else Inr (body @ (if status = [] then [] else [(''status'', JStr status)]) @
           (case map_of args ''sort_by_newest'' of Some (JBool b) \<Rightarrow> [(''sortByNewest'', JBool b)] | _ \<Rightarrow> [])))"

text \<open>The page of \<open>ListWebhooks\<close> when upstream returned more webhooks than asked for; a slice out of its
  bounds panics.\<close>

definition webhook_page_items :: "'a list \<Rightarrow> int \<Rightarrow> int \<Rightarrow> ('c webhook_failure, 'a list) result" where
  "webhook_page_items items page page_size =
     (let n = int (length items) in
      if n \<le> page_size then Inr items
      else (let start = wrap64 (wrap64 (page - 1) * page_size); stop = min (wrap64 (start + page_size)) n in
        if start \<ge> n then Inr []
        else if start < 0 \<or> stop < start then Inl Panicked
        else Inr (take (nat (stop - start)) (drop (nat start) items))))"

definition webhook_event_enum :: "string list" where
  "webhook_event_enum =
     [''APPROVAL_REQUEST_STATUS_UPDATED'', ''ASSIGNMENT_CREATED'', ''ASSIGNMENT_DELETED'',
      ''ASSIGNMENT_PUBLISHED'', ''ASSIGNMENT_UPDATED'', ''BALANCE_UPDATED'',
      ''BILLABLE_RATE_UPDATED'', ''CLIENT_DELETED'', ''CLIENT_UPDATED'',
      ''COST_RATE_UPDATED'', ''EXPENSE_CREATED'', ''EXPENSE_DELETED'',
      ''EXPENSE_RESTORED'', ''EXPENSE_UPDATED'', ''INVOICE_UPDATED'',
      ''LIMITED_USERS_ADDED_TO_WORKSPACE'', ''NEW_APPROVAL_REQUEST'', ''NEW_CLIENT'',
      ''NEW_INVOICE'', ''NEW_PROJECT'', ''NEW_TAG'',
      ''NEW_TASK'', ''NEW_TIME_ENTRY'', ''NEW_TIMER_STARTED'',
      ''PROJECT_DELETED'', ''PROJECT_UPDATED'', ''TAG_DELETED'',
      ''TAG_UPDATED'', ''TASK_DELETED'', ''TASK_UPDATED'',
      ''TIME_ENTRY_DELETED'', ''TIME_ENTRY_RESTORED'', ''TIME_ENTRY_SPLIT'',
      ''TIME_ENTRY_UPDATED'', ''TIME_OFF_REQUEST_APPROVED'', ''TIME_OFF_REQUEST_REJECTED'',
      ''TIME_OFF_REQUEST_STARTED'', ''TIME_OFF_REQUEST_UPDATED'', ''TIME_OFF_REQUEST_WITHDRAWN'',
      ''TIME_OFF_REQUESTED'', ''TIMER_STOPPED'', ''USER_ACTIVATED_ON_WORKSPACE'',
      ''USER_DEACTIVATED_ON_WORKSPACE'', ''USER_DELETED_FROM_WORKSPACE'', ''USER_EMAIL_CHANGED'',
      ''USER_GROUP_CREATED'', ''USER_GROUP_DELETED'', ''USER_GROUP_UPDATED'',
      ''USER_JOINED_WORKSPACE'', ''USER_UPDATED'', ''USERS_INVITED_TO_WORKSPACE'']"

definition list_webhook_events ::
  "webhook_service \<Rightarrow> ('w, 'c) api \<Rightarrow> ('w, 'c webhook_failure, tool_result) handler_m" where
  "list_webhook_events sv api =
     bind_m (service_workspace sv api) (\<lambda>ws.
       of_result (Inr (ok_result ''clockify_list_webhook_events'' (JStrs webhook_event_enum)
         [(''workspaceId'', JStr ws), (''count'', JInt (int (length webhook_event_enum)))])))"

section \<open>What reaches Clockify\<close>

lemma accepted_url_ok:
  "accepted_url sv url0 = Inr () \<longleftrightarrow> validate_webhook_url_for_service (ws_policy sv) (ws_lookup sv) url0 = Inr ()"
  by (simp add: accepted_url_def map_error_def split: sum.split)

lemma create_arguments_ok:
  "create_arguments sv args = Inr (url0, name, event) \<Longrightarrow>
     url0 = string_arg args ''url'' \<and> validate_webhook_url_for_service (ws_policy sv) (ws_lookup sv) url0 = Inr ()"
  by (auto simp: create_arguments_def Let_def bind_result_eq_Inr accepted_url_ok split: if_splits)

lemma create_payload_url:
  "create_payload args ws (url0, name, event) = Inr payload \<Longrightarrow> map_of payload ''url'' = Some (JStr url0)"
  by (auto simp: create_payload_def bind_result_eq_Inr split: prod.splits)

lemma put_if_other: "k \<noteq> key \<Longrightarrow> map_of (fst (put_if b key v p)) k = map_of (fst p) k"
  by (simp add: put_if_def AList.update_conv')

lemma map_of_kept:
  "map_of (List.map_filter (\<lambda>k. map_option (Pair k) (f k)) ks) key = (if key \<in> set ks then f key else None)"
  by (induction ks) (auto simp: map_filter_simps split: option.split)

lemma kept_url: "map_of (kept_fields existing) ''url'' = map_of existing ''url''"
  unfolding kept_fields_def map_of_kept by simp

lemma update_fields_url:
  "map_of (fst (update_fields args event source base)) ''url'' =
     (if string_arg args ''url'' = [] then map_of base ''url'' else Some (JStr (string_arg args ''url'')))"
proof -
  have "map_of (fst (update_fields args event source base)) ''url'' =
      map_of (fst (put_if (string_arg args ''url'' \<noteq> []) ''url'' (JStr (string_arg args ''url'')) (base, False))) ''url''"
    unfolding update_fields_def Let_def
    by ((rule trans [OF put_if_other], (simp; fail))+, rule refl)
  then show ?thesis by (simp add: put_if_def AList.update_conv')
qed

lemma update_payload_url:
  assumes "update_payload sv args existing = (Inr payload :: ('c webhook_failure, members) result)"
  shows "map_of payload ''url'' = map_of existing ''url'' \<or>
    (map_of payload ''url'' = Some (JStr (string_arg args ''url'')) \<and>
     validate_webhook_url_for_service (ws_policy sv) (ws_lookup sv) (string_arg args ''url'') = Inr ())"
proof -
  from assms obtain event source where
    payload: "payload = fst (update_fields args event source (kept_fields existing))" and
    gate: "(if string_arg args ''url'' \<noteq> [] then accepted_url sv (string_arg args ''url'') else Inr ()) =
      (Inr () :: ('c webhook_failure, unit) result)"
    unfolding update_payload_def Let_def
    by (auto simp: bind_result_eq_Inr simp del: if_split split: if_split_asm)
  show ?thesis
  proof (cases "string_arg args ''url'' = []")
    case True
    then show ?thesis unfolding payload update_fields_url kept_url by simp
  next
    case False
    with gate show ?thesis unfolding payload update_fields_url by (simp add: accepted_url_ok)
  qed
qed

lemma api_call_state: "snd (api_call api c s) = s\<lparr>ts_world := snd (api c (ts_world s))\<rparr>"
  by (simp add: api_call_def split: prod.split sum.split)

lemma masked_call_state: "snd (masked_call api c s) = s\<lparr>ts_world := snd (api c (ts_world s))\<rparr>"
  by (simp add: masked_call_def snd_bind_m api_call_state split: sum.split)

lemma fetch_webhook_state: "snd (fetch_webhook api c s) = s\<lparr>ts_world := snd (api c (ts_world s))\<rparr>"
  by (simp add: fetch_webhook_def snd_bind_m api_call_state split: sum.split)

lemma service_workspace_state: "ws_workspace sv \<noteq> [] \<Longrightarrow> snd (service_workspace sv api s) = s"
  by (simp add: service_workspace_def resolve_pinned)

definition passed_gate :: "webhook_service \<Rightarrow> string \<Rightarrow> bool" where
  "passed_gate sv url0 \<longleftrightarrow> validate_webhook_url_for_service (ws_policy sv) (ws_lookup sv) url0 = Inr ()"

lemma create_writes_checked:
  assumes "ws_workspace sv \<noteq> []"
  shows "snd (create_webhook sv api args s) = s \<or>
      (\<exists>path payload. \<not> bool_member args ''dry_run'' \<and>
         snd (create_webhook sv api args s) =
           s\<lparr>ts_world := snd (api (hc_post (ws_client sv) path (Some (JObj payload))) (ts_world s))\<rparr> \<and>
         map_of payload ''url'' = Some (JStr (string_arg args ''url'')) \<and> passed_gate sv (string_arg args ''url''))"
  unfolding create_webhook_def passed_gate_def
  by (auto simp: snd_bind_m service_workspace_state [OF assms] masked_call_state split: sum.split
      dest!: create_arguments_ok create_payload_url)

lemma update_writes_checked:
  fixes sv :: webhook_service and api :: "('w, 'c) api"
  assumes "ws_workspace sv \<noteq> []"
  shows "snd (update_webhook sv api args s) = s \<or>
      (\<exists>path w1. w1 = snd (api (hc_get (ws_client sv) path []) (ts_world s)) \<and>
         (snd (update_webhook sv api args s) = s\<lparr>ts_world := w1\<rparr> \<or>
          (\<exists>existing payload. \<not> bool_member args ''dry_run'' \<and>
             fst (fetch_webhook api (hc_get (ws_client sv) path []) s) = (Inr existing :: ('c webhook_failure, _) result) \<and>
             snd (update_webhook sv api args s) =
               s\<lparr>ts_world := snd (api (hc_put (ws_client sv) path (Some (JObj payload))) w1)\<rparr> \<and>
             (map_of payload ''url'' = map_of (members_of existing) ''url'' \<or>
              (map_of payload ''url'' = Some (JStr (string_arg args ''url'')) \<and> passed_gate sv (string_arg args ''url''))))))"
proof -
  note state = snd_bind_m service_workspace_state [OF assms] masked_call_state fetch_webhook_state
  show ?thesis
  proof (cases "\<exists>ident ws path. webhook_id_arg args = (Inr ident :: ('c webhook_failure, _) result) \<and>
      fst (service_workspace sv api s) = Inr ws \<and> tool_path ws [''webhooks'', ident] = (Inr path :: ('c webhook_failure, _) result)")
    case False
    then have "snd (update_webhook sv api args s) = s"
      by (cases "webhook_id_arg args :: ('c webhook_failure, _) result"; cases "fst (service_workspace sv api s)")
        (auto simp: update_webhook_def state split: sum.split)
    then show ?thesis by blast
  next
    case True
    then obtain ident ws path where fetched: "webhook_id_arg args = (Inr ident :: ('c webhook_failure, _) result)"
        "fst (service_workspace sv api s) = Inr ws" "tool_path ws [''webhooks'', ident] = (Inr path :: ('c webhook_failure, _) result)"
      by blast
    define w1 where "w1 = snd (api (hc_get (ws_client sv) path []) (ts_world s))"
    show ?thesis
    proof (rule disjI2, intro exI [of _ path] exI [of _ w1] conjI)
      show "snd (update_webhook sv api args s) = s\<lparr>ts_world := w1\<rparr> \<or>
          (\<exists>existing payload. \<not> bool_member args ''dry_run'' \<and>
             fst (fetch_webhook api (hc_get (ws_client sv) path []) s) = (Inr existing :: ('c webhook_failure, _) result) \<and>
             snd (update_webhook sv api args s) =
               s\<lparr>ts_world := snd (api (hc_put (ws_client sv) path (Some (JObj payload))) w1)\<rparr> \<and>
             (map_of payload ''url'' = map_of (members_of existing) ''url'' \<or>
              (map_of payload ''url'' = Some (JStr (string_arg args ''url'')) \<and> passed_gate sv (string_arg args ''url''))))"
        unfolding update_webhook_def Let_def passed_gate_def
        using fetched
        by (auto simp: state w1_def split: sum.split dest: update_payload_url)
    qed (simp add: w1_def)
  qed
qed

text \<open>C23 (no webhook delivers to an unchecked URL): with the workspace pinned, creating a webhook leaves
  Clockify alone or makes exactly one call, the POST of a payload whose URL is the caller's and passed the
  gate, and this only outside a dry run; updating one reads the webhook and then either stops or makes
  exactly one more call, the PUT of a payload whose URL is the one it read or the caller's that passed
  the gate, again only outside a dry run.\<close>

theorem webhook_writes_checked:
  fixes api :: "('w, 'c) api"
  assumes "ws_workspace sv \<noteq> []"
  shows "(snd (create_webhook sv api args s) = s \<or>
      (\<exists>path payload. \<not> bool_member args ''dry_run'' \<and>
         snd (create_webhook sv api args s) =
           s\<lparr>ts_world := snd (api (hc_post (ws_client sv) path (Some (JObj payload))) (ts_world s))\<rparr> \<and>
         map_of payload ''url'' = Some (JStr (string_arg args ''url'')) \<and> passed_gate sv (string_arg args ''url''))) \<and>
    (snd (update_webhook sv api args s) = s \<or>
      (\<exists>path w1. w1 = snd (api (hc_get (ws_client sv) path []) (ts_world s)) \<and>
         (snd (update_webhook sv api args s) = s\<lparr>ts_world := w1\<rparr> \<or>
          (\<exists>existing payload. \<not> bool_member args ''dry_run'' \<and>
             fst (fetch_webhook api (hc_get (ws_client sv) path []) s) = (Inr existing :: ('c webhook_failure, _) result) \<and>
             snd (update_webhook sv api args s) =
               s\<lparr>ts_world := snd (api (hc_put (ws_client sv) path (Some (JObj payload))) w1)\<rparr> \<and>
             (map_of payload ''url'' = map_of (members_of existing) ''url'' \<or>
              (map_of payload ''url'' = Some (JStr (string_arg args ''url'')) \<and> passed_gate sv (string_arg args ''url'')))))))"
  by (rule conjI [OF create_writes_checked [OF assms] update_writes_checked [OF assms]])

definition demo_webhooks :: webhook_service where
  "demo_webhooks = \<lparr>ws_client = new_client ''k'' host_main 0 0, ws_workspace = ''w1'',
     ws_policy = \<lparr>wp_validate_dns = False, wp_allowed_domains = []\<rparr>, ws_lookup = (\<lambda>_. None)\<rparr>"

theorem webhook_writes_checked_witness:
  "snd (create_webhook demo_webhooks (\<lambda>c w. (Inr JNull :: (unit, json) result, Suc w)) [(''url'', JStr ''http://x'')]
     \<lparr>ts_workspace_cache = [], ts_user_cache = None, ts_world = 0\<rparr>) = \<lparr>ts_workspace_cache = [], ts_user_cache = None, ts_world = 0\<rparr>"
proof -
  have "\<not> passed_gate demo_webhooks (string_arg [(''url'', JStr ''http://x'')] ''url'')" by code_simp
  then show ?thesis
    using webhook_writes_checked [of demo_webhooks "\<lambda>c w. (Inr JNull :: (unit, json) result, Suc w)" "[(''url'', JStr ''http://x'')]"
        "\<lparr>ts_workspace_cache = [], ts_user_cache = None, ts_world = 0\<rparr>"]
    by (simp add: demo_webhooks_def)
qed

end
