(* ===== verification/RawApi.thy ===== *)
theory RawApi
  imports ToolResult Safety
begin

text \<open>
  The raw API fallback (\<open>oneuser_raw_api.go\<close>, \<open>raw_allowlist.go\<close>): its gates, the fence around the
  pinned workspace, the documented-route check and the request it makes, with the URL the client builds
  from it (\<open>doOnceValues\<close>). The generated table of documented routes is the parameter \<open>routes\<close>;
  \<open>hash\<close> is \<open>safety.HashCanonical\<close> and \<open>sprint\<close> is \<open>fmt.Sprint\<close> of what is no string, number or boolean
  of a decoded argument.
\<close>

section \<open>Paths\<close>

datatype raw_error =
    MethodRequired
  | ToolsDisabled
  | GetDisabled
  | WritesDisabled string
  | PathRequired
  | NotRelative
  | UrlSyntax
  | HasHost
  | BadEscape
  | ControlInPath
  | DuplicatedSlash
  | DotSegment
  | OutsideFence
  | SensitiveRead string
  | Undocumented string string
  | ReportsPatch
  | UnsupportedMethod string

definition trim_prefix :: "string \<Rightarrow> string \<Rightarrow> string" where
  "trim_prefix s p = (if has_prefix s p then drop (length p) s else s)"

definition within_fence :: "string \<Rightarrow> string \<Rightarrow> bool" where
  "within_fence ws path \<longleftrightarrow>
     has_prefix path (''/workspaces/'' @ ws @ ''/'') \<or> path = ''/workspaces/'' @ ws \<or> path = ''/user''"

definition decoded_path :: "string \<Rightarrow> (raw_error, string) result" where
  "decoded_path raw =
     (case url_parse raw of
        None \<Rightarrow> Inl UrlSyntax
      | Some u \<Rightarrow>
          if url_scheme u \<noteq> [] \<or> url_host u \<noteq> [] then Inl HasHost
          else (case url_unescape EncodePathSegment (url_escaped_path u) of
                  None \<Rightarrow> Inl BadEscape
                | Some path \<Rightarrow>
                    if list_ex is_control path then Inl ControlInPath
                    else if CHR 0x5C \<in> set path then Inl NotRelative
                    else Inr (if has_prefix path ''/'' then path else CHR ''/'' # path)))"

text \<open>The first fault among the segments; the one before the first slash may be empty.\<close>

fun segment_fault :: "bool \<Rightarrow> string list \<Rightarrow> raw_error option" where
  "segment_fault first [] = None"
| "segment_fault first (seg # segs) =
     (if \<not> first \<and> seg = [] then Some DuplicatedSlash
      else if seg = ''.'' \<or> seg = ''..'' then Some DotSegment
      else segment_fault False segs)"

definition safe_raw_path :: "string \<Rightarrow> string \<Rightarrow> (raw_error, string) result" where
  "safe_raw_path ws raw0 =
     (let raw = trim_space raw0 in
      if raw = [] then Inl PathRequired
      else (let r = trim_prefix (trim_prefix (replace_all raw ''{workspaceId}'' ws) ''/api/v1'') ''/v1'' in
        if str_contains r ''://'' \<or> CHR 0x5C \<in> set r \<or> str_contains r ''..'' \<or> contains_any r ''?#'' then Inl NotRelative
        else bind_result (decoded_path r) (\<lambda>path.
          (case segment_fault True (split_on (CHR ''/'') path) of
             Some e \<Rightarrow> Inl e
           | None \<Rightarrow> if within_fence ws path then Inr path else Inl OutsideFence))))"

definition path_parts :: "string \<Rightarrow> string list" where
  "path_parts path = split_on (CHR ''/'') (trim_char (CHR ''/'') path)"

definition sensitive_segments :: "string list" where
  "sensitive_segments =
     [''approvals'', ''audit-log'', ''balances'', ''billing'', ''groups'', ''invoices'', ''payments'',
      ''settings'', ''time-off'', ''users'', ''webhooks'', ''workspace-settings'']"

definition sensitive_raw_read_path :: "string \<Rightarrow> bool" where
  "sensitive_raw_read_path path \<longleftrightarrow>
     (let parts = path_parts path in
      length parts \<ge> 3 \<and> hd parts = ''workspaces'' \<and> list_ex (\<lambda>s. s \<in> set sensitive_segments) (drop 2 parts))"

definition is_reports_path :: "string \<Rightarrow> bool" where
  "is_reports_path path \<longleftrightarrow>
     (let parts = path_parts path in
      length parts \<ge> 3 \<and> hd parts = ''workspaces'' \<and> (parts ! 2 = ''reports'' \<or> parts ! 2 = ''shared-reports''))"

definition raw_sensitive_read_toolset_allowed :: "string \<Rightarrow> bool" where
  "raw_sensitive_read_toolset_allowed toolset \<longleftrightarrow> to_lower (trim_space toolset) \<in> {''admin'', ''all''}"

section \<open>The documented routes\<close>

definition split_raw_allowlist_path :: "string \<Rightarrow> string list" where
  "split_raw_allowlist_path path = path_parts (trim_space path)"

definition raw_write_allowlist :: "string list \<Rightarrow> string \<Rightarrow> string list list" where
  "raw_write_allowlist routes meth =
     List.map_filter (\<lambda>route.
       (case cut_byte (CHR '' '') route of
          None \<Rightarrow> None
        | Some (m, path) \<Rightarrow> if to_upper (trim_space m) = meth then Some (split_raw_allowlist_path path) else None)) routes"

definition is_template_segment :: "string \<Rightarrow> bool" where
  "is_template_segment seg \<longleftrightarrow> length seg \<ge> 2 \<and> hd seg = CHR ''{'' \<and> last seg = CHR ''}''"

definition raw_allowlist_segments_match :: "string list \<Rightarrow> string list \<Rightarrow> bool" where
  "raw_allowlist_segments_match template request \<longleftrightarrow>
     length template = length request \<and>
     list_all (\<lambda>(seg, r). if is_template_segment seg then r \<noteq> [] else seg = r) (zip template request)"

definition is_documented_raw_write_route :: "string list \<Rightarrow> string \<Rightarrow> string \<Rightarrow> bool" where
  "is_documented_raw_write_route routes meth path \<longleftrightarrow>
     list_ex (\<lambda>t. raw_allowlist_segments_match t (split_raw_allowlist_path path))
       (raw_write_allowlist routes (to_upper (trim_space meth)))"

section \<open>Queries\<close>

fun scalar_to_string :: "(json \<Rightarrow> string) \<Rightarrow> json \<Rightarrow> string" where
  "scalar_to_string sprint (JStr s) = s"
| "scalar_to_string sprint (JBool b) = (if b then ''true'' else ''false'')"
| "scalar_to_string sprint (JNum s) = s"
| "scalar_to_string sprint (JArr xs) = join_with '','' (map (scalar_to_string sprint) xs)"
| "scalar_to_string sprint v = sprint v"

definition raw_query :: "(json \<Rightarrow> string) \<Rightarrow> json option \<Rightarrow> query_map" where
  "raw_query sprint raw =
     (case raw of
        Some (JObj m) \<Rightarrow>
          concat (map (\<lambda>(key, v). case v of
              JArr items \<Rightarrow> map (\<lambda>item. (key, scalar_to_string sprint item)) items
            | _ \<Rightarrow> [(key, scalar_to_string sprint v)]) m)
      | _ \<Rightarrow> [])"

text \<open>\<open>url.Values.Encode\<close>: sorted by key, the values of a key in order.\<close>

definition query_escape_char :: "char \<Rightarrow> string" where
  "query_escape_char c =
     (if is_alpha c \<or> is_digit c \<or> c \<in> set ''-_.~'' then [c]
      else if c = CHR '' '' then ''+''
      else (let n = of_char c :: nat in [CHR ''%'', hex_digit (n div 16), hex_digit (n mod 16)]))"

definition encode_query :: "query_map \<Rightarrow> string" where
  "encode_query q =
     join_with ''&'' (map (\<lambda>(k, v). concat (map query_escape_char k) @ ''='' @ concat (map query_escape_char v))
       (sort_key fst q))"

section \<open>The request\<close>

record raw_service =
  rs_client :: http_client
  rs_workspace :: string
  rs_enable_tools :: bool
  rs_enable_get :: bool
  rs_enable_writes :: bool
  rs_documented_only :: bool
  rs_toolset :: string

definition raw_gate :: "raw_service \<Rightarrow> string list \<Rightarrow> string \<Rightarrow> members \<Rightarrow> (raw_error, string) result" where
  "raw_gate sv routes meth args =
     (if \<not> rs_enable_tools sv then Inl ToolsDisabled
      else if meth = ''GET'' \<and> \<not> rs_enable_get sv then Inl GetDisabled
      else if meth \<noteq> ''GET'' \<and> \<not> rs_enable_writes sv then Inl (WritesDisabled meth)
      else bind_result (safe_raw_path (rs_workspace sv) (string_arg args ''path'')) (\<lambda>path.
        if meth = ''GET'' \<and> sensitive_raw_read_path path \<and> \<not> raw_sensitive_read_toolset_allowed (rs_toolset sv)
        then Inl (SensitiveRead path)
        else if meth \<noteq> ''GET'' \<and> rs_documented_only sv \<and> \<not> is_documented_raw_write_route routes meth path
        then Inl (Undocumented meth path)
        else Inr path))"

text \<open>The body is a Go map: a missing one is nil, which is sent as null and hashed as an empty map.\<close>

definition raw_body :: "members \<Rightarrow> json" where
  "raw_body args = (case map_of args ''body'' of Some (JObj m) \<Rightarrow> JObj m | _ \<Rightarrow> JNull)"

definition action_for_raw_method :: "string \<Rightarrow> string" where
  "action_for_raw_method meth = (if meth = ''GET'' then ''clockify_api_get'' else ''clockify_api_request'')"

definition raw_preview ::
  "(json \<Rightarrow> string) \<Rightarrow> raw_service \<Rightarrow> string list \<Rightarrow> string \<Rightarrow> string \<Rightarrow> query_map \<Rightarrow> members \<Rightarrow> tool_result" where
  "raw_preview hash sv routes meth path query args =
     ok_result (action_for_raw_method meth)
       (JObj [(''dry_run'', JBool True), (''method'', JStr meth), (''path'', JStr path),
         (''query_hash'', JStr (hash (JStr (encode_query query)))),
         (''body_hash'', JStr (hash (case raw_body args of JNull \<Rightarrow> JObj [] | b \<Rightarrow> b))),
         (''documented_route'', JBool (\<not> rs_documented_only sv \<or> is_documented_raw_write_route routes meth path))]) []"

definition raw_call ::
  "raw_service \<Rightarrow> string \<Rightarrow> string \<Rightarrow> query_map \<Rightarrow> members \<Rightarrow> (raw_error, json http_call) result" where
  "raw_call sv meth path query args =
     (let c = rs_client sv; reports = is_reports_path path; body = raw_body args in
      if meth = ''GET'' then Inr (if reports then hc_get_reports_values c path query else hc_get_values c path query)
      else if meth = ''POST'' then Inr (if reports then hc_post_reports c path (Some body) else hc_post c path (Some body))
      else if meth = ''PUT'' then Inr (if reports then hc_put_reports c path (Some body) else hc_put c path (Some body))
      else if meth = ''PATCH'' then (if reports then Inl ReportsPatch else Inr (hc_patch c path (Some body)))
      else if meth = ''DELETE'' then
        Inr (if reports then hc_delete_reports_values c path query else hc_delete_values c path query)
      else Inl (UnsupportedMethod meth))"

definition raw_api ::
  "(json \<Rightarrow> string) \<Rightarrow> (json \<Rightarrow> string) \<Rightarrow> raw_service \<Rightarrow> string list \<Rightarrow> ('w, 'c) api \<Rightarrow> string \<Rightarrow> members \<Rightarrow>
   ('w, ('c, raw_error) handler_error, tool_result) handler_m" where
  "raw_api hash sprint sv routes api meth args =
     bind_m (of_result (map_error Domain (raw_gate sv routes meth args))) (\<lambda>path.
     (let query = raw_query sprint (map_of args ''query'') in
      if meth \<noteq> ''GET'' \<and> bool_member args ''dry_run''
      then of_result (Inr (raw_preview hash sv routes meth path query args))
      else bind_m (of_result (map_error Domain (raw_call sv meth path query args))) (\<lambda>c.
        bind_m (api_call api c) (\<lambda>v.
        of_result (Inr (ok_result (action_for_raw_method meth)
          (if meth = ''DELETE'' \<and> v = JNull then JObj [(''deleted'', JBool True)] else v) []))))))"

definition raw_api_get where
  "raw_api_get hash sprint sv routes api args = raw_api hash sprint sv routes api ''GET'' args"

definition raw_api_request where
  "raw_api_request hash sprint sv routes api args =
     (let meth = to_upper (trim_space (string_arg args ''method'')) in
      if meth = [] then of_result (Inl (Domain MethodRequired)) else raw_api hash sprint sv routes api meth args)"

definition raw_safety_requirement :: "members \<Rightarrow> requirement" where
  "raw_safety_requirement args =
     requirement_for_risk [''write''] False (to_upper (trim_space (string_arg args ''method'')))"

text \<open>The URL of a request: \<open>doOnceValues\<close> parses the base URL and the path together.\<close>

definition request_url :: "'b http_call \<Rightarrow> url option" where
  "request_url c =
     (let path = call_path c in
      url_parse (call_base c @ (if path \<noteq> [] \<and> hd path \<noteq> CHR ''/'' then CHR ''/'' # path else path)))"

section \<open>The fence\<close>

lemma safe_raw_path_ok:
  assumes "safe_raw_path ws raw0 = Inr p"
  shows "within_fence ws p" and "segment_fault True (split_on (CHR ''/'') p) = None" and "\<not> list_ex is_control p"
proof -
  obtain r where path: "decoded_path r = Inr p"
    and faults: "segment_fault True (split_on (CHR ''/'') p) = None" "within_fence ws p"
    using assms by (auto simp: safe_raw_path_def Let_def bind_result_eq_Inr split: if_splits option.splits)
  then show "within_fence ws p" "segment_fault True (split_on (CHR ''/'') p) = None" by simp_all
  have "\<not> is_control (CHR ''/'')" by (simp add: is_control_def)
  with path show "\<not> list_ex is_control p"
    by (auto simp: decoded_path_def split: option.splits if_splits)
qed

lemma segment_fault_None:
  "segment_fault first segs = None \<Longrightarrow> list_all (\<lambda>s. s \<noteq> ''.'' \<and> s \<noteq> ''..'') segs"
  by (induction segs arbitrary: first) (auto split: if_splits)

lemma fence_leading_slash: "within_fence ws p \<Longrightarrow> \<exists>q. p = CHR ''/'' # q"
  by (auto simp: within_fence_def has_prefix_iff)

lemma cut_byte_absent: "c \<notin> set s \<Longrightarrow> cut_byte c s = None"
  by (simp add: cut_byte_None)

lemma last_index_byte_None: "last_index_byte c s = None \<longleftrightarrow> c \<notin> set s"
  by (induction s) (auto split: option.splits)

definition plain_url :: "string \<Rightarrow> string \<Rightarrow> url" where
  "plain_url host path =
     \<lparr>url_scheme = ''https'', url_opaque = [], url_user = None, url_host = host, url_path = path,
      url_raw_path = (if path = escape_path path then [] else path), url_raw_query = [], url_fragment = []\<rparr>"

lemma get_scheme_https: "get_scheme (''https:'' @ s) = Some (''https'', s)"
  by (simp add: get_scheme_def is_alpha_def is_digit_def Let_def)

lemma url_parse_plain:
  assumes "p = CHR ''/'' # q" and chars: "\<not> list_ex is_control p" "set p \<inter> set ''%?#'' = {}"
    and host: "host = ''api.clockify.me'' \<or> host = ''reports.api.clockify.me''"
  shows "url_parse (''https://'' @ host @ p) = Some (plain_url host p)"
proof -
  have host_chars: "CHR ''/'' \<notin> set host" "set host \<inter> set ''%?#@[:'' = {}" "\<not> list_ex is_control host"
    "url_unescape EncodeHost host = Some host"
    using host by (auto simp: is_control_def host_escapes_def is_alpha_def is_digit_def Let_def)
  let ?raw = "''https:'' @ ''//'' @ host @ p"
  have absent: "CHR ''#'' \<notin> set ?raw" "CHR ''?'' \<notin> set (''//'' @ host @ p)" and path: "CHR ''%'' \<notin> set p"
    using chars(2) host_chars(2) by auto
  have control: "\<not> list_ex is_control ?raw"
    using chars(1) host_chars(3) by (simp add: is_control_def)
  have "takeWhile (\<lambda>c. c \<noteq> CHR ''/'') (host @ p) = host" "dropWhile (\<lambda>c. c \<noteq> CHR ''/'') (host @ p) = p"
    using host_chars(1) assms(1) by (auto simp: takeWhile_append dropWhile_append)
  moreover have "parse_authority host = Some (None, host)"
    using host_chars(2,4) by (auto simp: parse_authority_def parse_host_def last_index_byte_None [THEN iffD2])
  ultimately have "parse_hier ''https'' (''//'' @ host @ p) [] = Some (plain_url host p)"
    by (simp add: parse_hier_def Let_def set_path_def unescape_plain [OF path] plain_url_def)
  moreover have "to_lower ''https'' = ''https''" by code_simp
  ultimately have "url_parse_nofrag ?raw = Some (plain_url host p)"
    using control unfolding url_parse_nofrag_def get_scheme_https
    using cut_byte_absent [of "CHR ''?''" "host @ p"] absent(2) by (simp add: Let_def)
  then show ?thesis
    using cut_byte_absent [OF absent(1)] by (simp add: url_parse_def Let_def plain_url_def)
qed

section \<open>Properties\<close>

lemma raw_gate_ok:
  assumes "raw_gate sv routes meth args = Inr path"
  shows "safe_raw_path (rs_workspace sv) (string_arg args ''path'') = Inr path" and "rs_enable_tools sv"
    and "if meth = ''GET''
         then rs_enable_get sv \<and> \<not> (sensitive_raw_read_path path \<and> \<not> raw_sensitive_read_toolset_allowed (rs_toolset sv))
         else rs_enable_writes sv \<and> \<not> (rs_documented_only sv \<and> \<not> is_documented_raw_write_route routes meth path)"
  using assms by (auto simp: raw_gate_def bind_result_eq_Inr split: if_splits)

lemma raw_call_ok:
  "raw_call sv meth path query args = Inr c \<Longrightarrow>
     call_method c = meth \<and> call_path c = path \<and>
     call_base c = (if is_reports_path path then reports_base_url (rs_client sv) else hc_base_url (rs_client sv))"
  by (auto simp: raw_call_def Let_def call_def hc_get_reports_values_def hc_get_values_def hc_post_reports_def hc_post_def
      hc_put_reports_def hc_put_def hc_patch_def hc_delete_reports_values_def hc_delete_values_def split: if_splits)

text \<open>C3 (a raw call passed every gate): the raw fallback leaves Clockify alone or makes exactly one call,
  with the caller's method, to the host of its path; its path is the pinned workspace, below it, or the
  user's own, and holds no dot segment; the tools are enabled; a read is enabled and not a sensitive one
  outside the admin toolsets; a write is enabled, no dry run, and documented where the operator asked
  for that.\<close>

theorem raw_calls_gated:
  "snd (raw_api hash sprint sv routes api meth args s) = s \<or>
   (\<exists>c. snd (raw_api hash sprint sv routes api meth args s) = s\<lparr>ts_world := snd (api c (ts_world s))\<rparr> \<and>
      call_method c = meth \<and>
      call_base c = (if is_reports_path (call_path c) then reports_base_url (rs_client sv) else hc_base_url (rs_client sv)) \<and>
      within_fence (rs_workspace sv) (call_path c) \<and>
      list_all (\<lambda>seg. seg \<noteq> ''.'' \<and> seg \<noteq> ''..'') (split_on (CHR ''/'') (call_path c)) \<and>
      rs_enable_tools sv \<and>
      (if meth = ''GET''
       then rs_enable_get sv \<and>
         \<not> (sensitive_raw_read_path (call_path c) \<and> \<not> raw_sensitive_read_toolset_allowed (rs_toolset sv))
       else rs_enable_writes sv \<and> \<not> bool_member args ''dry_run'' \<and>
         \<not> (rs_documented_only sv \<and> \<not> is_documented_raw_write_route routes meth (call_path c))))"
proof (cases "raw_gate sv routes meth args")
  case (Inl e)
  then show ?thesis by (simp add: raw_api_def map_error_def)
next
  case gate: (Inr path)
  define query where "query = raw_query sprint (map_of args ''query'')"
  show ?thesis
  proof (cases "meth \<noteq> ''GET'' \<and> bool_member args ''dry_run''")
    case True
    with gate show ?thesis by (simp add: raw_api_def map_error_def Let_def)
  next
    case sent: False
    show ?thesis
    proof (cases "raw_call sv meth path query args")
      case (Inl e)
      with gate sent show ?thesis by (simp add: raw_api_def map_error_def Let_def query_def)
    next
      case (Inr c)
      have state: "snd (raw_api hash sprint sv routes api meth args s) = s\<lparr>ts_world := snd (api c (ts_world s))\<rparr>"
        using gate sent Inr
        by (auto simp: raw_api_def map_error_def Let_def query_def snd_bind_m api_call_def split: sum.split prod.split)
      note path = safe_raw_path_ok [OF raw_gate_ok(1) [OF gate]]
      show ?thesis
        by (rule disjI2, rule exI [of _ c])
          (use state raw_call_ok [OF Inr] path segment_fault_None [OF path(2)] raw_gate_ok(2,3) [OF gate] sent in
            \<open>simp split: if_split_asm\<close>)
    qed
  qed
qed

text \<open>C21 (the request stays where the fence put it): for a raw path the fence accepted that holds no
  percent, question or number sign, the URL the client builds has the documented host over HTTPS, the API prefix
  followed by exactly that path - decoded by the server or not - and no query of its own.\<close>

theorem raw_request_url_exact:
  assumes "safe_raw_path ws raw0 = Inr p" and "set p \<inter> set ''%?#'' = {}"
    and "call_path c = p" and "call_base c = host_main \<or> call_base c = host_reports"
  shows "\<exists>u host prefix. request_url c = Some u \<and> url_scheme u = ''https'' \<and> url_host u = host \<and>
    (host, prefix) \<in> {(''api.clockify.me'', ''/api/v1''), (''reports.api.clockify.me'', ''/v1'')} \<and>
    url_path u = prefix @ p \<and> url_unescape EncodePath (url_escaped_path u) = Some (prefix @ p) \<and>
    url_raw_query u = [] \<and> url_user u = None \<and> within_fence ws p"
proof -
  note path = safe_raw_path_ok [OF assms(1)]
  obtain q where q: "p = CHR ''/'' # q" using fence_leading_slash [OF path(1)] by blast
  have parsed: "url_parse (''https://'' @ host @ prefix @ p) = Some (plain_url host (prefix @ p))"
    if "(host, prefix) \<in> {(''api.clockify.me'', ''/api/v1''), (''reports.api.clockify.me'', ''/v1'')}" for host prefix
    by (rule url_parse_plain [of _ "tl (prefix @ p)"])
      (use that path(3) assms(2) in \<open>auto simp: is_control_def\<close>)
  from assms(4) obtain host prefix where hp:
    "(host, prefix) \<in> {(''api.clockify.me'', ''/api/v1''), (''reports.api.clockify.me'', ''/v1'')}"
    "call_base c = ''https://'' @ host @ prefix"
    using that [of "''api.clockify.me''" "''/api/v1''"] that [of "''reports.api.clockify.me''" "''/v1''"]
    by (auto simp: host_main_def host_reports_def)
  then have "request_url c = Some (plain_url host (prefix @ p))"
    using parsed [OF hp(1)] assms(3) q by (simp add: request_url_def Let_def)
  with hp(1) path(1) show ?thesis
    by (intro exI [of _ "plain_url host (prefix @ p)"] exI [of _ host] exI [of _ prefix])
      (simp add: unescape_escaped_path, simp add: plain_url_def)
qed

theorem raw_request_url_exact_witness:
  "\<exists>u host prefix. request_url (hc_get_values (new_client ''k'' host_main 0 0) ''/workspaces/ws1/tags'' []) = Some u \<and>
     url_host u = host \<and> url_path u = prefix @ ''/workspaces/ws1/tags''"
proof -
  have "safe_raw_path ''ws1'' ''/workspaces/ws1/tags'' = Inr ''/workspaces/ws1/tags''" by code_simp
  moreover have "hc_base_url (new_client ''k'' host_main 0 0) = host_main"
    by (simp add: new_client_def host_main_def trim_right_char_def)
  ultimately show ?thesis
    using raw_request_url_exact [of "''ws1''" "''/workspaces/ws1/tags''" "''/workspaces/ws1/tags''"
        "hc_get_values (new_client ''k'' host_main 0 0) ''/workspaces/ws1/tags'' []"]
    by (auto simp: hc_get_values_def call_def)
qed

text \<open>Without that restriction the path is decoded twice. A doubly escaped dot segment leaves the fence, and
  an escaped question mark hides a sensitive segment from the check of reads.\<close>

lemma double_decoding_leaves_fence:
  "safe_raw_path ''w'' ''/workspaces/w/%252e%252e/w2'' = Inr ''/workspaces/w/%2e%2e/w2''"
  "map_option url_path (url_parse (host_main @ ''/workspaces/w/%2e%2e/w2'')) =
     Some ''/api/v1/workspaces/w/../w2''"
  by code_simp+

lemma escaped_query_hides_segment:
  "safe_raw_path ''w'' ''/workspaces/w/users%3Fa'' = Inr ''/workspaces/w/users?a''"
  "sensitive_raw_read_path ''/workspaces/w/users'' \<and> \<not> sensitive_raw_read_path ''/workspaces/w/users?a''"
  "map_option url_path (url_parse (host_main @ ''/workspaces/w/users?a'')) = Some ''/api/v1/workspaces/w/users''"
  by code_simp+

end
