(* ===== verification/BreakerRecovery.thy ===== *)
theory BreakerRecovery
  imports CircuitBreaker
begin

text \<open>
  The circuit breaker never wedges: from every state it can reach, an endpoint is closed again after at
  most three further events - the answer of an outstanding probe when all probe slots are taken, a
  request admitted once the cool-down is over, and its success.
\<close>

lemma full_endpoint:
  assumes "endpoint_inv b st" and "0 < cb_probes b" and "\<not> es_in_flight st < cb_probes b"
  shows "es_state st = BreakerHalfOpen" and "es_in_flight (endpoint_after b st now f) = 0"
    and "es_state (endpoint_after b st now f) \<noteq> BreakerHalfOpen"
  using assms
  by (cases "es_state st"; auto simp: endpoint_inv_def endpoint_after_def transition_def Let_def)+

lemma cooled_endpoint_admits:
  assumes "es_in_flight st < cb_probes b" and "es_opened_at st + cb_open_duration b \<le> now"
  shows "fst (endpoint_before b st now) = None"
  using assms by (cases "es_state st") (auto simp: endpoint_before_def transition_def Let_def)

lemma closed_endpoint_admits:
  "es_state st = BreakerClosed \<Longrightarrow> fst (endpoint_before b st now) = None"
  by (simp add: endpoint_before_def Let_def)

lemma ensure_updated [simp]: "ensure_state (b\<lparr>cb_states := m(key \<mapsto> st)\<rparr>) key = st"
  by (simp add: ensure_state_def)

lemma success_closes_endpoint: "es_state (endpoint_after b st now False) = BreakerClosed"
  by (cases "es_state st") (auto simp: endpoint_after_def transition_def Let_def)

text \<open>C18 (the breaker always recovers): in every reachable state of an enabled breaker, for every
  endpoint - once one outstanding probe was answered, well or badly, if all probe slots are taken - a
  request made when the open duration has passed since the endpoint last opened is admitted, and its
  success closes the endpoint, so that the next request is admitted at any time.\<close>

theorem breaker_recovers:
  assumes "breaker_reachable cfg b" and "cb_enabled b"
    and "key = \<lparr>bk_endpoint = ep, bk_method = m\<rparr>"
    and "b0 = (if es_in_flight (ensure_state b key) < cb_probes b then b else the (breaker_after (Some b) ep m answered failed))"
    and "es_opened_at (ensure_state b0 key) + cb_open_duration b \<le> now"
  shows "\<exists>b1 b2. breaker_before (Some b0) ep m now = (None, Some b1) \<and>
    breaker_after (Some b1) ep m done_at False = Some b2 \<and>
    es_state (ensure_state b2 key) = BreakerClosed \<and> fst (breaker_before (Some b2) ep m later) = None"
proof -
  have inv: "breaker_inv b" by (rule reachable_inv [OF assms(1)])
  then have probes: "0 < cb_probes b" by (simp add: breaker_inv_def)
  have b0: "cb_enabled b0 \<and> cb_probes b0 = cb_probes b \<and> cb_open_duration b0 = cb_open_duration b \<and>
      es_in_flight (ensure_state b0 key) < cb_probes b0"
  proof (cases "es_in_flight (ensure_state b key) < cb_probes b")
    case True
    with assms(2,4) show ?thesis by simp
  next
    case False
    then have "b0 = b\<lparr>cb_states := (cb_states b)(key \<mapsto> endpoint_after b (ensure_state b key) answered failed)\<rparr>"
      using assms(2-4) by (simp add: breaker_after_def Let_def)
    with full_endpoint(2) [OF ensure_state_inv [OF inv] probes False] assms(2) probes show ?thesis by simp
  qed
  define st1 where "st1 = snd (endpoint_before b0 (ensure_state b0 key) now)"
  define b1 where "b1 = b0\<lparr>cb_states := (cb_states b0)(key \<mapsto> st1)\<rparr>"
  define b2 where "b2 = b1\<lparr>cb_states := (cb_states b1)(key \<mapsto> endpoint_after b1 st1 done_at False)\<rparr>"
  have "fst (endpoint_before b0 (ensure_state b0 key) now) = None"
    using cooled_endpoint_admits b0 assms(5) by simp
  then have "breaker_before (Some b0) ep m now = (None, Some b1)"
    using b0 by (simp add: breaker_before_def Let_def b1_def st1_def assms(3) case_prod_beta)
  moreover have "breaker_after (Some b1) ep m done_at False = Some b2"
    using b0 by (simp add: breaker_after_def Let_def b2_def b1_def flip: assms(3))
  moreover have closed: "es_state (ensure_state b2 key) = BreakerClosed"
    by (simp add: b2_def success_closes_endpoint)
  moreover have "fst (breaker_before (Some b2) ep m later) = None"
    using closed_endpoint_admits [OF closed] by (simp add: breaker_before_def Let_def case_prod_beta flip: assms(3))
  ultimately show ?thesis by blast
qed

theorem breaker_recovers_witness:
  "\<exists>b1 b2. breaker_before (Some tripped) ''/users'' ''GET'' (12 * second) = (None, Some b1) \<and>
    breaker_after (Some b1) ''/users'' ''GET'' (13 * second) False = Some b2 \<and>
    es_state (ensure_state b2 \<lparr>bk_endpoint = ''/users'', bk_method = ''GET''\<rparr>) = BreakerClosed"
proof -
  have reachable: "breaker_reachable demo_config tripped"
    unfolding tripped_def by (rule breaker_exec_reachable) (rule breaker_reachable.init)
  have "ensure_state tripped \<lparr>bk_endpoint = ''/users'', bk_method = ''GET''\<rparr> =
      \<lparr>es_state = BreakerOpen, es_failures = 0, es_opened_at = second, es_in_flight = 0\<rparr>"
    by (simp add: ensure_state_def tripped_state(1))
  moreover have "0 < cb_probes tripped" using reachable_inv [OF reachable] by (simp add: breaker_inv_def)
  ultimately show ?thesis
    using breaker_recovers [OF reachable tripped_state(2) refl refl, of "''/users''" "''GET''" 0 True "12 * second" "13 * second" 0]
    by (auto simp: tripped_state(3) second_def)
qed

end
