(* ===== verification/Config.thy ===== *)
theory Config
  imports ToolResult CircuitBreaker GoFloat
begin

text \<open>
  \<open>internal/config/oneuser.go\<close>: the configuration of the one-user runtime, read from the environment
  once at start. The environment is a function from names to values, an unset name having the empty one;
  whether the time-zone database knows a name is the parameter \<open>known_zone\<close>. \<open>parse_duration\<close> is
  \<open>time.ParseDuration\<close>.
\<close>

section \<open>Durations\<close>

definition unit_nanos :: "string \<Rightarrow> int option" where
  "unit_nanos u =
     map_of [(''ns'', 1), (''us'', 1000), ([CHR 0xC2, CHR 0xB5, CHR ''s''], 1000), ([CHR 0xCE, CHR 0xBC, CHR ''s''], 1000),
       (''ms'', 1000000), (''s'', 1000000000), (''m'', 60000000000), (''h'', 3600000000000)] u"

text \<open>The digits after the point, as long as they fit, with the scale as a float.\<close>

fun leading_fraction :: "string \<Rightarrow> int \<Rightarrow> rat \<Rightarrow> int \<times> rat" where
  "leading_fraction [] f scale = (f, scale)"
| "leading_fraction (c # cs) f scale =
     (if f > (2 ^ 63 - 1) div 10 then (f, scale)
      else (let y = f * 10 + digit_val c in
        if y > 2 ^ 63 then (f, scale) else leading_fraction cs y (fl64 (scale * 10))))"

text \<open>One number and its unit: its nanoseconds and the rest.\<close>

definition duration_term :: "string \<Rightarrow> (int \<times> string) option" where
  "duration_term s =
     (let whole = takeWhile is_digit s; s1 = dropWhile is_digit s;
          point = (s1 \<noteq> [] \<and> hd s1 = CHR ''.'');
          digits = (if point then takeWhile is_digit (tl s1) else []);
          s2 = (if point then dropWhile is_digit (tl s1) else s1);
          u = takeWhile (\<lambda>c. c \<noteq> CHR ''.'' \<and> \<not> is_digit c) s2;
          v = digits_val whole
      in if v > 2 ^ 63 \<or> (whole = [] \<and> digits = []) then None
         else (case unit_nanos u of
                 None \<Rightarrow> None
               | Some n \<Rightarrow>
                   if v > 2 ^ 63 div n then None
                   else (let (f, scale) = leading_fraction digits 0 1;
                             v1 = v * n + (if f > 0 then trunc_rat (fl64 (fl64 (of_int f) * fl64 (of_int n / scale))) else 0)
                         in if v1 > 2 ^ 63 then None else Some (v1, drop (length u) s2))))"

lemma duration_term_shorter: "duration_term s = Some (v, r) \<Longrightarrow> length r < length s"
proof -
  assume a: "duration_term s = Some (v, r)"
  define s1 where "s1 = dropWhile is_digit s"
  define point where "point \<longleftrightarrow> s1 \<noteq> [] \<and> hd s1 = CHR ''.''"
  define s2 where "s2 = (if point then dropWhile is_digit (tl s1) else s1)"
  define u where "u = takeWhile (\<lambda>c. c \<noteq> CHR ''.'' \<and> \<not> is_digit c) s2"
  from a have "unit_nanos u \<noteq> None" and r: "r = drop (length u) s2"
    by (auto simp: duration_term_def Let_def s1_def point_def s2_def u_def split: if_splits option.splits prod.splits)
  then have "u \<noteq> []" by (auto simp: unit_nanos_def)
  moreover have "length u \<le> length s2" unfolding u_def by (rule length_takeWhile_le)
  moreover have "length s2 \<le> length s1"
    using length_dropWhile_le [of is_digit "tl s1"] by (cases s1) (auto simp: s2_def)
  moreover have "length s1 \<le> length s" unfolding s1_def by (rule length_dropWhile_le)
  ultimately show ?thesis using r by (cases u) auto
qed

function duration_terms :: "string \<Rightarrow> int \<Rightarrow> int option" where
  "duration_terms s d =
     (if s = [] then Some d
      else (case duration_term s of
              None \<Rightarrow> None
            | Some (v, r) \<Rightarrow> if d + v > 2 ^ 63 then None else duration_terms r (d + v)))"
  by pat_completeness auto
termination
  by (relation "measure (\<lambda>(s, d). length s)") (auto dest: duration_term_shorter)

declare duration_terms.simps [simp del]

definition parse_duration :: "string \<Rightarrow> duration option" where
  "parse_duration s0 =
     (let neg = (s0 \<noteq> [] \<and> hd s0 = CHR ''-'');
          s = (if s0 \<noteq> [] \<and> (hd s0 = CHR ''-'' \<or> hd s0 = CHR ''+'') then tl s0 else s0) in
      if s = ''0'' then Some 0
      else if s = [] then None
      else (case duration_terms s 0 of
              None \<Rightarrow> None
            | Some d \<Rightarrow> if neg then Some (- d) else if d > 2 ^ 63 - 1 then None else Some d))"

section \<open>The configuration\<close>

type_synonym environment = "string \<Rightarrow> string"

datatype config_error =
    ApiKeyRequired
  | WorkspaceRequired
  | BadWorkspaceId id_error
  | BadTimezone
  | BaseUrlSyntax
  | BaseUrlHostMissing
  | BaseUrlInsecure
  | BaseUrlUnknownHost string
  | NotBoolean string
  | NotPositive string
  | NegativeInt string
  | AboveMaximum string int
  | NotDuration string
  | DurationOutside string duration duration
  | DurationNotPositive string
  | BadToolset
  | BadAuditMode
  | BadBreakerMode

record one_user_config =
  oc_api_key :: string
  oc_workspace :: string
  oc_timezone :: string
  oc_base_url :: string
  oc_log_level :: string
  oc_max_in_flight :: int
  oc_tool_timeout :: duration
  oc_max_message :: int
  oc_max_result :: int
  oc_tool_rate :: int
  oc_rate_disabled :: bool
  oc_read_rate :: int
  oc_write_rate :: int
  oc_billing_rate :: int
  oc_destructive_rate :: int
  oc_toolset :: string
  oc_raw_tools :: bool
  oc_raw_get :: bool
  oc_raw_writes :: bool
  oc_raw_documented_only :: bool
  oc_audit_path :: string
  oc_audit_mode :: string
  oc_webhook_domains :: "string list"
  oc_breaker :: breaker_config

definition default_base_url :: string where
  "default_base_url = ''https://api.clockify.me/api/v1''"

definition allowed_base_url_hosts :: "string list" where
  "allowed_base_url_hosts = [''api.clockify.me'', ''reports.api.clockify.me'', ''auditlog-api.api.clockify.me'']"

definition env_value :: "environment \<Rightarrow> string \<Rightarrow> string" where
  "env_value env name = trim_space (env name)"

definition parse_bool_env_default :: "environment \<Rightarrow> string \<Rightarrow> bool \<Rightarrow> (config_error, bool) result" where
  "parse_bool_env_default env name fallback =
     (let raw = env_value env name in
      if raw = [] then Inr fallback
      else (case parse_bool raw of None \<Rightarrow> Inl (NotBoolean name) | Some v \<Rightarrow> Inr v))"

definition parse_bool_env :: "environment \<Rightarrow> string \<Rightarrow> (config_error, bool) result" where
  "parse_bool_env env name = parse_bool_env_default env name False"

definition parse_comma_list_env :: "environment \<Rightarrow> string \<Rightarrow> string list" where
  "parse_comma_list_env env name =
     (let raw = env_value env name in
      if raw = [] then [] else filter (\<lambda>s. s \<noteq> []) (map trim_space (split_on (CHR '','') raw)))"

definition parse_positive_int_env :: "environment \<Rightarrow> string \<Rightarrow> int \<Rightarrow> (config_error, int) result" where
  "parse_positive_int_env env name fallback =
     (let raw = env_value env name in
      if raw = [] then Inr fallback
      else (case atoi raw of None \<Rightarrow> Inl (NotPositive name) | Some v \<Rightarrow> if v \<le> 0 then Inl (NotPositive name) else Inr v))"

definition parse_non_negative_int_env_presence ::
  "environment \<Rightarrow> string \<Rightarrow> int \<Rightarrow> (config_error, int \<times> bool) result" where
  "parse_non_negative_int_env_presence env name def0 =
     (let raw = env_value env name in
      if raw = [] then Inr (def0, False)
      else (case atoi raw of None \<Rightarrow> Inl (NegativeInt name)
            | Some v \<Rightarrow> if v < 0 then Inl (NegativeInt name) else Inr (v, True)))"

definition parse_bounded_positive_int_env :: "environment \<Rightarrow> string \<Rightarrow> int \<Rightarrow> int \<Rightarrow> (config_error, int) result" where
  "parse_bounded_positive_int_env env name fallback max_value =
     bind_result (parse_positive_int_env env name fallback) (\<lambda>v.
       if v > max_value then Inl (AboveMaximum name max_value) else Inr v)"

definition parse_positive_int64_env :: "environment \<Rightarrow> string \<Rightarrow> int \<Rightarrow> (config_error, int) result" where
  "parse_positive_int64_env env name fallback =
     (let raw = env_value env name in
      if raw = [] then Inr fallback
      else (case atoi raw of None \<Rightarrow> Inl (NotPositive name) | Some v \<Rightarrow> if v \<le> 0 then Inl (NotPositive name) else Inr v))"

definition parse_bounded_positive_int64_env :: "environment \<Rightarrow> string \<Rightarrow> int \<Rightarrow> int \<Rightarrow> (config_error, int) result" where
  "parse_bounded_positive_int64_env env name fallback max_value =
     bind_result (parse_positive_int64_env env name fallback) (\<lambda>v.
       if v > max_value then Inl (AboveMaximum name max_value) else Inr v)"

definition parse_duration_env ::
  "environment \<Rightarrow> string \<Rightarrow> duration \<Rightarrow> duration \<Rightarrow> duration \<Rightarrow> (config_error, duration) result" where
  "parse_duration_env env name fallback min_value max_value =
     (let raw = env_value env name in
      if raw = [] then Inr fallback
      else (case parse_duration raw of
              None \<Rightarrow> Inl (NotDuration name)
            | Some v \<Rightarrow> if v < min_value \<or> v > max_value then Inl (DurationOutside name min_value max_value) else Inr v))"

definition parse_positive_duration_env :: "environment \<Rightarrow> string \<Rightarrow> duration \<Rightarrow> (config_error, duration) result" where
  "parse_positive_duration_env env name fallback =
     (let raw = env_value env name in
      if raw = [] then Inr fallback
      else (case parse_duration raw of
              None \<Rightarrow> Inl (NotDuration name)
            | Some v \<Rightarrow> if v \<le> 0 then Inl (DurationNotPositive name) else Inr v))"

definition parse_toolset_env :: "environment \<Rightarrow> (config_error, string) result" where
  "parse_toolset_env env =
     (let raw = to_lower (env_value env ''CLOCKIFY_TOOLSET'') in
      if raw = [] then Inr ''default''
      else if raw \<in> set [''default'', ''core'', ''business'', ''admin'', ''all''] then Inr raw else Inl BadToolset)"

definition parse_audit_log_mode_env :: "environment \<Rightarrow> (config_error, string) result" where
  "parse_audit_log_mode_env env =
     (let raw = to_lower (env_value env ''CLOCKIFY_AUDIT_LOG_MODE'') in
      if raw = [] then Inr ''off''
      else if raw \<in> set [''off'', ''side_effects_only'', ''all''] then Inr raw else Inl BadAuditMode)"

definition parse_circuit_breaker_mode_env :: "environment \<Rightarrow> (config_error, bool) result" where
  "parse_circuit_breaker_mode_env env =
     (let raw = to_lower (env_value env ''CLOCKIFY_CIRCUIT_BREAKER'') in
      if raw \<in> set [[], ''auto'', ''enabled'', ''enable'', ''on'', ''true'', ''1''] then Inr True
      else if raw \<in> set [''disabled'', ''disable'', ''off'', ''false'', ''0''] then Inr False
      else Inl BadBreakerMode)"

definition parse_circuit_breaker_env :: "environment \<Rightarrow> (config_error, breaker_config) result" where
  "parse_circuit_breaker_env env =
     bind_result (parse_circuit_breaker_mode_env env) (\<lambda>enabled.
     bind_result (parse_positive_int_env env ''CLOCKIFY_CIRCUIT_BREAKER_FAILURE_THRESHOLD'' 5) (\<lambda>threshold.
     bind_result (parse_positive_duration_env env ''CLOCKIFY_CIRCUIT_BREAKER_OPEN_DURATION'' (45 * second)) (\<lambda>open_duration.
     bind_result (parse_positive_int_env env ''CLOCKIFY_CIRCUIT_BREAKER_HALF_OPEN_PROBES'' 1) (\<lambda>probes.
     Inr \<lparr>bc_enabled = enabled, bc_threshold = threshold, bc_open_duration = open_duration, bc_probes = probes\<rparr>))))"

definition is_loopback_host :: "string \<Rightarrow> bool" where
  "is_loopback_host host =
     (case parse_addr host of
        Some ip \<Rightarrow> if addr_zone ip = [] then is_loopback ip else equal_fold host ''localhost''
      | None \<Rightarrow> equal_fold host ''localhost'')"

definition validate_one_user_base_url :: "environment \<Rightarrow> string \<Rightarrow> (config_error, unit) result" where
  "validate_one_user_base_url env raw =
     (case url_parse raw of
        None \<Rightarrow> Inl BaseUrlSyntax
      | Some u \<Rightarrow>
          if url_host u = [] then Inl BaseUrlHostMissing
          else (let host = url_hostname u in
            if is_loopback_host host then Inr ()
            else if url_scheme u \<noteq> ''https'' then Inl BaseUrlInsecure
            else if to_lower host \<in> set allowed_base_url_hosts then Inr ()
            else bind_result (parse_bool_env env ''CLOCKIFY_ALLOW_CUSTOM_BASE_URL'') (\<lambda>allow.
              if allow then Inr () else Inl (BaseUrlUnknownHost host))))"

section \<open>Loading\<close>

text \<open>The identity settings, checked first.\<close>

definition load_identity :: "(string \<Rightarrow> bool) \<Rightarrow> environment \<Rightarrow> (config_error, string \<times> string \<times> string \<times> string) result" where
  "load_identity known_zone env =
     (let key = env_value env ''CLOCKIFY_API_KEY'';
          ws = env_value env ''CLOCKIFY_WORKSPACE_ID'';
          tz = env_value env ''CLOCKIFY_TIMEZONE'';
          url0 = env_value env ''CLOCKIFY_BASE_URL'';
          base = (if url0 = [] then default_base_url else url0)
      in if key = [] then Inl ApiKeyRequired
         else if ws = [] then Inl WorkspaceRequired
         else bind_result (map_error BadWorkspaceId (validate_id ws ''CLOCKIFY_WORKSPACE_ID'')) (\<lambda>_.
           if tz \<noteq> [] \<and> \<not> known_zone tz then Inl BadTimezone
           else bind_result (validate_one_user_base_url env base) (\<lambda>_. Inr (key, ws, tz, base))))"

text \<open>The rates of the risk families: nothing is limited when the overall rate was set to 0.\<close>

definition family_rates :: "int \<Rightarrow> bool \<Rightarrow> bool \<times> int \<times> int \<times> int \<times> int" where
  "family_rates rate present =
     (if present \<and> rate = 0 then (True, 0, 0, 0, 0)
      else (False, rate, min rate 30, min rate 10, min rate 5))"

definition load_one_user :: "(string \<Rightarrow> bool) \<Rightarrow> environment \<Rightarrow> (config_error, one_user_config) result" where
  "load_one_user known_zone env =
     bind_result (load_identity known_zone env) (\<lambda>(key, ws, tz, base).
     bind_result (parse_bool_env env ''CLOCKIFY_ENABLE_RAW_WRITES'') (\<lambda>raw_writes.
     bind_result (parse_bool_env env ''CLOCKIFY_ENABLE_RAW_TOOLS'') (\<lambda>raw_tools.
     bind_result (parse_bool_env env ''CLOCKIFY_ENABLE_RAW_GET'') (\<lambda>raw_get.
     bind_result (parse_bool_env_default env ''CLOCKIFY_RAW_WRITE_DOCUMENTED_ONLY'' True) (\<lambda>documented.
     bind_result (parse_audit_log_mode_env env) (\<lambda>audit_mode.
     bind_result (parse_positive_int_env env ''CLOCKIFY_MAX_IN_FLIGHT_TOOL_CALLS'' 4) (\<lambda>in_flight.
     bind_result (parse_duration_env env ''CLOCKIFY_TOOL_TIMEOUT'' (45 * second) (5 * second) (10 * minute)) (\<lambda>timeout.
     bind_result (parse_bounded_positive_int64_env env ''CLOCKIFY_MAX_MESSAGE_SIZE'' (4 * 1024 * 1024) (100 * 1024 * 1024)) (\<lambda>message.
     bind_result (parse_bounded_positive_int_env env ''CLOCKIFY_MAX_TOOL_RESULT_BYTES'' 50000 (100 * 1024 * 1024)) (\<lambda>result_bytes.
     bind_result (parse_non_negative_int_env_presence env ''CLOCKIFY_TOOL_RATE_LIMIT_PER_MINUTE'' 120) (\<lambda>(rate, present).
     bind_result (parse_toolset_env env) (\<lambda>toolset.
     bind_result (parse_circuit_breaker_env env) (\<lambda>breaker.
     (let (disabled, reads, writes, billing, destructive) = family_rates rate present in
      Inr \<lparr>oc_api_key = key, oc_workspace = ws, oc_timezone = tz, oc_base_url = base,
           oc_log_level = env_value env ''MCP_LOG_LEVEL'', oc_max_in_flight = in_flight, oc_tool_timeout = timeout,
           oc_max_message = message, oc_max_result = result_bytes, oc_tool_rate = rate, oc_rate_disabled = disabled,
           oc_read_rate = reads, oc_write_rate = writes, oc_billing_rate = billing, oc_destructive_rate = destructive,
           oc_toolset = toolset, oc_raw_tools = raw_tools, oc_raw_get = raw_get, oc_raw_writes = raw_writes,
           oc_raw_documented_only = documented, oc_audit_path = env_value env ''CLOCKIFY_AUDIT_LOG'',
           oc_audit_mode = audit_mode,
           oc_webhook_domains = parse_comma_list_env env ''CLOCKIFY_WEBHOOK_ALLOWED_DOMAINS'',
           oc_breaker = breaker\<rparr>))))))))))))))"

section \<open>What a loaded configuration satisfies\<close>

lemma result_bind_ok: "bind_result r f = Inr b \<Longrightarrow> (\<And>a. r = Inr a \<Longrightarrow> f a = Inr b \<Longrightarrow> P) \<Longrightarrow> P"
  by (auto simp: bind_result_eq_Inr)

lemma result_bind_pair:
  "bind_result r (\<lambda>(x, y). f x y) = Inr b \<Longrightarrow> (\<And>x y. r = Inr (x, y) \<Longrightarrow> f x y = Inr b \<Longrightarrow> P) \<Longrightarrow> P"
  by (auto simp: bind_result_eq_Inr)

lemma result_bind_quad:
  "bind_result r (\<lambda>(x, y, z, u). f x y z u) = Inr b \<Longrightarrow>
     (\<And>x y z u. r = Inr (x, y, z, u) \<Longrightarrow> f x y z u = Inr b \<Longrightarrow> P) \<Longrightarrow> P"
  by (auto simp: bind_result_eq_Inr)

lemma positive_int_ok: "parse_positive_int_env env name d = Inr v \<Longrightarrow> 0 < d \<Longrightarrow> 0 < v"
  by (auto simp: parse_positive_int_env_def Let_def split: if_splits option.splits)

lemma bounded_int_ok:
  "parse_bounded_positive_int_env env name d hi = Inr v \<Longrightarrow> 0 < d \<Longrightarrow> 0 < v \<and> v \<le> hi"
  by (auto simp: parse_bounded_positive_int_env_def bind_result_eq_Inr not_less dest: positive_int_ok split: if_splits)

lemma bounded_int64_ok:
  "parse_bounded_positive_int64_env env name d hi = Inr v \<Longrightarrow> 0 < d \<Longrightarrow> 0 < v \<and> v \<le> hi"
  by (auto simp: parse_bounded_positive_int64_env_def parse_positive_int64_env_def Let_def bind_result_eq_Inr not_less
      split: if_splits option.splits)

lemma non_negative_ok: "parse_non_negative_int_env_presence env name d = Inr (v, p) \<Longrightarrow> 0 \<le> d \<Longrightarrow> 0 \<le> v"
  by (auto simp: parse_non_negative_int_env_presence_def Let_def split: if_splits option.splits)

lemma duration_ok: "parse_duration_env env name d lo hi = Inr v \<Longrightarrow> lo \<le> d \<Longrightarrow> d \<le> hi \<Longrightarrow> lo \<le> v \<and> v \<le> hi"
  by (auto simp: parse_duration_env_def Let_def not_less split: if_splits option.splits)

lemma toolset_ok: "parse_toolset_env env = Inr v \<Longrightarrow> v \<in> set [''default'', ''core'', ''business'', ''admin'', ''all'']"
  by (auto simp: parse_toolset_env_def Let_def split: if_splits)

lemma audit_mode_ok: "parse_audit_log_mode_env env = Inr v \<Longrightarrow> v \<in> set [''off'', ''side_effects_only'', ''all'']"
  by (auto simp: parse_audit_log_mode_env_def Let_def split: if_splits)

lemma breaker_env_ok:
  "parse_circuit_breaker_env env = Inr cfg \<Longrightarrow> 0 < bc_threshold cfg \<and> 0 < bc_open_duration cfg \<and> 0 < bc_probes cfg"
  by (auto simp: parse_circuit_breaker_env_def bind_result_eq_Inr parse_positive_duration_env_def Let_def second_def not_le
      dest: positive_int_ok split: if_splits option.splits)

text \<open>A base URL the key may be sent to.\<close>

definition trusted_base_url :: "environment \<Rightarrow> string \<Rightarrow> bool" where
  "trusted_base_url env base \<longleftrightarrow>
     (case url_parse base of
        None \<Rightarrow> False
      | Some u \<Rightarrow> is_loopback_host (url_hostname u) \<or>
          (url_scheme u = ''https'' \<and>
           (to_lower (url_hostname u) \<in> set allowed_base_url_hosts \<or>
            parse_bool_env env ''CLOCKIFY_ALLOW_CUSTOM_BASE_URL'' = Inr True)))"

lemma base_url_ok: "validate_one_user_base_url env base = Inr () \<Longrightarrow> trusted_base_url env base"
  by (auto simp: validate_one_user_base_url_def trusted_base_url_def Let_def bind_result_eq_Inr
      split: option.splits if_splits)

lemma identity_ok:
  "load_identity known_zone env = Inr (key, ws, tz, base) \<Longrightarrow>
     key \<noteq> [] \<and> safe_id ws \<and> (tz = [] \<or> known_zone tz) \<and> trusted_base_url env base"
  by (auto simp: load_identity_def Let_def bind_result_eq_Inr map_error_def validate_id_ok base_url_ok
      split: if_splits sum.splits)

definition config_ok :: "(string \<Rightarrow> bool) \<Rightarrow> environment \<Rightarrow> one_user_config \<Rightarrow> bool" where
  "config_ok known_zone env cfg \<longleftrightarrow>
     oc_api_key cfg \<noteq> [] \<and> safe_id (oc_workspace cfg) \<and> (oc_timezone cfg = [] \<or> known_zone (oc_timezone cfg)) \<and>
     trusted_base_url env (oc_base_url cfg) \<and>
     0 < oc_max_in_flight cfg \<and>
     5 * second \<le> oc_tool_timeout cfg \<and> oc_tool_timeout cfg \<le> 10 * minute \<and>
     0 < oc_max_message cfg \<and> oc_max_message cfg \<le> 100 * 1024 * 1024 \<and>
     0 < oc_max_result cfg \<and> oc_max_result cfg \<le> 100 * 1024 * 1024 \<and>
     0 \<le> oc_destructive_rate cfg \<and> oc_destructive_rate cfg \<le> oc_billing_rate cfg \<and>
     oc_billing_rate cfg \<le> oc_write_rate cfg \<and> oc_write_rate cfg \<le> oc_read_rate cfg \<and>
     oc_read_rate cfg \<le> oc_tool_rate cfg \<and> (oc_rate_disabled cfg = (oc_destructive_rate cfg = 0)) \<and>
     oc_toolset cfg \<in> set [''default'', ''core'', ''business'', ''admin'', ''all''] \<and>
     oc_audit_mode cfg \<in> set [''off'', ''side_effects_only'', ''all''] \<and>
     0 < bc_threshold (oc_breaker cfg) \<and> 0 < bc_open_duration (oc_breaker cfg) \<and> 0 < bc_probes (oc_breaker cfg)"

lemma family_rates_ok:
  assumes "0 \<le> rate" and "\<not> present \<Longrightarrow> rate = 120" and "family_rates rate present = (off, r, w, b, d)"
  shows "0 \<le> d \<and> d \<le> b \<and> b \<le> w \<and> w \<le> r \<and> r \<le> rate \<and> (off = (d = 0))"
  using assms by (auto simp: family_rates_def split: if_splits)

lemma rate_present: "parse_non_negative_int_env_presence env name d = Inr (v, p) \<Longrightarrow> \<not> p \<Longrightarrow> v = d"
  by (auto simp: parse_non_negative_int_env_presence_def Let_def split: if_splits option.splits)

text \<open>C12 (a loaded configuration is well formed): whatever the environment holds, a configuration the
  loader accepts has a key and a safe workspace ID, sends the key only over HTTPS to a documented host (or
  to any HTTPS host when the operator opted in) or to a loopback address, keeps every timeout and size
  within its documented bounds, has family rates ordered from destructive to read below the overall
  rate and unlimited exactly when the overall limit was disabled, a known tool set and audit mode, and
  a breaker that can open and recover.\<close>

theorem loaded_config_ok:
  assumes "load_one_user known_zone env = Inr cfg"
  shows "config_ok known_zone env cfg"
  using assms unfolding load_one_user_def
  apply -
  apply (erule result_bind_quad)
  apply (erule result_bind_ok, erule result_bind_ok, erule result_bind_ok, erule result_bind_ok, erule result_bind_ok,
     erule result_bind_ok, erule result_bind_ok, erule result_bind_ok, erule result_bind_ok)
  apply (erule result_bind_pair)
  apply (erule result_bind_ok, erule result_bind_ok)
  subgoal for key ws tz base raw_writes raw_tools raw_get documented audit in_flight timeout message result_bytes rate present
      toolset breaker
  proof -
    assume parts: "load_identity known_zone env = Inr (key, ws, tz, base)"
      "parse_positive_int_env env ''CLOCKIFY_MAX_IN_FLIGHT_TOOL_CALLS'' 4 = Inr in_flight"
      "parse_duration_env env ''CLOCKIFY_TOOL_TIMEOUT'' (45 * second) (5 * second) (10 * minute) = Inr timeout"
      "parse_bounded_positive_int64_env env ''CLOCKIFY_MAX_MESSAGE_SIZE'' (4 * 1024 * 1024) (100 * 1024 * 1024) = Inr message"
      "parse_bounded_positive_int_env env ''CLOCKIFY_MAX_TOOL_RESULT_BYTES'' 50000 (100 * 1024 * 1024) = Inr result_bytes"
      "parse_non_negative_int_env_presence env ''CLOCKIFY_TOOL_RATE_LIMIT_PER_MINUTE'' 120 = Inr (rate, present)"
      "parse_toolset_env env = Inr toolset" "parse_audit_log_mode_env env = Inr audit"
      "parse_circuit_breaker_env env = Inr breaker"
    assume final: "(let (disabled, reads, writes, billing, destructive) = family_rates rate present in
      Inr \<lparr>oc_api_key = key, oc_workspace = ws, oc_timezone = tz, oc_base_url = base,
           oc_log_level = env_value env ''MCP_LOG_LEVEL'', oc_max_in_flight = in_flight, oc_tool_timeout = timeout,
           oc_max_message = message, oc_max_result = result_bytes, oc_tool_rate = rate, oc_rate_disabled = disabled,
           oc_read_rate = reads, oc_write_rate = writes, oc_billing_rate = billing, oc_destructive_rate = destructive,
           oc_toolset = toolset, oc_raw_tools = raw_tools, oc_raw_get = raw_get, oc_raw_writes = raw_writes,
           oc_raw_documented_only = documented, oc_audit_path = env_value env ''CLOCKIFY_AUDIT_LOG'',
           oc_audit_mode = audit,
           oc_webhook_domains = parse_comma_list_env env ''CLOCKIFY_WEBHOOK_ALLOWED_DOMAINS'',
           oc_breaker = breaker\<rparr>) = Inr cfg"
    obtain off r w b d where f: "family_rates rate present = (off, r, w, b, d)" by (cases "family_rates rate present")
    have rates: "0 \<le> d \<and> d \<le> b \<and> b \<le> w \<and> w \<le> r \<and> r \<le> rate \<and> (off = (d = 0))"
      using family_rates_ok [OF non_negative_ok [OF parts(6)] _ f] rate_present [OF parts(6)] by simp
    from final [symmetric] show ?thesis
      unfolding config_ok_def f
      using identity_ok [OF parts(1)] positive_int_ok [OF parts(2)] duration_ok [OF parts(3)] bounded_int64_ok [OF parts(4)]
        bounded_int_ok [OF parts(5)] toolset_ok [OF parts(7)] audit_mode_ok [OF parts(8)] breaker_env_ok [OF parts(9)] rates
      by (simp add: second_def minute_def)
  qed
  done

definition demo_environment :: environment where
  "demo_environment =
     (\<lambda>_. [])(''CLOCKIFY_API_KEY'' := ''k'', ''CLOCKIFY_WORKSPACE_ID'' := ''ws1'', ''CLOCKIFY_TOOLSET'' := ''admin'')"

theorem loaded_config_ok_witness:
  "\<exists>cfg. load_one_user (\<lambda>_. True) demo_environment = Inr cfg \<and> oc_toolset cfg = ''admin'' \<and>
     config_ok (\<lambda>_. True) demo_environment cfg"
proof -
  have "validate_one_user_base_url demo_environment default_base_url = Inr ()"
    "validate_id ''ws1'' ''CLOCKIFY_WORKSPACE_ID'' = Inr ()" "trim_space ''ws1'' = ''ws1''" "trim_space ''k'' = ''k''"
    "to_lower (trim_space ''admin'') = ''admin''"
    by code_simp+
  then have "\<exists>cfg. load_one_user (\<lambda>_. True) demo_environment = Inr cfg \<and> oc_toolset cfg = ''admin''"
    by (simp add: load_one_user_def load_identity_def env_value_def demo_environment_def map_error_def
        parse_bool_env_def parse_bool_env_default_def parse_audit_log_mode_env_def parse_positive_int_env_def
        parse_duration_env_def parse_bounded_positive_int64_env_def parse_positive_int64_env_def
        parse_bounded_positive_int_env_def parse_non_negative_int_env_presence_def parse_toolset_env_def
        parse_circuit_breaker_env_def parse_circuit_breaker_mode_env_def parse_positive_duration_env_def
        family_rates_def to_lower_def)
  then show ?thesis using loaded_config_ok by blast
qed

end
