(* ===== verification/ResolveCache.thy ===== *)
theory ResolveCache
  imports ToolResult
begin

text \<open>
  The cache of resolved names (\<open>resolve_cache.go\<close>, \<open>resolverCacheState\<close> of \<open>service_state.go\<close>): a
  name that is no ID (and, of a user, no e-mail address) keeps its ID for a minute; at 1024 entries a
  write first drops the expired ones. A call carries its clock readings and what its resolver would
  return.
\<close>

section \<open>Keys\<close>

definition looks_like_email :: "string \<Rightarrow> bool" where
  "looks_like_email s \<longleftrightarrow>
     (case index_byte (CHR ''@'') s of
        None \<Rightarrow> False
      | Some at0 \<Rightarrow>
          if at0 < 1 \<or> length s - 1 \<le> at0 then False
          else (case last_index_byte (CHR ''.'') (drop at0 s) of None \<Rightarrow> False | Some dot \<Rightarrow> dot > 1))"

definition looks_like_id :: "string \<Rightarrow> bool" where
  "looks_like_id s \<longleftrightarrow> length s = 24 \<and> list_all is_hex_char s"

record resolve_key =
  rk_kind :: string
  rk_scope :: string
  rk_ref :: string

definition cacheable_resolve_key :: "string \<Rightarrow> string \<Rightarrow> string \<Rightarrow> resolve_key option" where
  "cacheable_resolve_key kind scope ref =
     (let trimmed = trim_space ref in
      if trimmed = [] \<or> looks_like_id trimmed then None
      else if kind = ''user'' \<and> looks_like_email trimmed then None
      else Some \<lparr>rk_kind = kind, rk_scope = scope, rk_ref = to_lower trimmed\<rparr>)"

section \<open>The cache\<close>

record resolve_entry =
  re_id :: string
  re_expires :: instant

type_synonym resolve_cache = "(resolve_key \<times> resolve_entry) list"

definition resolve_cache_ttl :: duration where "resolve_cache_ttl = minute"
definition resolve_cache_sweep_threshold :: nat where "resolve_cache_sweep_threshold = 1024"

definition resolver_get :: "resolve_cache \<Rightarrow> resolve_key \<Rightarrow> instant \<Rightarrow> string option" where
  "resolver_get c key now =
     (case map_of c key of
        None \<Rightarrow> None
      | Some e \<Rightarrow> if now < re_expires e then Some (re_id e) else None)"

definition resolver_set :: "resolve_cache \<Rightarrow> resolve_key \<Rightarrow> string \<Rightarrow> instant \<Rightarrow> instant \<Rightarrow> resolve_cache" where
  "resolver_set c key ident expires now =
     AList.update key \<lparr>re_id = ident, re_expires = expires\<rparr>
       (if length c \<ge> resolve_cache_sweep_threshold then filter (\<lambda>(_, e). now < re_expires e) c else c)"

datatype 'e resolve_failure = ResolveError 'e | MissingId string

record 'e resolve_call =
  rc_kind :: string
  rc_scope :: string
  rc_ref :: string
  rc_now :: instant
  rc_later :: instant
  rc_outcome :: "('e, string) result"

definition call_key :: "'e resolve_call \<Rightarrow> resolve_key option" where
  "call_key c = cacheable_resolve_key (rc_kind c) (rc_scope c) (rc_ref c)"

text \<open>What the resolver alone answers: an empty ID is an error only where it would be cached.\<close>

definition fresh_answer :: "'e resolve_call \<Rightarrow> ('e resolve_failure, string) result" where
  "fresh_answer c =
     (case rc_outcome c of
        Inl e \<Rightarrow> Inl (ResolveError e)
      | Inr ident \<Rightarrow> if call_key c \<noteq> None \<and> ident = [] then Inl (MissingId (rc_kind c)) else Inr ident)"

definition resolve_cached :: "'e resolve_call \<Rightarrow> resolve_cache \<Rightarrow> ('e resolve_failure, string) result \<times> resolve_cache" where
  "resolve_cached c cache =
     (case call_key c of
        None \<Rightarrow> (fresh_answer c, cache)
      | Some key \<Rightarrow>
          (case resolver_get cache key (rc_now c) of
             Some ident \<Rightarrow> (Inr ident, cache)
           | None \<Rightarrow>
               (case fresh_answer c of
                  Inl e \<Rightarrow> (Inl e, cache)
                | Inr ident \<Rightarrow> (Inr ident, resolver_set cache key ident (rc_now c + resolve_cache_ttl) (rc_later c)))))"

definition task_scope :: "string \<Rightarrow> string \<Rightarrow> string" where
  "task_scope workspace project = workspace @ [CHR 0x00] @ project"

definition after_calls :: "'e resolve_call list \<Rightarrow> resolve_cache" where
  "after_calls calls = foldl (\<lambda>cache c. snd (resolve_cached c cache)) [] calls"

section \<open>What the cache holds\<close>

definition explained :: "'e resolve_call list \<Rightarrow> resolve_cache \<Rightarrow> bool" where
  "explained calls cache \<longleftrightarrow>
     distinct (map fst cache) \<and>
     (\<forall>(key, e) \<in> set cache. \<exists>c \<in> set calls.
        call_key c = Some key \<and> rc_outcome c = Inr (re_id e) \<and> re_id e \<noteq> [] \<and> re_expires e = rc_now c + resolve_cache_ttl)"

lemma distinct_filter_fst: "distinct (map fst xs) \<Longrightarrow> distinct (map fst (filter P xs))"
  by (induction xs) (auto simp: image_iff)

lemma set_update: "x \<in> set (AList.update k v xs) \<Longrightarrow> x = (k, v) \<or> x \<in> set xs"
  by (induction xs) (auto split: if_splits)

lemma explained_set:
  assumes "explained calls cache" and "call_key c = Some key" and "rc_outcome c = Inr ident" and "ident \<noteq> []"
  shows "explained (calls @ [c]) (resolver_set cache key ident (rc_now c + resolve_cache_ttl) later)"
  using assms
  by (fastforce simp: explained_def resolver_set_def distinct_filter_fst distinct_update dest!: set_update split: if_splits)

lemma explained_more: "explained calls cache \<Longrightarrow> explained (calls @ [c]) cache"
  by (fastforce simp: explained_def)

lemma fresh_answer_ok:
  "call_key c = Some key \<Longrightarrow> fresh_answer c = Inr ident \<longleftrightarrow> rc_outcome c = Inr ident \<and> ident \<noteq> []"
  by (auto simp: fresh_answer_def split: sum.splits)

lemma explained_step: "explained calls cache \<Longrightarrow> explained (calls @ [c]) (snd (resolve_cached c cache))"
  by (auto simp: resolve_cached_def explained_more explained_set fresh_answer_ok split: option.splits sum.splits)

lemma explained_run: "explained calls (after_calls calls)"
proof (induction calls rule: rev_induct)
  case (snoc c calls)
  then show ?case using explained_step by (simp add: after_calls_def)
qed (simp add: after_calls_def explained_def)


end
