(* ===== verification/TimesheetReview.thy ===== *)
theory TimesheetReview
  imports WeeklyReport Pagination
begin

text \<open>
  The review of a timesheet (\<open>internal/tools/timesheet_workflows.go\<close>): the bounds of an entry, entries in
  order of their start, the overlaps and the untracked gaps of the working days, and the issues and
  suggestions built from them. The times of an issue are instants; the code prints them. \<open>now\<close> is
  the clock reading of a review. The walk over the days takes fuel and is \<open>None\<close> when it runs out:
  \<open>add_days\<close> need not get any further in a zone that skips a whole day.
\<close>

section \<open>Bounds and order\<close>

definition time_entry_bounds :: "instant \<Rightarrow> 'a time_entry_scheme \<Rightarrow> (instant \<times> instant) option" where
  "time_entry_bounds now e =
     (case start_time e of
        None \<Rightarrow> None
      | Some start \<Rightarrow>
          (case end_time e of
             None \<Rightarrow> None
           | Some end0 \<Rightarrow>
               (let fin = (if end0 = zero_time then now else end0) in
                if fin < start then Some (start, start) else Some (start, fin))))"

definition max_time :: "instant \<Rightarrow> instant \<Rightarrow> instant" where
  "max_time a b = (if b < a then a else b)"

definition min_time :: "instant \<Rightarrow> instant \<Rightarrow> instant" where
  "min_time a b = (if a < b then a else b)"

text \<open>The order \<open>sort.SliceStable\<close> sorts by, and the key it is the order of: entries without bounds
  come last.\<close>

definition starts_before :: "instant \<Rightarrow> 'a time_entry_scheme \<Rightarrow> 'a time_entry_scheme \<Rightarrow> bool" where
  "starts_before now a b \<longleftrightarrow>
     (case time_entry_bounds now a of
        None \<Rightarrow> False
      | Some (s, _) \<Rightarrow> (case time_entry_bounds now b of None \<Rightarrow> True | Some (t, _) \<Rightarrow> s < t))"

definition start_rank :: "instant \<Rightarrow> 'a time_entry_scheme \<Rightarrow> bool \<times> instant" where
  "start_rank now e = (case time_entry_bounds now e of None \<Rightarrow> (True, 0) | Some (s, _) \<Rightarrow> (False, s))"

definition sorted_entries_by_start :: "instant \<Rightarrow> report_entry list \<Rightarrow> report_entry list" where
  "sorted_entries_by_start now = sort_key (start_rank now)"

lemma starts_before_rank: "starts_before now a b \<longleftrightarrow> start_rank now a < start_rank now b"
  by (auto simp: starts_before_def start_rank_def less_prod_def split: option.split)

lemma bounds_ordered: "time_entry_bounds now e = Some (s, f) \<Longrightarrow> s \<le> f"
  by (auto simp: time_entry_bounds_def Let_def split: option.splits if_splits)

lemma max_time_max [simp]: "max_time a b = max a b"
  by (simp add: max_time_def)

lemma min_time_min [simp]: "min_time a b = min a b"
  by (simp add: min_time_def)

section \<open>Issues and suggestions\<close>

datatype timesheet_issue =
    InvalidTimeInterval string
  | RunningTimer string instant
  | ZeroDuration string instant instant
  | MissingProject string instant instant
  | MissingDescription string instant instant
  | OverlapIssue string string instant instant
  | GapIssue instant instant

datatype tool_suggestion =
    SuggestStopTimer
  | SuggestInterval string
  | SuggestProject string
  | SuggestDescription string
  | SuggestBoundary string
  | SuggestFillGap instant instant

fun overlap_walk :: "instant \<Rightarrow> report_entry list \<Rightarrow> timesheet_issue list" where
  "overlap_walk now (prev # cur # es) =
     (case (time_entry_bounds now prev, time_entry_bounds now cur) of
        (Some (ps, pe), Some (cs, ce)) \<Rightarrow>
          if cs < pe then [OverlapIssue (re_id prev) (re_id cur) (max_time ps cs) (min_time pe ce)] else []
      | _ \<Rightarrow> []) @ overlap_walk now (cur # es)"
| "overlap_walk now _ = []"

definition overlap_issues :: "instant \<Rightarrow> report_entry list \<Rightarrow> timesheet_issue list" where
  "overlap_issues now entries = overlap_walk now (sorted_entries_by_start now entries)"

section \<open>Gaps\<close>

definition parse_hhmm :: "string \<Rightarrow> (int \<times> int) option" where
  "parse_hhmm raw =
     (case parse_clock False (trim_space raw) of Some ((h, m, _, _), []) \<Rightarrow> Some (h, m) | _ \<Rightarrow> None)"

text \<open>The gaps of one window: \<open>cursor\<close> is where the tracked time ends so far.\<close>

fun window_gaps ::
  "instant \<Rightarrow> duration \<Rightarrow> instant \<Rightarrow> instant \<Rightarrow> instant \<Rightarrow> report_entry list \<Rightarrow> (instant \<times> instant) list" where
  "window_gaps now min_gap ws we cursor [] =
     (if cursor < we \<and> min_gap \<le> sub_time we cursor then [(cursor, we)] else [])"
| "window_gaps now min_gap ws we cursor (e # es) =
     (case time_entry_bounds now e of
        None \<Rightarrow> window_gaps now min_gap ws we cursor es
      | Some (s0, f0) \<Rightarrow>
          if f0 \<le> ws \<or> we \<le> s0 then window_gaps now min_gap ws we cursor es
          else (let s = max_time s0 ws; f = min_time f0 we in
                (if cursor < s \<and> min_gap \<le> sub_time s cursor then [(cursor, s)] else []) @
                window_gaps now min_gap ws we (if cursor < f then f else cursor) es))"

text \<open>The working hours of the day \<open>day\<close> falls on, cut to the reviewed range; none when that leaves
  nothing.\<close>

definition day_window ::
  "location \<Rightarrow> int \<times> int \<Rightarrow> int \<times> int \<Rightarrow> instant \<Rightarrow> instant \<Rightarrow> instant \<Rightarrow> (instant \<times> instant) option" where
  "day_window loc from0 until0 range_start range_end day =
     (case civil_date loc day of (y, m, d) \<Rightarrow>
        let ws = date_in loc y m d (fst from0) (snd from0) 0 0;
            we = date_in loc y m d (fst until0) (snd until0) 0 0
        in if we \<le> ws then None
           else (let ws' = max_time ws range_start; we' = min_time we range_end in
                 if we' \<le> ws' then None else Some (ws', we')))"

definition first_midnight :: "location \<Rightarrow> instant \<Rightarrow> instant" where
  "first_midnight loc t = (case civil_date loc t of (y, m, d) \<Rightarrow> date_in loc y m d 0 0 0 0)"

fun gap_days ::
  "nat \<Rightarrow> instant \<Rightarrow> report_entry list \<Rightarrow> instant \<Rightarrow> instant \<Rightarrow> location \<Rightarrow> int \<times> int \<Rightarrow> int \<times> int \<Rightarrow> duration \<Rightarrow>
   instant \<Rightarrow> (instant \<times> instant) list option" where
  "gap_days 0 now entries range_start range_end loc from0 until0 min_gap day = None"
| "gap_days (Suc fuel) now entries range_start range_end loc from0 until0 min_gap day =
     (if \<not> day < range_end then Some []
      else map_option
        ((@) (case day_window loc from0 until0 range_start range_end day of
                None \<Rightarrow> []
              | Some (ws, we) \<Rightarrow> window_gaps now min_gap ws we ws entries))
        (gap_days fuel now entries range_start range_end loc from0 until0 min_gap (add_days loc 1 day)))"

definition gap_issues ::
  "nat \<Rightarrow> instant \<Rightarrow> report_entry list \<Rightarrow> instant \<Rightarrow> instant \<Rightarrow> location \<Rightarrow> string \<Rightarrow> string \<Rightarrow> duration \<Rightarrow>
   timesheet_issue list option" where
  "gap_issues fuel now entries range_start range_end loc workday_start workday_end min_gap =
     (let from0 = (case parse_hhmm workday_start of None \<Rightarrow> (0, 0) | Some hm \<Rightarrow> hm);
          until0 = (case parse_hhmm workday_end of None \<Rightarrow> (0, 0) | Some hm \<Rightarrow> hm)
      in map_option (map (\<lambda>(a, b). GapIssue a b))
           (gap_days fuel now entries range_start range_end loc from0 until0 min_gap (first_midnight loc range_start)))"

section \<open>The review\<close>

text \<open>Each issue with the suggestion that is added after it.\<close>

definition entry_findings :: "instant \<Rightarrow> report_entry \<Rightarrow> (timesheet_issue \<times> tool_suggestion option) list" where
  "entry_findings now e =
     (case time_entry_bounds now e of
        None \<Rightarrow> [(InvalidTimeInterval (re_id e), None)]
      | Some (s, f) \<Rightarrow>
          (if is_running e then [(RunningTimer (re_id e) s, Some SuggestStopTimer)] else []) @
          (if \<not> is_running e \<and> f \<le> s then [(ZeroDuration (re_id e) s f, Some (SuggestInterval (re_id e)))] else []) @
          (if trim_space (re_project e) = [] \<and> to_upper (trim_space (re_type e)) \<noteq> ''BREAK''
           then [(MissingProject (re_id e) s f, Some (SuggestProject (re_id e)))] else []) @
          (if trim_space (re_description e) = []
           then [(MissingDescription (re_id e) s f, Some (SuggestDescription (re_id e)))] else []))"

definition add_suggestion :: "int \<Rightarrow> tool_suggestion option \<Rightarrow> tool_suggestion list \<Rightarrow> tool_suggestion list" where
  "add_suggestion max_suggestions s suggestions =
     (case s of
        None \<Rightarrow> suggestions
      | Some x \<Rightarrow>
          if max_suggestions = 0 \<or> max_suggestions \<le> int (length suggestions) then suggestions else suggestions @ [x])"

definition issue_suggestion :: "timesheet_issue \<Rightarrow> tool_suggestion option" where
  "issue_suggestion i =
     (case i of
        OverlapIssue a b _ _ \<Rightarrow> Some (SuggestBoundary (first_non_empty_string [a, b]))
      | GapIssue s f \<Rightarrow> Some (SuggestFillGap s f)
      | _ \<Rightarrow> None)"

definition build_timesheet_review ::
  "nat \<Rightarrow> instant \<Rightarrow> report_entry list \<Rightarrow> instant \<Rightarrow> instant \<Rightarrow> location \<Rightarrow> string \<Rightarrow> string \<Rightarrow> int \<Rightarrow> int \<Rightarrow>
   (timesheet_issue list \<times> tool_suggestion list) option" where
  "build_timesheet_review fuel now entries start fin loc workday_start workday_end min_gap_minutes max_suggestions =
     map_option
       (\<lambda>gaps.
          (let findings = concat (map (entry_findings now) entries) @
                 map (\<lambda>i. (i, issue_suggestion i)) (overlap_issues now entries @ gaps)
           in (map fst findings, fold (add_suggestion max_suggestions) (map snd findings) [])))
       (if min_gap_minutes > 0
        then gap_issues fuel now entries start fin loc workday_start workday_end (wrap64 (wrap64 min_gap_minutes * minute))
        else Some [])"

section \<open>The range and the options of a review\<close>

datatype 'e review_error =
    UnknownZone string
  | StartEndTogether
  | ReviewRange range_error
  | BadWeek string
  | BadDate string
  | BadWorkday string
  | NegativeArg string
  | ReviewScan "'e aggregate_error"

text \<open>\<open>weekBounds\<close>: a bare date is a date of UTC, everything else one of the location.\<close>

definition week_bounds :: "instant \<Rightarrow> string \<Rightarrow> location \<Rightarrow> (string, instant \<times> instant) result" where
  "week_bounds now week_start loc =
     bind_result
       (if trim_space week_start = [] then Inr (loc, now)
        else (case parse_rfc3339 week_start of
                Some t \<Rightarrow> Inr (loc, t)
              | None \<Rightarrow> map_sum id (Pair utc_location) (parse_flexible_date_time week_start)))
       (\<lambda>(zone, base).
          (let wd = (if weekday zone base = 0 then 7 else weekday zone base)
           in case civil_date zone base of (y, m, d) \<Rightarrow>
             (let start = add_days loc (- (wd - 1)) (date_in loc y m d 0 0 0 0) in Inr (start, add_days loc 7 start))))"

definition timesheet_review_range ::
  "instant \<Rightarrow> members \<Rightarrow> location \<Rightarrow> ('e review_error, instant \<times> instant \<times> string) result" where
  "timesheet_review_range now args loc =
     (let start_raw = trim_space (str_member args ''start''); end_raw = trim_space (str_member args ''end'');
          week_start = trim_space (str_member args ''week_start''); date_raw = trim_space (str_member args ''date'')
      in if start_raw \<noteq> [] \<or> end_raw \<noteq> [] then
           (if start_raw = [] \<or> end_raw = [] then Inl StartEndTogether
            else (case parse_range_in_location now start_raw end_raw (Some loc) of
                    Inl e \<Rightarrow> Inl (ReviewRange e)
                  | Inr (start, fin) \<Rightarrow> Inr (start, fin, ''range'')))
         else if week_start \<noteq> [] then
           (case week_bounds now week_start loc of
              Inl e \<Rightarrow> Inl (BadWeek e) | Inr (start, fin) \<Rightarrow> Inr (start, fin, ''week''))
         else
           bind_result
             (if date_raw = [] then Inr now
              else if is_bare_date_string date_raw
              then (case parse_ymd date_raw of
                      None \<Rightarrow> Inl (BadDate date_raw) | Some (y, m, d) \<Rightarrow> Inr (date_in loc y m d 0 0 0 0))
              else (case parse_flexible_date_time date_raw of Inl e \<Rightarrow> Inl (BadDate e) | Inr t \<Rightarrow> Inr t))
             (\<lambda>base. (let start = first_midnight loc base in Inr (start, add_days loc 1 start, ''day''))))"

record 'v timesheet_review =
  tv_totals :: summary_totals
  tv_by_day :: "day_summary list"
  tv_by_project :: "project_summary list"
  tv_issues :: "timesheet_issue list"
  tv_actions :: "tool_suggestion list"
  tv_entries :: "'v list"

definition default_timesheet_review_max_rows :: int where
  "default_timesheet_review_max_rows = 15"

definition add_review_cap_meta :: "string \<Rightarrow> int \<Rightarrow> int \<Rightarrow> members" where
  "add_review_cap_meta prefix rows returned =
     (if returned < rows then [(prefix @ ''Total'', JInt rows), (prefix @ ''Returned'', JInt returned)] else [])"

definition review_capped_hint :: string where
  "review_capped_hint =
     ''Review details were capped by max_rows; narrow the start/end window or raise max_rows to inspect more rows.''"

text \<open>The lists cut to \<open>max_rows\<close> rows (all of them for 0), with the totals of those that were cut.\<close>

definition cap_timesheet_review_details :: "'v timesheet_review \<Rightarrow> int \<Rightarrow> 'v timesheet_review \<times> members" where
  "cap_timesheet_review_details data max_rows =
     (if max_rows = 0 then (data, [])
      else (let meta = add_review_cap_meta ''byProject'' (int (length (tv_by_project data))) max_rows @
                  add_review_cap_meta ''issues'' (int (length (tv_issues data))) max_rows @
                  add_review_cap_meta ''entries'' (int (length (tv_entries data))) max_rows
            in (data\<lparr>tv_by_project := take (nat max_rows) (tv_by_project data), tv_issues := take (nat max_rows) (tv_issues data),
                     tv_entries := take (nat max_rows) (tv_entries data)\<rparr>,
                if meta = [] then []
                else meta @ [(''truncated'', JBool True), (''next_hint'', JStr review_capped_hint)])))"

definition report_max_entries :: "members \<Rightarrow> int" where
  "report_max_entries args =
     (if map_of args ''max_entries'' = None then 0
      else (let n = int_arg args ''max_entries'' (- 1) in if n \<le> 0 then 0 else n))"

record review_options =
  vo_zone :: location
  vo_start :: instant
  vo_end :: instant
  vo_mode :: string
  vo_workday_start :: string
  vo_workday_end :: string
  vo_min_gap :: int
  vo_max_suggestions :: int
  vo_max_rows :: int
  vo_max_entries :: int

definition review_options_of ::
  "(string \<Rightarrow> location option) \<Rightarrow> location \<Rightarrow> location option \<Rightarrow> instant \<Rightarrow> members \<Rightarrow> ('e review_error, review_options) result" where
  "review_options_of load0 here default_tz now args =
     (case load_location load0 here (str_member args ''timezone'') default_tz of
        Inl z \<Rightarrow> Inl (UnknownZone z)
      | Inr loc \<Rightarrow>
          bind_result (timesheet_review_range now args loc) (\<lambda>(start, fin, mode).
            (let clock_or = (\<lambda>key fallback. if trim_space (str_member args key) = [] then fallback else str_member args key);
                 from0 = clock_or ''workday_start'' ''09:00''; until0 = clock_or ''workday_end'' ''17:00'';
                 gap = int_arg args ''min_gap_minutes'' 30; suggestions = int_arg args ''max_suggestions'' 10;
                 rows = int_arg args ''max_rows'' default_timesheet_review_max_rows
             in if parse_hhmm from0 = None then Inl (BadWorkday ''workday_start'')
                else if parse_hhmm until0 = None then Inl (BadWorkday ''workday_end'')
                else if gap < 0 then Inl (NegativeArg ''min_gap_minutes'')
                else if suggestions < 0 then Inl (NegativeArg ''max_suggestions'')
                else if rows < 0 then Inl (NegativeArg ''max_rows'')
                else Inr \<lparr>vo_zone = loc, vo_start = start, vo_end = fin, vo_mode = mode, vo_workday_start = from0,
                          vo_workday_end = until0, vo_min_gap = gap,
                          vo_max_suggestions = (if suggestions > 50 then 50 else suggestions), vo_max_rows = rows,
                          vo_max_entries = report_max_entries args\<rparr>)))"

definition review_aggregate_options :: "int \<Rightarrow> aggregate_options" where
  "review_aggregate_options max_entries =
     \<lparr>ao_page_size = 200, ao_include_entries = True, ao_max_entries = max_entries, ao_sample_entries = 0,
      ao_collect_running = False, ao_project = []\<rparr>"

text \<open>The review of the entries the server lists for the range; \<open>enrich\<close> makes their views. \<open>None\<close> is
  running out of fuel.\<close>

definition timesheet_review ::
  "nat \<Rightarrow> (json \<Rightarrow> string) \<Rightarrow> listed_project list option \<Rightarrow> (instant \<Rightarrow> instant \<Rightarrow> nat \<Rightarrow> ('e, report_entry list) result) \<Rightarrow>
   (int \<Rightarrow> instant) \<Rightarrow> (report_entry list \<Rightarrow> 'v list) \<Rightarrow> instant \<Rightarrow> members \<Rightarrow> review_options \<Rightarrow>
   ('e review_error, 'v timesheet_review \<times> members) result option" where
  "timesheet_review fuel show_v projects get clock enrich now args o0 =
     (case aggregate_entries_range show_v projects True (get (vo_start o0) (vo_end o0)) clock (Some (vo_zone o0))
             (vo_start o0) (vo_end o0) (review_aggregate_options (vo_max_entries o0)) of
        Inl e \<Rightarrow> Some (Inl (ReviewScan e))
      | Inr agg \<Rightarrow>
          (let entries = sorted_entries_by_start now (ag_list agg) in
           map_option
             (\<lambda>(issues, suggestions).
                Inr (cap_timesheet_review_details
                  \<lparr>tv_totals = totals_from_agg agg, tv_by_day = day_summaries_from_agg agg,
                   tv_by_project = project_summaries_from_agg agg, tv_issues = issues, tv_actions = suggestions,
                   tv_entries = (if bool_member args ''include_entries'' then enrich entries else [])\<rparr> (vo_max_rows o0)))
             (build_timesheet_review fuel now entries (vo_start o0) (vo_end o0) (vo_zone o0) (vo_workday_start o0)
               (vo_workday_end o0) (vo_min_gap o0) (vo_max_suggestions o0))))"

section \<open>The overlap check before work is logged\<close>

record time_entry_ref =
  er_id :: string
  er_description :: string
  er_project :: string
  er_project_name :: string
  er_start :: instant
  er_end :: instant

definition time_entry_ref_of :: "report_entry \<Rightarrow> instant \<Rightarrow> instant \<Rightarrow> time_entry_ref" where
  "time_entry_ref_of e start fin =
     \<lparr>er_id = re_id e, er_description = re_description e, er_project = re_project e,
      er_project_name = re_project_name e, er_start = start, er_end = fin\<rparr>"

definition overlap_lookback :: duration where
  "overlap_lookback = 24 * 60 * minute"

definition find_entry_overlaps ::
  "(json \<Rightarrow> string) \<Rightarrow> listed_project list option \<Rightarrow> (instant \<Rightarrow> instant \<Rightarrow> nat \<Rightarrow> ('e, report_entry list) result) \<Rightarrow>
   (int \<Rightarrow> instant) \<Rightarrow> instant \<Rightarrow> instant \<Rightarrow> instant \<Rightarrow> ('e aggregate_error, time_entry_ref list) result" where
  "find_entry_overlaps show_v projects get clock now start fin =
     (let lookback = start - overlap_lookback in
      bind_result
        (aggregate_entries_range show_v projects False (get lookback fin) clock (Some utc_location) lookback fin
          (review_aggregate_options 0))
        (\<lambda>agg. Inr (concat (map (\<lambda>e.
           case time_entry_bounds now e of
             None \<Rightarrow> []
           | Some (s, f) \<Rightarrow> if start < f \<and> s < fin then [time_entry_ref_of e s f] else []) (ag_list agg)))))"

datatype 'e log_failure =
    BadStartDate string
  | BadEndDate string
  | OverlapScan "'e aggregate_error"
  | EntryOverlaps "time_entry_ref list"

definition reject_log_work_overlap ::
  "(json \<Rightarrow> string) \<Rightarrow> listed_project list option \<Rightarrow> (instant \<Rightarrow> instant \<Rightarrow> nat \<Rightarrow> ('e, report_entry list) result) \<Rightarrow>
   (int \<Rightarrow> instant) \<Rightarrow> location option \<Rightarrow> instant \<Rightarrow> members \<Rightarrow> ('e log_failure, unit) result" where
  "reject_log_work_overlap show_v projects get clock default_tz now args =
     (if bool_member args ''allow_overlap'' then Inr ()
      else (let loc = (case default_tz of None \<Rightarrow> utc_location | Some l \<Rightarrow> l);
                start_raw = trim_space (str_member args ''start''); end_raw = trim_space (str_member args ''end'')
            in case parse_datetime now start_raw loc of
                 Inl _ \<Rightarrow> Inl (BadStartDate start_raw)
               | Inr start \<Rightarrow>
                   (case parse_datetime now end_raw loc of
                      Inl _ \<Rightarrow> Inl (BadEndDate end_raw)
                    | Inr fin \<Rightarrow>
                        (case find_entry_overlaps show_v projects get clock now start fin of
                           Inl e \<Rightarrow> Inl (OverlapScan e)
                         | Inr overlaps \<Rightarrow> if overlaps \<noteq> [] then Inl (EntryOverlaps overlaps) else Inr ()))))"

section \<open>What a gap is\<close>

text \<open>No entry with bounds meets the open interval.\<close>

definition untracked :: "instant \<Rightarrow> report_entry list \<Rightarrow> instant \<Rightarrow> instant \<Rightarrow> bool" where
  "untracked now entries a b \<longleftrightarrow>
     (\<forall>e \<in> set entries. case time_entry_bounds now e of None \<Rightarrow> True | Some (s, f) \<Rightarrow> f \<le> a \<or> b \<le> s)"

lemma untracked_Cons:
  "untracked now (e # es) a b \<longleftrightarrow>
     (case time_entry_bounds now e of None \<Rightarrow> True | Some (s, f) \<Rightarrow> f \<le> a \<or> b \<le> s) \<and> untracked now es a b"
  by (simp add: untracked_def)

definition by_start :: "instant \<Rightarrow> report_entry list \<Rightarrow> bool" where
  "by_start now entries \<longleftrightarrow> sorted (map (start_rank now) entries)"

lemma by_start_sorted: "by_start now (sorted_entries_by_start now entries)"
  by (simp add: by_start_def sorted_entries_by_start_def)

lemma by_start_Cons:
  "by_start now (e # es) \<longleftrightarrow>
     (\<forall>x \<in> set es. start_rank now e \<le> start_rank now x) \<and> by_start now es"
  by (auto simp: by_start_def)

lemma later_starts_later:
  assumes "start_rank now e \<le> start_rank now x"
    and "time_entry_bounds now e = Some (s, f)" and "time_entry_bounds now x = Some (s', f')"
  shows "s \<le> s'"
  using assms by (auto simp: start_rank_def less_eq_prod_def)

text \<open>A gap of at least a span, measured with the saturating subtraction.\<close>

lemma long_enough: "m \<le> max_int64 \<Longrightarrow> m \<le> sub_time b a \<longleftrightarrow> m \<le> b - a \<or> m \<le> min_int64"
  by (auto simp: sub_time_def)

lemma window_gaps_sound:
  assumes "by_start now es" and "0 < m" and "m \<le> max_int64" and "ws \<le> cursor"
    and "(a, b) \<in> set (window_gaps now m ws we cursor es)"
  shows "cursor \<le> a \<and> m \<le> b - a \<and> b \<le> we \<and> untracked now es a b"
  using assms
proof (induction es arbitrary: cursor)
  case Nil
  then show ?case by (auto simp: untracked_def long_enough min_int64_def split: if_splits)
next
  case (Cons e es)
  show ?case
  proof (cases "time_entry_bounds now e")
    case None
    with Cons show ?thesis by (simp add: untracked_Cons by_start_Cons)
  next
    case (Some sf)
    obtain s f where e: "time_entry_bounds now e = Some (s, f)" using Some by (cases sf) auto
    have later: "s \<le> s'" if "x \<in> set es" "time_entry_bounds now x = Some (s', f')" for x s' f'
      using Cons.prems(1) that e later_starts_later unfolding by_start_Cons by blast
    show ?thesis
    proof (cases "f \<le> ws \<or> we \<le> s")
      case True
      with Cons.IH [of cursor] Cons.prems e show ?thesis by (force simp: untracked_Cons by_start_Cons)
    next
      case False
      let ?s = "max s ws" and ?f = "min f we"
      consider "(a, b) = (cursor, ?s)" "cursor < ?s" "m \<le> sub_time ?s cursor"
        | "(a, b) \<in> set (window_gaps now m ws we (if cursor < ?f then ?f else cursor) es)"
        using Cons.prems(5) e False by (auto simp: Let_def split: if_splits)
      then show ?thesis
      proof cases
        case 1
        with False Cons.prems have "b = s" "a = cursor" "m \<le> b - a" "b \<le> we"
          by (auto simp: long_enough min_int64_def)
        with later e show ?thesis by (fastforce simp: untracked_def split: option.split)
      next
        case 2
        with Cons.IH [OF _ _ _ _ 2] Cons.prems False e show ?thesis
          by (auto simp: untracked_Cons by_start_Cons split: if_splits)
      qed
    qed
  qed
qed

lemma window_gaps_complete:
  assumes "m \<le> y - x" and "m \<le> max_int64" and "0 < m" and "cursor \<le> x" and "ws \<le> x" and "y \<le> we"
    and "untracked now es x y" and "by_start now es"
  shows "\<exists>(a, b) \<in> set (window_gaps now m ws we cursor es). a \<le> x \<and> y \<le> b"
  using assms
proof (induction es arbitrary: cursor)
  case Nil
  then show ?case by (auto simp: long_enough)
next
  case (Cons e es)
  show ?case
  proof (cases "time_entry_bounds now e")
    case None
    with Cons show ?thesis by (simp add: untracked_Cons by_start_Cons)
  next
    case (Some sf)
    obtain s f where e: "time_entry_bounds now e = Some (s, f)" using Some by (cases sf) auto
    have es: "untracked now es x y" "by_start now es" and meets: "f \<le> x \<or> y \<le> s"
      using Cons.prems e by (auto simp: untracked_Cons by_start_Cons)
    note IH = Cons.IH [OF Cons.prems(1-3) _ Cons.prems(5,6) es]
    show ?thesis
    proof (cases "f \<le> ws \<or> we \<le> s")
      case True
      with IH [OF Cons.prems(4)] e show ?thesis by simp
    next
      case False
      show ?thesis
      proof (cases "f \<le> x")
        case True
        with Cons.prems(4) have "(if cursor < min f we then min f we else cursor) \<le> x" by auto
        from IH [OF this] e False show ?thesis by (auto simp: Let_def)
      next
        case before: False
        with meets have "y \<le> s" by simp
        with Cons.prems have "cursor < max s ws" "m \<le> sub_time (max s ws) cursor" by (auto simp: long_enough)
        with e False Cons.prems(4) \<open>y \<le> s\<close> show ?thesis by (auto simp: Let_def intro!: bexI [of _ "(cursor, max s ws)"])
      qed
    qed
  qed
qed

section \<open>The walk over the days\<close>

text \<open>Moving the date of an instant moves the instant by whole days, but for the offsets.\<close>

lemma add_days_moves:
  "\<exists>u. add_days loc n t = t + (n * 86400 + offset_at loc (t div second) - offset_at loc u) * second"
proof -
  define l where "l = local_seconds loc t"
  obtain y m d where c: "civil_of_days (l div 86400) = (y, m, d)" by (metis prod_cases3)
  define sod where "sod = l mod 86400"
  have "days_of_date y m d = l div 86400" using civil_of_days_correct [OF c] by simp
  then have "civil_seconds y m (d + n) (sod div 3600) (sod div 60 mod 60) (sod mod 60) = (l div 86400 + n) * 86400 + sod"
    using hms_split [of sod] by (simp add: civil_seconds_def days_of_date_add)
  also have "\<dots> = l + n * 86400"
    using div_mult_mod_eq [of l 86400] by (simp only: sod_def distrib_right)
  finally have unix: "civil_seconds y m (d + n) (sod div 3600) (sod div 60 mod 60) (sod mod 60) = l + n * 86400" .
  have "\<exists>u. date_in loc y m (d + n) (sod div 3600) (sod div 60 mod 60) (sod mod 60) ns =
      (l + n * 86400 - offset_at loc u) * second + ns" for ns
  proof -
    obtain off from0 until0 where z: "loc (l + n * 86400) = (off, from0, until0)" by (metis prod_cases3)
    then have "off = offset_at loc (l + n * 86400)" by (simp add: offset_at_def)
    with z show ?thesis unfolding date_in_def Let_def unix z prod.case by (cases "off = 0") (auto split: if_splits)
  qed
  then obtain u where "add_days loc n t = (l + n * 86400 - offset_at loc u) * second + t mod second"
    unfolding add_days_def civil_date_def l_def [symmetric] c prod.case Let_def sod_def [symmetric] by blast
  moreover have "(q + o0 + k - v) * b + r = q * b + r + (k + o0 - v) * b" for q o0 k v b r :: int
    by (simp add: algebra_simps)
  ultimately show ?thesis unfolding l_def local_seconds_def by (metis div_mult_mod_eq)
qed

text \<open>The offsets of a location never differ by a whole day.\<close>

definition tame_zone :: "location \<Rightarrow> bool" where
  "tame_zone loc \<longleftrightarrow> (\<forall>s u. offset_at loc s - offset_at loc u < 86400)"

lemma add_day_later:
  assumes "tame_zone loc"
  shows "t < add_days loc 1 t"
proof -
  obtain u where u: "add_days loc 1 t = t + (1 * 86400 + offset_at loc (t div second) - offset_at loc u) * second"
    using add_days_moves by blast
  have "offset_at loc u - offset_at loc (t div second) < 86400" using assms by (simp add: tame_zone_def)
  then have "0 < (1 * 86400 + offset_at loc (t div second) - offset_at loc u) * second" by (simp add: second_def)
  with u show ?thesis by simp
qed

definition day_at :: "location \<Rightarrow> instant \<Rightarrow> nat \<Rightarrow> instant" where
  "day_at loc day k = (add_days loc 1 ^^ k) day"

lemma day_at_simps: "day_at loc day 0 = day" "day_at loc day (Suc k) = day_at loc (add_days loc 1 day) k"
  by (simp_all add: day_at_def funpow_Suc_right del: funpow.simps(2))

lemma day_at_mono: "tame_zone loc \<Longrightarrow> day \<le> day_at loc day k"
proof (induction k arbitrary: day)
  case (Suc k)
  from Suc.IH [OF Suc.prems, of "add_days loc 1 day"] add_day_later [OF Suc.prems, of day] show ?case
    by (simp add: day_at_simps)
qed (simp add: day_at_simps)

definition gaps_of_day ::
  "instant \<Rightarrow> report_entry list \<Rightarrow> instant \<Rightarrow> instant \<Rightarrow> location \<Rightarrow> int \<times> int \<Rightarrow> int \<times> int \<Rightarrow> duration \<Rightarrow> instant \<Rightarrow>
   (instant \<times> instant) list" where
  "gaps_of_day now entries range_start range_end loc from0 until0 min_gap day =
     (case day_window loc from0 until0 range_start range_end day of
        None \<Rightarrow> [] | Some (ws, we) \<Rightarrow> window_gaps now min_gap ws we ws entries)"

lemma ex_nat_first: "(\<exists>k. P k) \<longleftrightarrow> P 0 \<or> (\<exists>k. P (Suc k))"
  by (metis not0_implies_Suc)

lemma gap_days_of_days:
  assumes "tame_zone loc"
    and "gap_days fuel now entries range_start range_end loc from0 until0 min_gap day = Some gaps"
  shows "g \<in> set gaps \<longleftrightarrow>
    (\<exists>k. day_at loc day k < range_end \<and>
       g \<in> set (gaps_of_day now entries range_start range_end loc from0 until0 min_gap (day_at loc day k)))"
  using assms(2)
proof (induction fuel arbitrary: day gaps)
  case (Suc fuel)
  show ?case
  proof (cases "day < range_end")
    case False
    then have "\<not> day_at loc day k < range_end" for k using day_at_mono [OF assms(1), of day k] by simp
    with False Suc.prems show ?thesis by simp
  next
    case True
    with Suc.prems obtain rest where
      "gap_days fuel now entries range_start range_end loc from0 until0 min_gap (add_days loc 1 day) = Some rest"
      and gaps: "gaps = gaps_of_day now entries range_start range_end loc from0 until0 min_gap day @ rest"
      by (auto simp: gaps_of_day_def)
    from Suc.IH [OF this(1)] gaps True show ?thesis
      by (subst ex_nat_first) (simp add: day_at_simps)
  qed
qed simp

lemma gap_days_enough:
  assumes "tame_zone loc" and "max 0 (range_end - day) < int fuel"
  shows "\<exists>gaps. gap_days fuel now entries range_start range_end loc from0 until0 min_gap day = Some gaps"
  using assms(2)
proof (induction fuel arbitrary: day)
  case (Suc fuel)
  with add_day_later [OF assms(1), of day] have "day < range_end \<Longrightarrow> max 0 (range_end - add_days loc 1 day) < int fuel" by auto
  with Suc.IH show ?case by auto
qed auto

text \<open>The working hours of the reviewed days.\<close>

definition workday_windows :: "location \<Rightarrow> string \<Rightarrow> string \<Rightarrow> instant \<Rightarrow> instant \<Rightarrow> (instant \<times> instant) set" where
  "workday_windows loc workday_start workday_end range_start range_end =
     {w. \<exists>k. day_at loc (first_midnight loc range_start) k < range_end \<and>
          day_window loc (case parse_hhmm workday_start of None \<Rightarrow> (0, 0) | Some hm \<Rightarrow> hm)
            (case parse_hhmm workday_end of None \<Rightarrow> (0, 0) | Some hm \<Rightarrow> hm) range_start range_end
            (day_at loc (first_midnight loc range_start) k) = Some w}"

lemma gaps_of_day_iff:
  "g \<in> set (gaps_of_day now entries range_start range_end loc from0 until0 m day) \<longleftrightarrow>
     (\<exists>w. day_window loc from0 until0 range_start range_end day = Some w \<and>
        g \<in> set (window_gaps now m (fst w) (snd w) (fst w) entries))"
  by (cases "day_window loc from0 until0 range_start range_end day") (auto simp: gaps_of_day_def)

lemma gap_issues_windows:
  assumes "tame_zone loc"
  shows "\<exists>n. \<forall>fuel \<ge> n. \<exists>gaps.
    gap_issues fuel now entries range_start range_end loc workday_start workday_end m = Some (map (\<lambda>(a, b). GapIssue a b) gaps) \<and>
    set gaps = (\<Union>w \<in> workday_windows loc workday_start workday_end range_start range_end.
      set (window_gaps now m (fst w) (snd w) (fst w) entries))"
proof (rule exI [of _ "nat (max 0 (range_end - first_midnight loc range_start) + 1)"], intro allI impI)
  fix fuel
  define from0 until0 where ft: "from0 = (case parse_hhmm workday_start of None \<Rightarrow> (0, 0) | Some hm \<Rightarrow> hm)"
    "until0 = (case parse_hhmm workday_end of None \<Rightarrow> (0, 0) | Some hm \<Rightarrow> hm)"
  define day where "day = first_midnight loc range_start"
  assume fuel: "nat (max 0 (range_end - first_midnight loc range_start) + 1) \<le> fuel"
  from gap_days_enough [OF assms, of range_end day fuel now entries range_start from0 until0 m] fuel [folded day_def]
  obtain gaps where gaps: "gap_days fuel now entries range_start range_end loc from0 until0 m day = Some gaps" by fastforce
  have "set gaps = (\<Union>w \<in> workday_windows loc workday_start workday_end range_start range_end.
      set (window_gaps now m (fst w) (snd w) (fst w) entries))"
    unfolding workday_windows_def ft [symmetric] day_def [symmetric] set_eq_iff gap_days_of_days [OF assms gaps]
      gaps_of_day_iff by blast
  moreover have "gap_issues fuel now entries range_start range_end loc workday_start workday_end m =
      Some (map (\<lambda>(a, b). GapIssue a b) gaps)"
    unfolding gap_issues_def ft [symmetric] Let_def day_def [symmetric] gaps by (simp only: option.map)
  ultimately show "\<exists>gaps. gap_issues fuel now entries range_start range_end loc workday_start workday_end m =
        Some (map (\<lambda>(a, b). GapIssue a b) gaps) \<and>
      set gaps = (\<Union>w \<in> workday_windows loc workday_start workday_end range_start range_end.
        set (window_gaps now m (fst w) (snd w) (fst w) entries))" by blast
qed

lemma untracked_sorted: "untracked now (sorted_entries_by_start now entries) = untracked now entries"
  by (simp add: untracked_def sorted_entries_by_start_def fun_eq_iff)

lemma window_gaps_exact:
  assumes "0 < m" and "m \<le> max_int64"
  shows "(a, b) \<in> set (window_gaps now m ws we ws (sorted_entries_by_start now entries)) \<Longrightarrow>
      m \<le> b - a \<and> untracked now entries a b \<and> ws \<le> a \<and> b \<le> we"
    and "\<lbrakk>ws \<le> x; y \<le> we; m \<le> y - x; untracked now entries x y\<rbrakk> \<Longrightarrow>
      \<exists>(a, b) \<in> set (window_gaps now m ws we ws (sorted_entries_by_start now entries)). a \<le> x \<and> y \<le> b"
  using window_gaps_sound [of now "sorted_entries_by_start now entries" m ws ws a b we, OF by_start_sorted assms order_refl]
    window_gaps_complete [OF _ assms(2,1), of y x ws ws we now "sorted_entries_by_start now entries"] by_start_sorted
  by (auto simp: untracked_sorted)

text \<open>C14 (the gaps of a review are the untracked stretches of the working hours): where no two offsets
  of the time zone are a whole day apart, the walk over the days ends, and each gap it reports lies
  within the working hours of a reviewed day, is at least as long as asked for, and meets no entry;
  conversely every stretch of the working hours that long that meets no entry lies in a reported gap.\<close>

theorem gaps_are_untracked_stretches:
  assumes "tame_zone loc" and "0 < m" and "m \<le> max_int64"
  shows "\<exists>n. \<forall>fuel \<ge> n. \<exists>gaps.
    gap_issues fuel now (sorted_entries_by_start now entries) range_start range_end loc workday_start workday_end m =
      Some (map (\<lambda>(a, b). GapIssue a b) gaps) \<and>
    (\<forall>(a, b) \<in> set gaps. m \<le> b - a \<and> untracked now entries a b \<and>
       (\<exists>(ws, we) \<in> workday_windows loc workday_start workday_end range_start range_end. ws \<le> a \<and> b \<le> we)) \<and>
    (\<forall>(ws, we) \<in> workday_windows loc workday_start workday_end range_start range_end. \<forall>x y.
       ws \<le> x \<and> y \<le> we \<and> m \<le> y - x \<and> untracked now entries x y \<longrightarrow> (\<exists>(a, b) \<in> set gaps. a \<le> x \<and> y \<le> b))"
proof -
  obtain n where n: "\<forall>fuel \<ge> n. \<exists>gaps.
      gap_issues fuel now (sorted_entries_by_start now entries) range_start range_end loc workday_start workday_end m =
        Some (map (\<lambda>(a, b). GapIssue a b) gaps) \<and>
      set gaps = (\<Union>w \<in> workday_windows loc workday_start workday_end range_start range_end.
        set (window_gaps now m (fst w) (snd w) (fst w) (sorted_entries_by_start now entries)))"
    using gap_issues_windows [OF assms(1), of now "sorted_entries_by_start now entries"] by (rule exE)
  show ?thesis
  proof (rule exI [of _ n], intro allI impI)
    fix fuel assume "n \<le> fuel"
    from n [rule_format, OF this] obtain gaps where gaps:
      "gap_issues fuel now (sorted_entries_by_start now entries) range_start range_end loc workday_start workday_end m =
        Some (map (\<lambda>(a, b). GapIssue a b) gaps)"
      "set gaps = (\<Union>w \<in> workday_windows loc workday_start workday_end range_start range_end.
        set (window_gaps now m (fst w) (snd w) (fst w) (sorted_entries_by_start now entries)))" by (elim exE conjE)
    note exact = window_gaps_exact [OF assms(2,3), where entries = entries]
    have "\<forall>g \<in> set gaps. case g of (a, b) \<Rightarrow> m \<le> b - a \<and> untracked now entries a b \<and>
        (\<exists>(ws, we) \<in> workday_windows loc workday_start workday_end range_start range_end. ws \<le> a \<and> b \<le> we)"
    proof (clarify, unfold gaps(2), elim UN_E)
      fix a b w
      assume w: "w \<in> workday_windows loc workday_start workday_end range_start range_end"
        and "(a, b) \<in> set (window_gaps now m (fst w) (snd w) (fst w) (sorted_entries_by_start now entries))"
      from exact(1) [OF this(2)] w show "m \<le> b - a \<and> untracked now entries a b \<and>
          (\<exists>(ws, we) \<in> workday_windows loc workday_start workday_end range_start range_end. ws \<le> a \<and> b \<le> we)"
        by (metis case_prod_beta)
    qed
    moreover have "\<forall>w \<in> workday_windows loc workday_start workday_end range_start range_end. case w of (ws, we) \<Rightarrow>
        \<forall>x y. ws \<le> x \<and> y \<le> we \<and> m \<le> y - x \<and> untracked now entries x y \<longrightarrow> (\<exists>(a, b) \<in> set gaps. a \<le> x \<and> y \<le> b)"
    proof (clarify)
      fix ws we x y
      assume w: "(ws, we) \<in> workday_windows loc workday_start workday_end range_start range_end"
        and "ws \<le> x" "y \<le> we" "m \<le> y - x" "untracked now entries x y"
      from exact(2) [OF this(2-5)] obtain a b where g: "a \<le> x \<and> y \<le> b"
        "(a, b) \<in> set (window_gaps now m ws we ws (sorted_entries_by_start now entries))" by blast
      with w have "(a, b) \<in> set gaps" unfolding gaps(2) by force
      with g(1) show "\<exists>(a, b) \<in> set gaps. a \<le> x \<and> y \<le> b" by blast
    qed
    ultimately show "\<exists>gaps.
        gap_issues fuel now (sorted_entries_by_start now entries) range_start range_end loc workday_start workday_end m =
          Some (map (\<lambda>(a, b). GapIssue a b) gaps) \<and>
        (\<forall>(a, b) \<in> set gaps. m \<le> b - a \<and> untracked now entries a b \<and>
           (\<exists>(ws, we) \<in> workday_windows loc workday_start workday_end range_start range_end. ws \<le> a \<and> b \<le> we)) \<and>
        (\<forall>(ws, we) \<in> workday_windows loc workday_start workday_end range_start range_end. \<forall>x y.
           ws \<le> x \<and> y \<le> we \<and> m \<le> y - x \<and> untracked now entries x y \<longrightarrow> (\<exists>(a, b) \<in> set gaps. a \<le> x \<and> y \<le> b))"
      using gaps(1) by blast
  qed
qed

text \<open>The working day of 18 May 2026 with an entry from 8 to 9 and one from 18:00 to 18:30.\<close>

lemma gaps_are_untracked_stretches_witness:
  "\<exists>n. \<forall>fuel \<ge> n. \<exists>gaps.
     gap_issues fuel 0 (sorted_entries_by_start 0 [evening, morning]) (1779062400 * second) (1779148800 * second) utc_location
       ''09:00'' ''17:00'' (30 * minute) = Some (map (\<lambda>(a, b). GapIssue a b) gaps) \<and>
     (\<forall>(a, b) \<in> set gaps. 30 * minute \<le> b - a \<and> untracked 0 [evening, morning] a b \<and>
       (\<exists>(ws, we) \<in> workday_windows utc_location ''09:00'' ''17:00'' (1779062400 * second) (1779148800 * second).
          ws \<le> a \<and> b \<le> we)) \<and>
     (\<forall>(ws, we) \<in> workday_windows utc_location ''09:00'' ''17:00'' (1779062400 * second) (1779148800 * second). \<forall>x y.
       ws \<le> x \<and> y \<le> we \<and> 30 * minute \<le> y - x \<and> untracked 0 [evening, morning] x y \<longrightarrow>
         (\<exists>(a, b) \<in> set gaps. a \<le> x \<and> y \<le> b))"
  by (rule gaps_are_untracked_stretches)
    (simp_all add: tame_zone_def offset_at_def utc_location_def minute_def second_def max_int64_def)

text \<open>A zone that moves its clock by a whole day: as Samoa did at the end of 29 December 2011, when
  midnight of the 30th became midnight of the 31st. The day after the 29th is the 29th again, and the
  review of a range across that night never ends.\<close>

definition date_line_zone :: location where
  "date_line_zone s = (if s < 1325239200 then (- 36000, min_int64, 1325239200) else (50400, 1325239200, max_int64))"

definition last_midnight :: instant where
  "last_midnight = (1325239200 - 86400) * second"

lemma same_day_again: "add_days date_line_zone 1 last_midnight = last_midnight"
  by code_simp

lemma stuck_day: "last_midnight < range_end \<Longrightarrow>
    gap_days fuel now entries range_start range_end date_line_zone from0 until0 m last_midnight = None"
  by (induction fuel) (simp_all add: same_day_again)

definition day_before :: instant where
  "day_before = last_midnight - 86400 * second"

definition day_after :: instant where
  "day_after = last_midnight + 86400 * second"

lemma day_before_steps:
  "first_midnight date_line_zone day_before = day_before" "add_days date_line_zone 1 day_before = last_midnight"
  "day_before < day_after" "last_midnight < day_after"
  by code_simp+

lemma review_never_ends:
  "gap_issues fuel now entries day_before day_after date_line_zone workday_start workday_end m = None"
proof -
  have "gap_days fuel now entries day_before day_after date_line_zone from0 until0 m day_before = None" for from0 until0
    by (cases fuel) (simp_all add: day_before_steps stuck_day)
  then show ?thesis by (simp add: gap_issues_def day_before_steps Let_def)
qed

section \<open>Overlaps\<close>

text \<open>Two entries at different places of the list that share some time.\<close>

definition sharing_time :: "instant \<Rightarrow> report_entry \<Rightarrow> report_entry \<Rightarrow> bool" where
  "sharing_time now a b \<longleftrightarrow>
     (case (time_entry_bounds now a, time_entry_bounds now b) of
        (Some (s, f), Some (s', f')) \<Rightarrow> s < f' \<and> s' < f
      | _ \<Rightarrow> False)"

lemma sharing_sym: "sharing_time now a b \<longleftrightarrow> sharing_time now b a"
  by (auto simp: sharing_time_def split: option.split)

lemma walk_issue:
  assumes "by_start now es" and "i \<in> set (overlap_walk now es)"
  shows "\<exists>a b s f s' f'. {#a, b#} \<subseteq># mset es \<and> time_entry_bounds now a = Some (s, f) \<and>
    time_entry_bounds now b = Some (s', f') \<and> s \<le> s' \<and> s' < f \<and>
    i = OverlapIssue (re_id a) (re_id b) (max s s') (min f f')"
  using assms
proof (induction now es rule: overlap_walk.induct)
  case (1 now prev cur es)
  show ?case
  proof (cases "i \<in> set (overlap_walk now (cur # es))")
    case True
    with 1 obtain a b s f s' f' where "{#a, b#} \<subseteq># mset (cur # es)" "time_entry_bounds now a = Some (s, f) \<and>
        time_entry_bounds now b = Some (s', f') \<and> s \<le> s' \<and> s' < f \<and>
        i = OverlapIssue (re_id a) (re_id b) (max s s') (min f f')"
      unfolding by_start_Cons by blast
    moreover have "mset (cur # es) \<subseteq># mset (prev # cur # es)" by simp
    ultimately show ?thesis using subset_mset.order_trans by blast
  next
    case False
    with 1(3) obtain s f s' f' where b: "time_entry_bounds now prev = Some (s, f)" "time_entry_bounds now cur = Some (s', f')"
      "s' < f" "i = OverlapIssue (re_id prev) (re_id cur) (max s s') (min f f')"
      by (cases "time_entry_bounds now prev"; cases "time_entry_bounds now cur") (auto split: if_splits)
    moreover have "s \<le> s'" using 1(2) later_starts_later [OF _ b(1,2)] by (simp add: by_start_Cons)
    moreover have "{#prev, cur#} \<subseteq># mset (prev # cur # es)" by simp
    ultimately show ?thesis by blast
  qed
qed auto

text \<open>No issue: nothing that comes later in the order starts before an entry ends.\<close>

lemma silent_walk:
  assumes "by_start now (e # es)" and "overlap_walk now (e # es) = []" and "x \<in> set es"
    and "time_entry_bounds now e = Some (s, f)" and "time_entry_bounds now x = Some (s', f')"
  shows "f \<le> s'"
proof (cases es)
  case (Cons cur rest)
  from assms(1,3) Cons have r: "start_rank now e \<le> start_rank now cur" "start_rank now cur \<le> start_rank now x"
    by (auto simp: by_start_Cons)
  with assms(5) obtain t g where c: "time_entry_bounds now cur = Some (t, g)"
    by (cases "time_entry_bounds now cur") (auto simp: start_rank_def less_eq_prod_def)
  with assms(2,4) Cons have "f \<le> t" by (simp split: if_splits)
  with later_starts_later [OF r(2) c assms(5)] show ?thesis by simp
qed (use assms(3) in simp)

lemma silent_walk_apart:
  "by_start now es \<Longrightarrow> overlap_walk now es = [] \<Longrightarrow> sorted_wrt (\<lambda>a b. \<not> sharing_time now a b) es"
proof (induction es)
  case (Cons e es)
  have "\<not> sharing_time now e x" if "x \<in> set es" for x
    using silent_walk [OF Cons.prems that]
    by (cases "time_entry_bounds now e"; cases "time_entry_bounds now x") (fastforce simp: sharing_time_def)+
  moreover have "overlap_walk now es = []" using Cons.prems(2) by (cases es) auto
  ultimately show ?case using Cons by (simp add: by_start_Cons)
qed simp

lemma two_of_list:
  assumes "sorted_wrt P xs" and "{#a, b#} \<subseteq># mset xs" and "\<And>x y. P x y \<Longrightarrow> P y x"
  shows "P a b"
  using assms(1,2)
proof (induction xs)
  case (Cons x xs)
  have sub: "{#a, b#} \<subseteq># mset xs \<or> a = x \<and> b \<in> set xs \<or> b = x \<and> a \<in> set xs"
  proof (cases "x = a \<or> x = b")
    case True
    with Cons.prems(2) show ?thesis by (auto simp: add_mset_commute single_subset_iff)
  next
    case False
    have "count {#a, b#} y \<le> count (mset xs) y" for y
      using mset_subset_eq_count [OF Cons.prems(2), of y] False by (cases "y = x") (auto split: if_splits)
    then have "{#a, b#} \<subseteq># mset xs" by (rule mset_subset_eqI)
    then show ?thesis ..
  qed
  with Cons assms(3) show ?case by auto
qed simp

text \<open>C29 (an overlap is reported exactly when there is one): if the entries that have bounds also have a
  duration, each overlap issue names two entries of the list that share some time, with the time they
  share, and none is reported only if no two entries share any. Not every pair that does is reported:
  only neighbours in the order of their starts are compared.\<close>

theorem overlaps_detected:
  assumes "\<And>e s f. e \<in> set entries \<Longrightarrow> time_entry_bounds now e = Some (s, f) \<Longrightarrow> s < f"
  shows "(\<forall>i \<in> set (overlap_issues now entries). \<exists>a b s f s' f'.
      {#a, b#} \<subseteq># mset entries \<and> sharing_time now a b \<and>
      time_entry_bounds now a = Some (s, f) \<and> time_entry_bounds now b = Some (s', f') \<and>
      i = OverlapIssue (re_id a) (re_id b) (max s s') (min f f')) \<and>
    (overlap_issues now entries = [] \<longleftrightarrow> (\<forall>a b. {#a, b#} \<subseteq># mset entries \<longrightarrow> \<not> sharing_time now a b))"
proof -
  define es where "es = sorted_entries_by_start now entries"
  have es: "by_start now es" "mset es = mset entries"
    unfolding es_def by (rule by_start_sorted, simp add: sorted_entries_by_start_def)
  have issue: "\<exists>a b s f s' f'. {#a, b#} \<subseteq># mset entries \<and> sharing_time now a b \<and>
      time_entry_bounds now a = Some (s, f) \<and> time_entry_bounds now b = Some (s', f') \<and>
      i = OverlapIssue (re_id a) (re_id b) (max s s') (min f f')" if i: "i \<in> set (overlap_walk now es)" for i
  proof -
    from walk_issue [OF es(1) i] obtain a b s f s' f' where w: "{#a, b#} \<subseteq># mset es" "time_entry_bounds now a = Some (s, f)"
      "time_entry_bounds now b = Some (s', f')" "s \<le> s'" "s' < f" "i = OverlapIssue (re_id a) (re_id b) (max s s') (min f f')"
      by blast
    moreover have "b \<in># mset entries" using mset_subset_eqD [OF w(1)] es(2) by simp
    with assms w(3) have "s' < f'" by simp
    ultimately show ?thesis using es(2) by (fastforce simp: sharing_time_def)
  qed
  moreover have "\<not> sharing_time now a b" if "overlap_walk now es = []" "{#a, b#} \<subseteq># mset entries" for a b
    using two_of_list [OF silent_walk_apart [OF es(1) that(1)]] that(2) sharing_sym unfolding es(2) by blast
  ultimately show ?thesis unfolding overlap_issues_def es_def [symmetric]
    by (metis (no_types, lifting) last_in_set)
qed

definition all_day :: report_entry where
  "all_day = demo_entry ''p1'' ''2026-05-18T08:00:00Z'' ''2026-05-18T20:00:00Z''"

lemma demo_bounds:
  "time_entry_bounds 0 all_day = Some (1779091200 * second, 1779134400 * second)"
  "time_entry_bounds 0 morning = Some (1779091200 * second, 1779094800 * second)"
  "time_entry_bounds 0 evening = Some (1779127200 * second, 1779129000 * second)"
  by code_simp+

lemma overlaps_detected_witness: "overlap_issues 0 [all_day, evening] \<noteq> []"
proof -
  have "sharing_time 0 all_day evening" by (simp add: sharing_time_def demo_bounds second_def)
  moreover have "\<And>e s f. e \<in> set [all_day, evening] \<Longrightarrow> time_entry_bounds 0 e = Some (s, f) \<Longrightarrow> s < f"
    by (auto simp: demo_bounds second_def)
  ultimately show ?thesis using overlaps_detected [of "[all_day, evening]" 0] by auto
qed

text \<open>An entry that lies within a long one is not reported when another comes between their starts.\<close>

lemma overlap_behind_neighbour:
  "sharing_time 0 all_day evening \<and>
   overlap_issues 0 [all_day, morning, evening] = [OverlapIssue [] [] (1779091200 * second) (1779094800 * second)]"
  by (simp add: sharing_time_def demo_bounds second_def overlap_issues_def sorted_entries_by_start_def start_rank_def
      less_eq_prod_def) (simp add: all_day_def demo_entry_def)

section \<open>What the overlap check sees\<close>

lemma aggregated_list:
  assumes "ao_include_entries opts" and "ao_max_entries opts = 0" and "length pages \<le> left"
    and "paged (ag_page_size r) pages" and "\<And>i. i < length pages \<Longrightarrow> get (page + i) = Inr (pages ! i)"
  shows "\<exists>r'. aggregate_pages get clock loc start fin opts left page r = Inr r' \<and>
    ag_list r' = ag_list r @ in_range start fin (concat pages)"
  using assms
proof (induction pages arbitrary: left page r)
  case (Cons batch pages)
  obtain left' where left: "left = Suc left'" using Cons.prems(3) by (cases left) auto
  have get: "get page = Inr batch" using Cons.prems(5) [of 0] by simp
  let ?r = "foldl (aggregate_entry clock loc start fin opts) (r\<lparr>ag_pages := ag_pages r + 1\<rparr>) batch"
  have list: "ag_list (foldl (aggregate_entry clock loc start fin opts) q es) = ag_list q @ in_range start fin es" for q es
    using Cons.prems(1) by (induction es arbitrary: q) (simp_all add: aggregate_entry_def in_range_def Let_def)
  have size: "ag_page_size ?r = ag_page_size r" by (simp add: aggregate_entry_frame)
  show ?case
  proof (cases "int (length batch) < ag_page_size r")
    case True
    with Cons.prems(4) have "pages = []" by (cases pages) (auto simp: paged_def)
    with True left get Cons.prems(2) show ?thesis by (simp add: Let_def size list in_range_def)
  next
    case False
    with Cons.prems(4) have rest: "paged (ag_page_size ?r) pages" unfolding size by (auto simp: paged_def split: if_splits)
    have "get (page + 1 + i) = Inr (pages ! i)" if "i < length pages" for i
      using Cons.prems(5) [of "Suc i"] that by simp
    with Cons.IH [OF Cons.prems(1,2) _ rest, of left' "page + 1"] Cons.prems(3) left obtain r' where
      "aggregate_pages get clock loc start fin opts left' (page + 1) ?r = Inr r'"
      "ag_list r' = ag_list ?r @ in_range start fin (concat pages)" by auto
    with False left get Cons.prems(2) show ?thesis by (simp add: Let_def size list in_range_def)
  qed
qed (simp add: paged_def)

lemma bounds_start: "time_entry_bounds now e = Some (s, f) \<Longrightarrow> start_time e = Some s"
  by (auto simp: time_entry_bounds_def Let_def split: option.splits if_splits)

text \<open>C16 (work is logged only where no recent entry is): without \<open>allow_overlap\<close>, for a readable start and
  end and a server that lists the entries from 24 hours before the start up to the end in full pages but
  the last, the check passes exactly when no listed entry that started in those 24 hours, or later,
  shares time with the new one; an entry that started earlier is never seen, however long it is.\<close>

theorem log_work_overlap_check:
  assumes "\<not> bool_member args ''allow_overlap''"
    and "parse_datetime now (trim_space (str_member args ''start'')) loc = Inr start"
    and "parse_datetime now (trim_space (str_member args ''end'')) loc = Inr fin"
    and "paged 200 pages" and "length pages \<le> 1000"
    and "\<And>i. i < length pages \<Longrightarrow> get (start - 24 * 60 * minute) fin (1 + i) = Inr (pages ! i)"
  shows "reject_log_work_overlap show_v projects get clock (Some loc) now args = Inr () \<longleftrightarrow>
    (\<forall>e \<in> set (concat pages). \<forall>s f. time_entry_bounds now e = Some (s, f) \<and> start - 24 * 60 * minute \<le> s \<longrightarrow>
       f \<le> start \<or> fin \<le> s)"
proof -
  have size: "ag_page_size (new_aggregate (review_aggregate_options 0)) = 200"
    by (simp add: new_aggregate_def review_aggregate_options_def clamp_page_size_def Let_def)
  have "\<exists>r. aggregate_pages (get (start - overlap_lookback) fin) clock utc_location (start - overlap_lookback) fin
      (review_aggregate_options 0) aggregate_page_safety_stop 1 (new_aggregate (review_aggregate_options 0)) = Inr r \<and>
      ag_list r = ag_list (new_aggregate (review_aggregate_options 0)) @ in_range (start - overlap_lookback) fin (concat pages)"
    by (rule aggregated_list)
      (use assms(4-6) in \<open>simp_all add: size aggregate_page_safety_stop_def overlap_lookback_def, simp_all add: review_aggregate_options_def\<close>)
  then obtain r where r: "aggregate_entries_range show_v projects False (get (start - overlap_lookback) fin) clock
      (Some utc_location) (start - overlap_lookback) fin (review_aggregate_options 0) = Inr r"
    and list: "ag_list r = in_range (start - overlap_lookback) fin (concat pages)"
    by (auto simp: aggregate_entries_range_def new_aggregate_def Let_def)
  have kept: "entry_starts_within_range e (start - overlap_lookback) fin \<longleftrightarrow> start - 24 * 60 * minute \<le> s \<and> s < fin"
    if "time_entry_bounds now e = Some (s, f)" for e s f
    using bounds_start [OF that] by (auto simp: entry_starts_within_range_def overlap_lookback_def)
  show ?thesis
    using assms(1-3)
    by (fastforce simp: reject_log_work_overlap_def find_entry_overlaps_def r list in_range_def kept not_less
        split: option.splits if_splits)
qed

definition lunch_args :: members where
  "lunch_args = [(''start'', JStr ''2026-05-18T12:00:00Z''), (''end'', JStr ''2026-05-18T13:00:00Z'')]"

lemma lunch_times:
  "parse_datetime 0 (trim_space (str_member lunch_args ''start'')) utc_location = Inr (1779105600 * second)"
  "parse_datetime 0 (trim_space (str_member lunch_args ''end'')) utc_location = Inr (1779109200 * second)"
  by code_simp+

theorem log_work_overlap_check_witness:
  "reject_log_work_overlap (\<lambda>_. []) None (\<lambda>_ _ _. Inr [morning, evening] :: (unit, _) result) (\<lambda>_. 0) (Some utc_location) 0
     lunch_args = Inr ()"
proof -
  have "\<not> bool_member lunch_args ''allow_overlap''" by code_simp
  from log_work_overlap_check [OF this lunch_times, of "[[morning, evening]]"
      "\<lambda>_ _ _. Inr [morning, evening] :: (unit, _) result" "\<lambda>_. []" None "\<lambda>_. 0"]
  show ?thesis by (simp add: paged_def demo_bounds second_def)
qed

end
