(* ===== verification/EntryWrites.thy ===== *)
theory EntryWrites
  imports TimesheetReview ToolResult ResolveCache
begin

text \<open>
  The tools that write time entries (\<open>entries.go\<close>, \<open>timer.go\<close>, \<open>workflows.go\<close>, \<open>workflows_time_capture.go\<close>,
  \<open>firstslice_data.go\<close>, the ownership guard of \<open>users.go\<close>). A handler is a \<open>handler_m\<close>; decoding a response
  into an entry, a list of entries, a user or a project is part of the service record, and so is the
  resolver of names. What a handler announces to subscribers is part of its outcome; the views of an
  entry, and the reads of reports that enrich them, are left out.
\<close>

section \<open>Entries\<close>

record tracked_entry =
  en_id :: string
  en_description :: string
  en_project :: string
  en_project_name :: string
  en_task :: string
  en_tags :: "string list"
  en_billable :: bool
  en_billable_present :: bool
  en_custom :: json
  en_type :: string
  en_user :: string
  en_start :: string
  en_end :: string

definition entry_running :: "tracked_entry \<Rightarrow> bool" where
  "entry_running e \<longleftrightarrow> en_end e = []"

definition time_entry_put_payload :: "tracked_entry \<Rightarrow> members" where
  "time_entry_put_payload e =
     [(''start'', JStr (en_start e)), (''description'', JStr (en_description e)),
      (''projectId'', JStr (en_project e)), (''billable'', JBool (en_billable e))] @
     (if en_end e \<noteq> [] then [(''end'', JStr (en_end e))] else []) @
     (if en_task e \<noteq> [] then [(''taskId'', JStr (en_task e))] else []) @
     (if en_type e \<noteq> [] then [(''type'', JStr (en_type e))] else []) @
     (if en_tags e \<noteq> [] then [(''tagIds'', JStrs (en_tags e))] else []) @
     (if en_custom e \<noteq> JNull then [(''customFields'', en_custom e)] else [])"

section \<open>The service\<close>

datatype 'c entry_error =
    NoOwner string
  | NotOwned string
  | BadTimezone string
  | BadEntryDate string string
  | EntryStartRequired
  | EndBeforeStart
  | ProjectForTask
  | BadCustomField nat
  | ProjectRequired
  | ProjectNotGiven
  | TimerRunning string
  | TimerNeedsProject 'c
  | NothingStopped
  | NothingToFind
  | NoUpdateField
  | NoMatch
  | ManyMatches
  | SearchSafetyStop
  | EndRequired
  | LogOverlap "unit log_failure"
  | Interrupted
  | NotObjects string
  | NotObjectArray string
  | Undecodable

type_synonym 'c entry_failure = "('c, 'c entry_error) handler_error"

record ('w, 'c) entry_service =
  sv_client :: http_client
  sv_workspace :: string
  sv_zone :: "location option"
  sv_load_zone :: "string \<Rightarrow> location option"
  sv_here :: location
  sv_entry :: "json \<Rightarrow> tracked_entry option"
  sv_entries :: "json \<Rightarrow> tracked_entry list option"
  sv_user :: "json \<Rightarrow> string option"
  sv_project_billable :: "json \<Rightarrow> bool option"
  sv_forces_projects :: "json \<Rightarrow> bool option"
  sv_resolve :: "string \<Rightarrow> string \<Rightarrow> string \<Rightarrow> ('w, 'c entry_failure, string) handler_m"

definition entry_workspace :: "('w, 'c) entry_service \<Rightarrow> ('w, 'c) api \<Rightarrow> ('w, 'c entry_failure, string) handler_m" where
  "entry_workspace sv api = resolve_workspace_id (sv_workspace sv) (sv_client sv) api"

definition entry_path :: "string \<Rightarrow> string list \<Rightarrow> ('c entry_failure, string) result" where
  "entry_path workspace segs = map_error BadPath (workspace_path workspace segs)"

definition checked_id :: "string \<Rightarrow> string \<Rightarrow> ('c entry_failure, string) result" where
  "checked_id ident label = map_error BadId (bind_result (validate_id ident label) (\<lambda>_. Inr ident))"

definition decoded :: "('a option) \<Rightarrow> ('c entry_failure, 'a) result" where
  "decoded v = (case v of None \<Rightarrow> Inl (Domain Undecodable) | Some x \<Rightarrow> Inr x)"

definition call_entry :: "('w, 'c) entry_service \<Rightarrow> ('w, 'c) api \<Rightarrow> json http_call \<Rightarrow> ('w, 'c entry_failure, tracked_entry) handler_m" where
  "call_entry sv api c = bind_m (api_call api c) (\<lambda>v. of_result (decoded (sv_entry sv v)))"

definition get_current_user :: "('w, 'c) entry_service \<Rightarrow> ('w, 'c) api \<Rightarrow> ('w, 'c entry_failure, string) handler_m" where
  "get_current_user sv api s =
     (case ts_user_cache s of
        Some u \<Rightarrow> (Inr u, s)
      | None \<Rightarrow>
          bind_m (api_call api (hc_get (sv_client sv) ''/user'' []))
            (\<lambda>v s1. (case sv_user sv v of
               None \<Rightarrow> (Inl (Domain Undecodable), s1)
             | Some u \<Rightarrow> (Inr u, s1\<lparr>ts_user_cache := Some u\<rparr>))) s)"

definition require_current_user_entry ::
  "('w, 'c) entry_service \<Rightarrow> ('w, 'c) api \<Rightarrow> tracked_entry \<Rightarrow> ('w, 'c entry_failure, unit) handler_m" where
  "require_current_user_entry sv api e =
     bind_m (get_current_user sv api) (\<lambda>user.
       of_result (if en_user e = [] then Inl (Domain (NoOwner (en_id e)))
                  else if en_user e \<noteq> user then Inl (Domain (NotOwned (en_id e)))
                  else Inr ()))"

definition current_user_entries_path ::
  "('w, 'c) entry_service \<Rightarrow> ('w, 'c) api \<Rightarrow> ('w, 'c entry_failure, string \<times> string \<times> string) handler_m" where
  "current_user_entries_path sv api =
     bind_m (entry_workspace sv api) (\<lambda>ws.
     bind_m (get_current_user sv api) (\<lambda>user.
     bind_m (of_result (entry_path ws [''user'', user, ''time-entries''])) (\<lambda>path.
     of_result (Inr (ws, user, path)))))"

section \<open>Changing an entry\<close>

text \<open>An entry being changed, with the names of the fields that differ so far.\<close>

type_synonym edit = "tracked_entry \<times> string list"

definition edit_if :: "bool \<Rightarrow> string \<Rightarrow> (tracked_entry \<Rightarrow> tracked_entry) \<Rightarrow> edit \<Rightarrow> edit" where
  "edit_if c field f ed = (if c then (f (fst ed), snd ed @ [field]) else ed)"

definition edit_description :: "string \<Rightarrow> edit \<Rightarrow> edit" where
  "edit_description v ed = edit_if (v \<noteq> [] \<and> v \<noteq> en_description (fst ed)) ''description'' (en_description_update (\<lambda>_. v)) ed"

definition edit_project :: "string \<Rightarrow> edit \<Rightarrow> edit" where
  "edit_project v ed = edit_if (v \<noteq> [] \<and> v \<noteq> en_project (fst ed)) ''projectId'' (en_project_update (\<lambda>_. v)) ed"

definition edit_named_project :: "bool \<Rightarrow> string \<Rightarrow> edit \<Rightarrow> edit" where
  "edit_named_project named v ed =
     edit_if (named \<and> v \<noteq> en_project (fst ed)) ''projectId'' (en_project_update (\<lambda>_. v)) ed"

definition edit_task :: "string \<Rightarrow> edit \<Rightarrow> edit" where
  "edit_task v ed = edit_if (v \<noteq> [] \<and> v \<noteq> en_task (fst ed)) ''taskId'' (en_task_update (\<lambda>_. v)) ed"

definition edit_tags :: "string list option \<Rightarrow> edit \<Rightarrow> edit" where
  "edit_tags v ed =
     (case v of None \<Rightarrow> ed | Some tags \<Rightarrow> edit_if (tags \<noteq> en_tags (fst ed)) ''tagIds'' (en_tags_update (\<lambda>_. tags)) ed)"

definition edit_start :: "string \<Rightarrow> edit \<Rightarrow> edit" where
  "edit_start v ed = edit_if (v \<noteq> [] \<and> v \<noteq> en_start (fst ed)) ''start'' (en_start_update (\<lambda>_. v)) ed"

definition edit_end :: "string \<Rightarrow> edit \<Rightarrow> edit" where
  "edit_end v ed = edit_if (v \<noteq> [] \<and> v \<noteq> en_end (fst ed)) ''end'' (en_end_update (\<lambda>_. v)) ed"

definition edit_billable :: "bool option \<Rightarrow> edit \<Rightarrow> edit" where
  "edit_billable v ed =
     (case v of
        None \<Rightarrow> ed
      | Some b \<Rightarrow> edit_if (b \<noteq> en_billable (fst ed)) ''billable''
          (\<lambda>e. e\<lparr>en_billable := b, en_billable_present := True\<rparr>) ed)"

definition edit_type :: "string \<Rightarrow> edit \<Rightarrow> edit" where
  "edit_type v ed = edit_if (v \<noteq> [] \<and> v \<noteq> en_type (fst ed)) ''type'' (en_type_update (\<lambda>_. v)) ed"

definition optional_bool_arg :: "members \<Rightarrow> string \<Rightarrow> bool option" where
  "optional_bool_arg args key = (case map_of args key of Some (JBool b) \<Rightarrow> Some b | _ \<Rightarrow> None)"

definition add_bool_query :: "members \<Rightarrow> string \<Rightarrow> string \<Rightarrow> (string \<times> string) list" where
  "add_bool_query args arg key =
     (case optional_bool_arg args arg of None \<Rightarrow> [] | Some b \<Rightarrow> [(key, if b then ''true'' else ''false'')])"

definition entry_detail_query :: "members \<Rightarrow> (string \<times> string) list" where
  "entry_detail_query args =
     add_bool_query args ''hydrated'' ''hydrated'' @ add_bool_query args ''consider_duration_format'' ''consider-duration-format''"

definition tags_arg :: "members \<Rightarrow> ('c entry_failure, string list option) result" where
  "tags_arg args =
     (if map_of args ''tag_ids'' = None then Inr None
      else bind_result (strict_string_slice_arg args ''tag_ids'') (\<lambda>(tags, _). Inr (Some tags)))"

text \<open>An optional date argument, printed in RFC 3339.\<close>

definition date_arg :: "instant \<Rightarrow> location \<Rightarrow> string \<Rightarrow> string \<Rightarrow> ('c entry_failure, string) result" where
  "date_arg now loc label raw =
     (if raw = [] then Inr []
      else (case parse_datetime now raw loc of
              Inl _ \<Rightarrow> Inl (Domain (BadEntryDate label raw)) | Inr t \<Rightarrow> Inr (format_iso t)))"

definition location_from_args :: "('w, 'c) entry_service \<Rightarrow> members \<Rightarrow> ('c entry_failure, location) result" where
  "location_from_args sv args =
     map_error (\<lambda>n. Domain (BadTimezone n)) (load_location (sv_load_zone sv) (sv_here sv) (string_arg args ''timezone'') (sv_zone sv))"

definition merge_entry_args ::
  "('w, 'c) entry_service \<Rightarrow> instant \<Rightarrow> members \<Rightarrow> string \<Rightarrow> tracked_entry \<Rightarrow> ('c entry_failure, edit) result" where
  "merge_entry_args sv now args project existing =
     bind_result (tags_arg args) (\<lambda>tags.
     bind_result (location_from_args sv args) (\<lambda>loc.
     bind_result (date_arg now loc ''start'' (string_arg args ''start'')) (\<lambda>start.
     bind_result (date_arg now loc ''end'' (string_arg args ''end'')) (\<lambda>fin.
       Inr (edit_type (string_arg args ''type'')
         (edit_billable (optional_bool_arg args ''billable'')
           (edit_end fin (edit_start start (edit_tags tags (edit_task (string_arg args ''task_id'')
             (edit_project project (edit_description (string_arg args ''description'') (existing, []))))))))))))) "

text \<open>What a handler leaves: the entry, the changed fields, and what it announces to subscribers - the
  entry before and after.\<close>

record entry_outcome =
  eo_entry :: tracked_entry
  eo_changed :: "string list"
  eo_published :: "(tracked_entry option \<times> tracked_entry option) option"

definition project_arg ::
  "('w, 'c) entry_service \<Rightarrow> string \<Rightarrow> string \<Rightarrow> string \<Rightarrow> ('w, 'c entry_failure, string) handler_m" where
  "project_arg sv ws ident ref =
     (if ident = [] \<and> ref \<noteq> [] then sv_resolve sv ''project'' ws ref else of_result (Inr ident))"

definition update_entry ::
  "('w, 'c) entry_service \<Rightarrow> ('w, 'c) api \<Rightarrow> instant \<Rightarrow> members \<Rightarrow> ('w, 'c entry_failure, entry_outcome) handler_m" where
  "update_entry sv api now args =
     bind_m (of_result (checked_id (string_arg args ''entry_id'') ''entry_id'')) (\<lambda>ident.
     bind_m (entry_workspace sv api) (\<lambda>ws.
     bind_m (of_result (entry_path ws [''time-entries'', ident])) (\<lambda>path.
     bind_m (call_entry sv api (hc_get (sv_client sv) path (entry_detail_query args))) (\<lambda>existing.
     bind_m (require_current_user_entry sv api existing) (\<lambda>_.
     bind_m (project_arg sv ws (string_arg args ''project_id'') (string_arg args ''project'')) (\<lambda>project.
     bind_m (of_result (merge_entry_args sv now args project existing)) (\<lambda>(merged, changed).
     if bool_member args ''dry_run'' then
       of_result (Inr \<lparr>eo_entry = merged, eo_changed = changed, eo_published = None\<rparr>)
     else
       bind_m (call_entry sv api (hc_put_with_query (sv_client sv) path (entry_detail_query args)
                 (Some (JObj (time_entry_put_payload merged))))) (\<lambda>updated.
         of_result (Inr \<lparr>eo_entry = updated, eo_changed = changed, eo_published = Some (Some existing, Some updated)\<rparr>)))))))))"

definition delete_entry ::
  "('w, 'c) entry_service \<Rightarrow> ('w, 'c) api \<Rightarrow> members \<Rightarrow> ('w, 'c entry_failure, entry_outcome) handler_m" where
  "delete_entry sv api args =
     bind_m (of_result (checked_id (string_arg args ''entry_id'') ''entry_id'')) (\<lambda>ident.
     bind_m (entry_workspace sv api) (\<lambda>ws.
     bind_m (of_result (entry_path ws [''time-entries'', ident])) (\<lambda>path.
     bind_m (call_entry sv api (hc_get (sv_client sv) path [])) (\<lambda>entry.
     bind_m (require_current_user_entry sv api entry) (\<lambda>_.
     if bool_member args ''dry_run'' then
       of_result (Inr \<lparr>eo_entry = entry, eo_changed = [], eo_published = None\<rparr>)
     else
       bind_m (api_call api (hc_delete (sv_client sv) path)) (\<lambda>_.
         of_result (Inr \<lparr>eo_entry = entry, eo_changed = [], eo_published = Some (Some entry, None)\<rparr>)))))))"

section \<open>Finding an entry and fixing it\<close>

record find_args =
  fa_contains :: string
  fa_exact :: string
  fa_entry :: string
  fa_after :: string
  fa_before :: string
  fa_description :: string
  fa_project_id :: string
  fa_project :: string
  fa_task :: string
  fa_tags :: "string list option"
  fa_start :: string
  fa_end :: string
  fa_billable :: "bool option"
  fa_dry_run :: bool

text \<open>The dates are trimmed, and printed in RFC 3339. An empty list of tags counts as an update field:
  \<open>strictStringSliceArg\<close> makes a slice that is not nil.\<close>

definition parse_find_and_update_args :: "instant \<Rightarrow> location \<Rightarrow> members \<Rightarrow> ('c entry_failure, find_args) result" where
  "parse_find_and_update_args now loc args =
     bind_result (tags_arg args) (\<lambda>tags.
       (let raw = (\<lambda>key. trim_space (string_arg args key)); given = string_arg args; billable = optional_bool_arg args ''billable''
        in if given ''entry_id'' = [] \<and> given ''description_contains'' = [] \<and> given ''exact_description'' = []
           then Inl (Domain NothingToFind)
           else if given ''new_description'' = [] \<and> given ''project_id'' = [] \<and> given ''project'' = [] \<and> given ''task_id'' = [] \<and>
                   tags = None \<and> given ''start'' = [] \<and> given ''end'' = [] \<and> billable = None
           then Inl (Domain NoUpdateField)
           else
             bind_result (date_arg now loc ''start_after'' (raw ''start_after'')) (\<lambda>after.
             bind_result (date_arg now loc ''start_before'' (raw ''start_before'')) (\<lambda>before.
             bind_result (date_arg now loc ''start'' (raw ''start'')) (\<lambda>start.
             bind_result (date_arg now loc ''end'' (raw ''end'')) (\<lambda>fin.
               Inr \<lparr>fa_contains = given ''description_contains'', fa_exact = given ''exact_description'',
                    fa_entry = given ''entry_id'', fa_after = after, fa_before = before,
                    fa_description = given ''new_description'', fa_project_id = given ''project_id'',
                    fa_project = given ''project'', fa_task = given ''task_id'', fa_tags = tags, fa_start = start,
                    fa_end = fin, fa_billable = billable, fa_dry_run = bool_member args ''dry_run''\<rparr>))))))"

definition entry_matches_find_args :: "tracked_entry \<Rightarrow> find_args \<Rightarrow> bool" where
  "entry_matches_find_args e a \<longleftrightarrow>
     (fa_entry a = [] \<or> en_id e = fa_entry a) \<and>
     (fa_exact a = [] \<or> equal_fold (trim_space (en_description e)) (trim_space (fa_exact a))) \<and>
     (fa_contains a = [] \<or>
        (let needle = to_lower (trim_space (fa_contains a)) in needle = [] \<or> str_contains (to_lower (en_description e)) needle)) \<and>
     (fa_after a = [] \<and> fa_before a = [] \<or>
        (case parse_rfc3339 (en_start e) of
           None \<Rightarrow> False
         | Some start \<Rightarrow>
             (fa_after a = [] \<or> (case parse_rfc3339 (fa_after a) of None \<Rightarrow> False | Some t \<Rightarrow> \<not> start < t)) \<and>
             (fa_before a = [] \<or> (case parse_rfc3339 (fa_before a) of None \<Rightarrow> False | Some t \<Rightarrow> start < t))))"

definition find_entry_by_id ::
  "('w, 'c) entry_service \<Rightarrow> ('w, 'c) api \<Rightarrow> find_args \<Rightarrow> ('w, 'c entry_failure, tracked_entry) handler_m" where
  "find_entry_by_id sv api a =
     bind_m (of_result (checked_id (fa_entry a) ''entry_id'')) (\<lambda>ident.
     bind_m (entry_workspace sv api) (\<lambda>ws.
     bind_m (of_result (entry_path ws [''time-entries'', ident])) (\<lambda>path.
     bind_m (call_entry sv api (hc_get (sv_client sv) path [])) (\<lambda>entry.
     bind_m (require_current_user_entry sv api entry) (\<lambda>_.
     of_result (if entry_matches_find_args entry a then Inr entry else Inl (Domain NoMatch)))))))"

text \<open>The pages of the current user's own entries; \<open>left\<close> may still be read, and a second match ends
  the search at once.\<close>

fun search_pages ::
  "('w, 'c) entry_service \<Rightarrow> ('w, 'c) api \<Rightarrow> find_args \<Rightarrow> string \<Rightarrow> (string \<times> string) list \<Rightarrow> nat \<Rightarrow> nat \<Rightarrow> tracked_entry list \<Rightarrow>
   ('w, 'c entry_failure, tracked_entry) handler_m" where
  "search_pages sv api a path query 0 page found = of_result (Inl (Domain SearchSafetyStop))"
| "search_pages sv api a path query (Suc left) page found =
     bind_m (bind_m (api_call api (hc_get (sv_client sv) path (query @ [(''page'', nat_dec page)])))
       (\<lambda>v. of_result (decoded (sv_entries sv v)))) (\<lambda>entries.
     (let matches = found @ filter (\<lambda>e. entry_matches_find_args e a) entries in
      if length matches > 1 then of_result (Inl (Domain ManyMatches))
      else if length entries < 200 then
        of_result (case matches of [] \<Rightarrow> Inl (Domain NoMatch) | e # _ \<Rightarrow> Inr e)
      else search_pages sv api a path query left (page + 1) matches))"

definition find_single_entry ::
  "('w, 'c) entry_service \<Rightarrow> ('w, 'c) api \<Rightarrow> find_args \<Rightarrow> ('w, 'c entry_failure, tracked_entry) handler_m" where
  "find_single_entry sv api a =
     (if fa_entry a \<noteq> [] then find_entry_by_id sv api a
      else
        (let exact = trim_space (fa_exact a); contains = trim_space (fa_contains a);
             query = [(''page-size'', ''200'')] @
               (if fa_after a = [] then [] else [(''start'', fa_after a)]) @
               (if fa_before a = [] then [] else [(''end'', fa_before a)]) @
               (if exact \<noteq> [] then [(''description'', exact)]
                else if contains \<noteq> [] then [(''description'', contains)] else [])
         in bind_m (current_user_entries_path sv api) (\<lambda>(_, _, path).
              search_pages sv api a path query aggregate_page_safety_stop 1 [])))"

definition find_and_update_entry ::
  "('w, 'c) entry_service \<Rightarrow> ('w, 'c) api \<Rightarrow> instant \<Rightarrow> members \<Rightarrow> ('w, 'c entry_failure, entry_outcome) handler_m" where
  "find_and_update_entry sv api now args =
     bind_m (of_result (bind_result (location_from_args sv args) (\<lambda>loc. parse_find_and_update_args now loc args))) (\<lambda>a.
     bind_m (entry_workspace sv api) (\<lambda>ws.
     bind_m (find_single_entry sv api a) (\<lambda>found.
     bind_m (project_arg sv ws (fa_project_id a) (fa_project a)) (\<lambda>project.
     (let (merged, changed) =
        edit_billable (fa_billable a) (edit_end (fa_end a) (edit_start (fa_start a) (edit_tags (fa_tags a)
          (edit_task (fa_task a) (edit_named_project (fa_project_id a \<noteq> [] \<or> fa_project a \<noteq> []) project
            (edit_description (fa_description a) (found, [])))))))
      in if fa_dry_run a \<or> changed = [] then
           of_result (Inr \<lparr>eo_entry = merged, eo_changed = changed, eo_published = None\<rparr>)
         else
           bind_m (of_result (entry_path ws [''time-entries'', en_id merged])) (\<lambda>path.
           bind_m (call_entry sv api (hc_put (sv_client sv) path (Some (JObj (time_entry_put_payload merged))))) (\<lambda>updated.
           of_result (Inr \<lparr>eo_entry = updated, eo_changed = changed, eo_published = None\<rparr>))))))))"

section \<open>Creating an entry\<close>

definition map_slice_arg :: "members \<Rightarrow> string \<Rightarrow> ('c entry_failure, members list option) result" where
  "map_slice_arg args key =
     (case map_of args key of
        None \<Rightarrow> Inr None
      | Some (JArr xs) \<Rightarrow>
          (case all_some (map as_obj xs) of Some ms \<Rightarrow> Inr (Some ms) | None \<Rightarrow> Inl (Domain (NotObjects key)))
      | Some _ \<Rightarrow> Inl (Domain (NotObjectArray key)))"

fun custom_fields_from :: "nat \<Rightarrow> members list \<Rightarrow> ('c entry_failure, json list) result" where
  "custom_fields_from i [] = Inr []"
| "custom_fields_from i (item # items) =
     (let ident = first_non_empty_string (map (str_member item) [''field_id'', ''custom_field_id'', ''customFieldId'', ''id'']) in
      if trim_space ident = [] then Inl (Domain (BadCustomField i))
      else bind_result (checked_id ident (''custom_fields['' @ nat_dec i @ ''].field_id'')) (\<lambda>_.
        (case map_of item ''value'' of
           None \<Rightarrow> Inl (Domain (BadCustomField i))
         | Some v \<Rightarrow> bind_result (custom_fields_from (Suc i) items)
             (\<lambda>rest. Inr (JObj [(''customFieldId'', JStr ident), (''value'', v)] # rest)))))"

definition entry_custom_fields_from_args :: "members \<Rightarrow> ('c entry_failure, json option) result" where
  "entry_custom_fields_from_args args =
     bind_result (map_slice_arg args ''custom_fields'') (\<lambda>items.
       (case items of None \<Rightarrow> Inr None | Some ms \<Rightarrow> map_sum id (\<lambda>fs. Some (JArr fs)) (custom_fields_from 0 ms)))"

fun check_tags :: "string list \<Rightarrow> ('c entry_failure, unit) result" where
  "check_tags [] = Inr ()"
| "check_tags (t # ts) = bind_result (checked_id t ''tag_id'') (\<lambda>_. check_tags ts)"

definition tag_ids_from_args ::
  "('w, 'c) entry_service \<Rightarrow> members \<Rightarrow> ('w, 'c entry_failure, string list) handler_m" where
  "tag_ids_from_args sv args =
     bind_m (of_result (bind_result (strict_string_slice_arg args ''tag_ids'') (\<lambda>(tags, _).
       bind_result (check_tags tags) (\<lambda>_. Inr tags)))) (\<lambda>tags.
     (let tag = trim_space (string_arg args ''tag'') in
      if tag = [] then of_result (Inr tags)
      else bind_m (sv_resolve sv ''tag'' (sv_workspace sv) tag) (\<lambda>t. of_result (Inr (tags @ [t])))))"

definition validated :: "string \<Rightarrow> string \<Rightarrow> ('c entry_failure, unit) result" where
  "validated ident label = (if ident = [] then Inr () else map_error BadId (validate_id ident label))"

text \<open>The default of \<open>billable\<close> is the project's, when the project can be read.\<close>

definition project_billable ::
  "('w, 'c) entry_service \<Rightarrow> ('w, 'c) api \<Rightarrow> string \<Rightarrow> string \<Rightarrow> ('w, 'c entry_failure, bool option) handler_m" where
  "project_billable sv api ws project s =
     (case entry_path ws [''projects'', project] :: ('c entry_failure, string) result of
        Inl _ \<Rightarrow> (Inr None, s)
      | Inr path \<Rightarrow>
          (case api_call api (hc_get (sv_client sv) path []) s of
             (Inl (e :: 'c entry_failure), s1) \<Rightarrow> (Inr None, s1)
           | (Inr v, s1) \<Rightarrow> (Inr (sv_project_billable sv v), s1)))"

definition default_location :: "('w, 'c) entry_service \<Rightarrow> location" where
  "default_location sv = (case sv_zone sv of None \<Rightarrow> utc_location | Some l \<Rightarrow> l)"

text \<open>The start, and the end when there is one.\<close>

definition entry_times :: "('w, 'c) entry_service \<Rightarrow> instant \<Rightarrow> members \<Rightarrow> ('c entry_failure, members) result" where
  "entry_times sv now args =
     (let start_raw = trim_space (string_arg args ''start''); end_raw = trim_space (string_arg args ''end'');
          loc = default_location sv
      in if start_raw = [] then Inl (Domain EntryStartRequired)
         else (case parse_datetime now start_raw loc of
                 Inl _ \<Rightarrow> Inl (Domain (BadEntryDate ''start'' start_raw))
               | Inr start \<Rightarrow>
                   if end_raw = [] then Inr [(''start'', JStr (format_iso start))]
                   else (case parse_datetime now end_raw loc of
                           Inl _ \<Rightarrow> Inl (Domain (BadEntryDate ''end'' end_raw))
                         | Inr fin \<Rightarrow>
                             if fin \<le> start then Inl (Domain EndBeforeStart)
                             else Inr [(''start'', JStr (format_iso start)), (''end'', JStr (format_iso fin))])))"

definition build_entry_payload ::
  "('w, 'c) entry_service \<Rightarrow> ('w, 'c) api \<Rightarrow> instant \<Rightarrow> members \<Rightarrow> ('w, 'c entry_failure, members \<times> string) handler_m" where
  "build_entry_payload sv api now args =
     (let given = (\<lambda>key. trim_space (string_arg args key)); text = (\<lambda>key v. if v = [] then [] else [(key, JStr v)]) in
      bind_m (of_result (entry_times sv now args)) (\<lambda>times.
      bind_m (project_arg sv (sv_workspace sv) (given ''project_id'') (given ''project'')) (\<lambda>project.
      bind_m (of_result (validated project ''project_id'')) (\<lambda>_.
      bind_m (if given ''task_id'' = [] \<and> given ''task'' \<noteq> [] then
                if project = [] then of_result (Inl (Domain ProjectForTask))
                else sv_resolve sv ''task'' (task_scope (sv_workspace sv) project) (given ''task'')
              else of_result (Inr (given ''task_id''))) (\<lambda>task.
      bind_m (of_result (validated task ''task_id'')) (\<lambda>_.
      bind_m (tag_ids_from_args sv args) (\<lambda>tags.
      bind_m (of_result (entry_custom_fields_from_args args)) (\<lambda>custom.
      bind_m (case optional_bool_arg args ''billable'' of
                Some b \<Rightarrow> of_result (Inr (Some b))
              | None \<Rightarrow> if project \<noteq> [] \<and> \<not> bool_member args ''dry_run'' then project_billable sv api (sv_workspace sv) project
                        else of_result (Inr None)) (\<lambda>billable.
      of_result (Inr (times @ text ''description'' (given ''description'') @ text ''type'' (given ''type'') @
        text ''projectId'' project @ text ''taskId'' task @ (if tags = [] then [] else [(''tagIds'', JStrs tags)]) @
        (case custom of None \<Rightarrow> [] | Some v \<Rightarrow> [(''customFields'', v)]) @
        (case billable of None \<Rightarrow> [] | Some b \<Rightarrow> [(''billable'', JBool b)]), project)))))))))))"

definition workspace_forces_projects ::
  "('w, 'c) entry_service \<Rightarrow> ('w, 'c) api \<Rightarrow> string \<Rightarrow> ('w, 'c entry_failure, bool) handler_m" where
  "workspace_forces_projects sv api ws s =
     (case entry_path ws [] :: ('c entry_failure, string) result of
        Inl _ \<Rightarrow> (Inr False, s)
      | Inr path \<Rightarrow>
          (case api_call api (hc_get (sv_client sv) path []) s of
             (Inl (e :: 'c entry_failure), s1) \<Rightarrow> (Inr False, s1)
           | (Inr v, s1) \<Rightarrow> (Inr (sv_forces_projects sv v = Some True), s1)))"

definition create_entry ::
  "('w, 'c) entry_service \<Rightarrow> ('w, 'c) api \<Rightarrow> instant \<Rightarrow> members \<Rightarrow> ('w, 'c entry_failure, tracked_entry) handler_m" where
  "create_entry sv api now args =
     bind_m (build_entry_payload sv api now args) (\<lambda>(payload, project).
     bind_m (if project = [] then workspace_forces_projects sv api (sv_workspace sv) else of_result (Inr False)) (\<lambda>forced.
     if forced then of_result (Inl (Domain ProjectRequired))
     else
       bind_m (of_result (entry_path (sv_workspace sv) [''time-entries''])) (\<lambda>path.
       call_entry sv api (hc_post (sv_client sv) path (Some (JObj payload))))))"

section \<open>What a handler does to Clockify\<close>

text \<open>The world of a recorded run: the calls so far with their answers, and the world behind them.\<close>

type_synonym ('v, 'c) run = "(json http_call \<times> ('c, json) result) list \<times> 'v"

definition recorded :: "('v, 'c) api \<Rightarrow> (('v, 'c) run, 'c) api" where
  "recorded api c w = (case api c (snd w) of (r, v) \<Rightarrow> (r, (fst w @ [(c, r)], v)))"

definition made :: "('v, 'c) run tool_state \<Rightarrow> (json http_call \<times> ('c, json) result) list" where
  "made s = fst (ts_world s)"

definition writes :: "('v, 'c) run tool_state \<Rightarrow> (json http_call \<times> ('c, json) result) list" where
  "writes s = filter (\<lambda>(c, _). call_method c \<noteq> ''GET'') (made s)"

text \<open>A state reached by reads only, with the user still known.\<close>

definition read_on :: "('v, 'c) run tool_state \<Rightarrow> ('v, 'c) run tool_state \<Rightarrow> bool" where
  "read_on s s' \<longleftrightarrow>
     (\<exists>tr. made s' = made s @ tr \<and> (\<forall>(c, _) \<in> set tr. call_method c = ''GET'')) \<and>
     (ts_user_cache s \<noteq> None \<longrightarrow> ts_user_cache s' = ts_user_cache s)"

definition reads_only :: "(('v, 'c) run, 'e, 'a) handler_m \<Rightarrow> bool" where
  "reads_only m \<longleftrightarrow> (\<forall>s. read_on s (snd (m s)))"

lemma read_on_refl [simp]: "read_on s s"
  by (simp add: read_on_def)

lemma read_on_trans: "read_on s s' \<Longrightarrow> read_on s' s'' \<Longrightarrow> read_on s s''"
  by (fastforce simp: read_on_def)

lemma read_on_writes: "read_on s s' \<Longrightarrow> writes s' = writes s \<and> set (made s) \<subseteq> set (made s')"
  by (fastforce simp: read_on_def writes_def filter_empty_conv)

named_theorems reads

lemma reads_of_result [reads]: "reads_only (of_result r)"
  by (simp add: reads_only_def)

lemma reads_bind [reads]:
  assumes "reads_only m" and "\<And>a. reads_only (f a)"
  shows "reads_only (bind_m m f)"
  using assms read_on_trans
  by (fastforce simp: reads_only_def snd_bind_m split: sum.split)

lemma api_call_recorded:
  "made (snd (api_call (recorded api) c s)) = made s @ [(c, fst (api c (snd (ts_world s))))]"
  "ts_user_cache (snd (api_call (recorded api) c s)) = ts_user_cache s"
  "fst (api_call (recorded api) c s) = Inr v \<Longrightarrow> fst (api c (snd (ts_world s))) = Inr v"
  by (auto simp: api_call_def recorded_def made_def split: prod.splits sum.splits)

lemma reads_get [reads]: "call_method c = ''GET'' \<Longrightarrow> reads_only (api_call (recorded api) c)"
  by (simp add: reads_only_def read_on_def api_call_recorded)

lemma get_method [simp]: "call_method (hc_get c path query) = ''GET''"
  by (simp add: hc_get_def call_def)

lemma reads_if [reads]: "reads_only m \<Longrightarrow> reads_only m' \<Longrightarrow> reads_only (if b then m else m')"
  by simp

lemma reads_call_entry [reads]: "call_method c = ''GET'' \<Longrightarrow> reads_only (call_entry sv (recorded api) c)"
  by (simp add: call_entry_def reads)

lemma read_on_caches [simp]:
  "read_on s (s\<lparr>ts_workspace_cache := w\<rparr>)"
  "ts_user_cache s = None \<Longrightarrow> read_on s (s\<lparr>ts_user_cache := u\<rparr>)"
  by (simp_all add: read_on_def made_def)

lemma reads_bind_at:
  assumes "reads_only m" and "\<And>a s1. m s = (Inr a, s1) \<Longrightarrow> read_on s1 (snd (f a s1))"
  shows "read_on s (snd (bind_m m f s))"
  using assms read_on_trans
  by (fastforce simp: reads_only_def snd_bind_m split: sum.split intro: prod_eqI)

lemma reads_workspace [reads]: "reads_only (entry_workspace sv (recorded api))"
  unfolding reads_only_def entry_workspace_def resolve_workspace_id_def
  by (auto intro!: reads_bind_at reads split: json.split list.split)

lemma api_call_keeps_user: "api_call (recorded api) c s = (r, s1) \<Longrightarrow> ts_user_cache s1 = ts_user_cache s"
  by (metis api_call_recorded(2) snd_conv)

lemma reads_current_user [reads]: "reads_only (get_current_user sv (recorded api))"
  unfolding reads_only_def
proof
  fix s
  show "read_on s (snd (get_current_user sv (recorded api) s))"
  proof (cases "ts_user_cache s")
    case (Some u)
    then show ?thesis by (simp add: get_current_user_def)
  next
    case None
    show ?thesis
      unfolding get_current_user_def None option.case
      by (rule reads_bind_at) (auto simp: reads None dest: api_call_keeps_user split: option.split)
  qed
qed

lemma reads_require_user [reads]: "reads_only (require_current_user_entry sv (recorded api) e)"
  by (simp add: require_current_user_entry_def reads)

text \<open>The guard passes only for an entry of the known user.\<close>

lemma current_user_known:
  "get_current_user sv api s = (Inr u, s') \<Longrightarrow> ts_user_cache s' = Some u"
  by (auto simp: get_current_user_def bind_m_Inr split: option.splits)

lemma require_user_ok:
  assumes "require_current_user_entry sv api e s = (Inr (), s')"
  shows "en_user e \<noteq> [] \<and> ts_user_cache s' = Some (en_user e)"
  using assms current_user_known
  by (auto simp: require_current_user_entry_def bind_m_Inr of_result_def split: if_splits)

section \<open>Only one's own entries\<close>

text \<open>What the caller did not name stays as it was.\<close>

definition only_requested :: "members \<Rightarrow> tracked_entry \<Rightarrow> tracked_entry \<Rightarrow> bool" where
  "only_requested args e e' \<longleftrightarrow>
     en_id e' = en_id e \<and> en_user e' = en_user e \<and> en_custom e' = en_custom e \<and> en_project_name e' = en_project_name e \<and>
     (string_arg args ''description'' = [] \<longrightarrow> en_description e' = en_description e) \<and>
     (string_arg args ''project_id'' = [] \<and> string_arg args ''project'' = [] \<longrightarrow> en_project e' = en_project e) \<and>
     (string_arg args ''task_id'' = [] \<longrightarrow> en_task e' = en_task e) \<and>
     (map_of args ''tag_ids'' = None \<longrightarrow> en_tags e' = en_tags e) \<and>
     (string_arg args ''start'' = [] \<longrightarrow> en_start e' = en_start e) \<and>
     (string_arg args ''end'' = [] \<longrightarrow> en_end e' = en_end e) \<and>
     (string_arg args ''type'' = [] \<longrightarrow> en_type e' = en_type e) \<and>
     (optional_bool_arg args ''billable'' = None \<longrightarrow> en_billable e' = en_billable e)"

lemmas edit_defs = edit_if_def edit_description_def edit_project_def edit_task_def edit_tags_def edit_start_def edit_end_def
  edit_billable_def edit_type_def

lemma method_of [simp]:
  "call_method (hc_put_with_query c path query body) = ''PUT''" "call_method (hc_put c path body) = ''PUT''"
  "call_method (hc_delete c path) = ''DELETE''" "call_method (hc_post c path body) = ''POST''"
  by (simp_all add: hc_put_with_query_def hc_put_def hc_delete_def hc_post_def call_def)

lemma bind_m_run:
  "bind_m m f s = (r, s') \<longleftrightarrow>
     (\<exists>e. m s = (Inl e, s') \<and> r = Inl e) \<or> (\<exists>a s1. m s = (Inr a, s1) \<and> f a s1 = (r, s'))"
  by (auto simp: bind_m_def split: prod.split sum.split)

lemma reads_run: "reads_only m \<Longrightarrow> m s = (r, s') \<Longrightarrow> read_on s s'"
  by (metis reads_only_def snd_conv)

lemma call_entry_answer:
  fixes sv :: "(('v, 'c) run, 'c) entry_service"
  assumes "call_entry sv (recorded api) c s = (Inr e, s')"
  shows "\<exists>v. (c, Inr v) \<in> set (made s') \<and> sv_entry sv v = Some e"
proof -
  obtain v where v: "api_call (recorded api) c s = (Inr v :: ('c entry_failure, json) result, s')" "sv_entry sv v = Some e"
    using assms by (auto simp: call_entry_def bind_m_Inr of_result_def decoded_def split: option.splits)
  have "made s' = made s @ [(c, Inr v)]"
    using v(1) by (auto simp: api_call_def recorded_def made_def split: prod.splits sum.splits)
  then show ?thesis using v by auto
qed

lemma one_write:
  "call_method c \<noteq> ''GET'' \<Longrightarrow> writes s = [] \<Longrightarrow>
   writes (snd (call_entry sv (recorded api) c s)) = [(c, fst (api c (snd (ts_world s))))]"
  "call_method c \<noteq> ''GET'' \<Longrightarrow> writes s = [] \<Longrightarrow>
   writes (snd (api_call (recorded api) c s)) = [(c, fst (api c (snd (ts_world s))))]"
  by (simp_all add: writes_def api_call_recorded call_entry_def snd_bind_m of_result_def split: sum.split)

lemma calls_on:
  "set (made s) \<subseteq> set (made (snd (call_entry sv (recorded api) c s)))"
  "set (made s) \<subseteq> set (made (snd (api_call (recorded api) c s)))"
  "ts_user_cache (snd (call_entry sv (recorded api) c s)) = ts_user_cache s"
  by (auto simp: api_call_recorded call_entry_def snd_bind_m of_result_def split: sum.split)

lemma reads_then:
  assumes "reads_only m" and "writes s = []" and "\<And>s1. writes s1 = [] \<Longrightarrow> Q s1"
    and "\<And>a s1. m s = (Inr a, s1) \<Longrightarrow> read_on s s1 \<Longrightarrow> writes s1 = [] \<Longrightarrow> Q (snd (f a s1))"
  shows "Q (snd (bind_m m f s))"
proof -
  obtain r s1 where r: "m s = (r, s1)" by fastforce
  then have "read_on s s1" using reads_run [OF assms(1)] by blast
  moreover from this have "writes s1 = []" using read_on_writes assms(2) by metis
  ultimately show ?thesis using assms(3,4) r by (cases r) (simp_all add: bind_m_def)
qed

lemma snd_bind_result [simp]: "snd (bind_m m (\<lambda>a. of_result (r a)) s) = snd (m s)"
  by (simp add: bind_m_def of_result_def split: prod.split sum.split)

lemma fst_edits:
  "fst (edit_description v ed) = (if v = [] then fst ed else (fst ed)\<lparr>en_description := v\<rparr>)"
  "fst (edit_project v ed) = (if v = [] then fst ed else (fst ed)\<lparr>en_project := v\<rparr>)"
  "fst (edit_task v ed) = (if v = [] then fst ed else (fst ed)\<lparr>en_task := v\<rparr>)"
  "fst (edit_tags ts ed) = (case ts of None \<Rightarrow> fst ed | Some tags \<Rightarrow> (fst ed)\<lparr>en_tags := tags\<rparr>)"
  "fst (edit_start v ed) = (if v = [] then fst ed else (fst ed)\<lparr>en_start := v\<rparr>)"
  "fst (edit_end v ed) = (if v = [] then fst ed else (fst ed)\<lparr>en_end := v\<rparr>)"
  "fst (edit_type v ed) = (if v = [] then fst ed else (fst ed)\<lparr>en_type := v\<rparr>)"
  by (simp_all add: edit_defs split: option.split)

text \<open>What the caller did not name stays as it was, in what is sent.\<close>

lemma merge_only_requested:
  fixes sv :: "('w, 'c) entry_service"
  assumes "merge_entry_args sv now args project existing = Inr (merged, changed)"
    and "string_arg args ''project_id'' = [] \<and> string_arg args ''project'' = [] \<longrightarrow> project = []"
  shows "only_requested args existing merged"
proof -
  obtain tags loc start fin where
      t: "(tags_arg args :: ('c entry_failure, string list option) result) = Inr tags"
      "(date_arg now loc ''start'' (string_arg args ''start'') :: ('c entry_failure, string) result) = Inr start"
      "(date_arg now loc ''end'' (string_arg args ''end'') :: ('c entry_failure, string) result) = Inr fin"
    and m: "merged = fst (edit_type (string_arg args ''type'')
         (edit_billable (optional_bool_arg args ''billable'')
           (edit_end fin (edit_start start (edit_tags tags (edit_task (string_arg args ''task_id'')
             (edit_project project (edit_description (string_arg args ''description'') (existing, [])))))))))"
    using assms(1) unfolding merge_entry_args_def bind_result_eq_Inr by (metis fst_conv sum.inject(2))
  have given: "map_of args ''tag_ids'' = None \<longrightarrow> tags = None"
      "string_arg args ''start'' = [] \<longrightarrow> start = []" "string_arg args ''end'' = [] \<longrightarrow> fin = []"
    using t by (auto simp: tags_arg_def date_arg_def)
  show ?thesis
    using assms(2) given unfolding only_requested_def m
    by (intro conjI) (simp_all add: fst_edits edit_billable_def edit_if_def split: option.split)
qed

text \<open>A run that changed nothing, or made one call that changes something: not in a dry run, at the path of
  the entry the caller named, after reading that entry there and finding the current user its owner.\<close>

definition owned_write ::
  "(('v, 'c) run, 'c) entry_service \<Rightarrow> members \<Rightarrow> (string \<Rightarrow> tracked_entry \<Rightarrow> json http_call \<Rightarrow> bool) \<Rightarrow>
   ('v, 'c) run tool_state \<Rightarrow> bool" where
  "owned_write sv args ok s \<longleftrightarrow>
     writes s = [] \<or>
     (\<exists>ws path query v existing c answer.
        writes s = [(c, answer)] \<and> ok path existing c \<and> \<not> bool_member args ''dry_run'' \<and>
        workspace_path ws [''time-entries'', string_arg args ''entry_id''] = Inr path \<and>
        (hc_get (sv_client sv) path query, Inr v) \<in> set (made s) \<and> sv_entry sv v = Some existing \<and>
        en_user existing \<noteq> [] \<and> ts_user_cache s = Some (en_user existing))"

lemma owned_none [simp]: "writes s = [] \<Longrightarrow> owned_write sv args ok s"
  by (simp add: owned_write_def)

lemma checked_id_ok: "of_result (checked_id i label) s = (Inr j, s1) \<Longrightarrow> j = i"
  by (auto simp: checked_id_def of_result_def map_error_def bind_result_def split: sum.splits)

lemma entry_path_ok:
  "of_result (entry_path ws segs) s = (Inr path, s1) \<Longrightarrow> workspace_path ws segs = Inr path"
  by (auto simp: entry_path_def of_result_def map_error_def split: sum.splits)

lemma read_on_keeps:
  "read_on s s' \<Longrightarrow> x \<in> set (made s) \<Longrightarrow> x \<in> set (made s')"
  "read_on s s' \<Longrightarrow> ts_user_cache s = Some u \<Longrightarrow> ts_user_cache s' = Some u"
  by (auto simp: read_on_def)

lemma reads_project_arg [reads]:
  "\<forall>k scope ref. reads_only (sv_resolve sv k scope ref) \<Longrightarrow> reads_only (project_arg sv ws i ref)"
  by (simp add: project_arg_def reads)

lemma owned_call:
  assumes "workspace_path ws [''time-entries'', string_arg args ''entry_id''] = Inr path"
    and "call_entry sv (recorded api) (hc_get (sv_client sv) path query) s1 = (Inr existing, s2)"
    and "require_current_user_entry sv (recorded api) existing s2 = (Inr (), s3)" and "read_on s2 s3" and "read_on s3 s4"
    and "\<not> bool_member args ''dry_run''" and "ok path existing c"
    and "writes s5 = [(c, answer)]" and "set (made s4) \<subseteq> set (made s5)" and "ts_user_cache s5 = ts_user_cache s4"
  shows "owned_write sv args ok s5"
proof -
  obtain v where v: "(hc_get (sv_client sv) path query, Inr v) \<in> set (made s2)" "sv_entry sv v = Some existing"
    using call_entry_answer [OF assms(2)] by blast
  have u: "en_user existing \<noteq> []" "ts_user_cache s5 = Some (en_user existing)"
    using require_user_ok [OF assms(3)] read_on_keeps(2) [OF assms(5)] assms(10) by auto
  have "(hc_get (sv_client sv) path query, Inr v) \<in> set (made s5)"
    using read_on_keeps(1) [OF assms(5) read_on_keeps(1) [OF assms(4) v(1)]] assms(9) by blast
  then show ?thesis
    unfolding owned_write_def using assms(1,6-8) v(2) u by blast
qed

lemma update_owned:
  fixes sv :: "(('v, 'c) run, 'c) entry_service"
  assumes r: "\<forall>k scope ref. reads_only (sv_resolve sv k scope ref)" and "writes s = []"
  shows "owned_write sv args (\<lambda>path existing c. \<exists>merged query. only_requested args existing merged \<and>
      c = hc_put_with_query (sv_client sv) path query (Some (JObj (time_entry_put_payload merged))))
    (snd (update_entry sv (recorded api) now args s))"
proof -
  define ok where "ok path existing c \<longleftrightarrow> (\<exists>merged query. only_requested args existing merged \<and>
      c = hc_put_with_query (sv_client sv) path query (Some (JObj (time_entry_put_payload merged))))"
    for path existing and c :: "json http_call"
  note step = reads_then [where Q = "owned_write sv args ok"]
  have "owned_write sv args ok (snd (update_entry sv (recorded api) now args s))"
    unfolding update_entry_def
    apply (rule step [OF reads_of_result assms(2)], simp)
    apply (rule step [OF reads_workspace], assumption, simp)
    apply (rule step [OF reads_of_result], assumption, simp)
    apply (rule step [OF reads_call_entry], simp, assumption, simp)
    apply (rule step [OF reads_require_user], assumption, simp)
    apply (rule step [OF reads_project_arg [OF r]], assumption, simp)
    apply (rule step [OF reads_of_result], assumption, simp)
    subgoal premises prems for ident s1 ws s2 path s3 existing s4 u s5 project s6 edit s7
    proof (cases "bool_member args ''dry_run''")
      case True
      then show ?thesis using prems(21) by (simp add: of_result_def split: prod.split)
    next
      case False
      obtain merged changed where e: "edit = (merged, changed)" by fastforce
      let ?c = "hc_put_with_query (sv_client sv) path (entry_detail_query args) (Some (JObj (time_entry_put_payload merged)))"
      have "only_requested args existing merged"
        using prems(16,19) e
        by (intro merge_only_requested) (auto simp: of_result_def project_arg_def)
      then have ok: "ok path existing ?c" by (auto simp: ok_def)
      have at: "workspace_path ws [''time-entries'', string_arg args ''entry_id''] = Inr path"
        using checked_id_ok [OF prems(1)] entry_path_ok [OF prems(7)] by simp
      have mine: "require_current_user_entry sv (recorded api) existing s4 = (Inr (), s5)" using prems(13) by simp
      have "owned_write sv args ok (snd (call_entry sv (recorded api) ?c s7))"
        by (rule owned_call [where ok = ok, OF at prems(10) mine prems(14) read_on_trans [OF prems(17) prems(20)] False ok
              one_write(1) calls_on(1) calls_on(3)]) (simp_all add: prems(21))
      then show ?thesis by (simp add: False e)
    qed
    done
  then show ?thesis by (simp add: ok_def [abs_def])
qed

lemma delete_owned:
  fixes sv :: "(('v, 'c) run, 'c) entry_service"
  assumes "writes s = []"
  shows "owned_write sv args (\<lambda>path existing c. c = hc_delete (sv_client sv) path) (snd (delete_entry sv (recorded api) args s))"
proof -
  define ok where "ok path (existing :: tracked_entry) c \<longleftrightarrow> c = hc_delete (sv_client sv) path"
    for path existing and c :: "json http_call"
  note step = reads_then [where Q = "owned_write sv args ok"]
  have "owned_write sv args ok (snd (delete_entry sv (recorded api) args s))"
    unfolding delete_entry_def
    apply (rule step [OF reads_of_result assms], simp)
    apply (rule step [OF reads_workspace], assumption, simp)
    apply (rule step [OF reads_of_result], assumption, simp)
    apply (rule step [OF reads_call_entry], simp, assumption, simp)
    apply (rule step [OF reads_require_user], assumption, simp)
    subgoal premises prems for ident s1 ws s2 path s3 existing s4 u s5
    proof (cases "bool_member args ''dry_run''")
      case True
      then show ?thesis using prems(15) by (simp add: of_result_def)
    next
      case False
      have at: "workspace_path ws [''time-entries'', string_arg args ''entry_id''] = Inr path"
        using checked_id_ok [OF prems(1)] entry_path_ok [OF prems(7)] by simp
      have ok: "ok path existing (hc_delete (sv_client sv) path)" by (simp add: ok_def)
      have mine: "require_current_user_entry sv (recorded api) existing s4 = (Inr (), s5)" using prems(13) by simp
      show ?thesis
        using owned_call [where ok = ok, OF at prems(10) mine prems(14) read_on_refl False ok
            one_write(2) calls_on(2) api_call_recorded(2)]
        by (simp add: False prems(15))
    qed
    done
  then show ?thesis by (simp add: ok_def [abs_def])
qed

text \<open>C6 (safety). Updating and deleting an entry touch only the caller's own entries. Started where nothing was
  written, and with names resolved by reads, \<open>UpdateEntry\<close> and \<open>DeleteEntry\<close> make at most one call that
  is not a read, and if they make it: it is no dry run; the call goes to the path of the entry the caller
  named; that entry was read there, carries an owner, and the owner is the current user. The update is a PUT
  of the merged entry, in which every field the caller did not name is that of the entry read; the delete is a
  DELETE.\<close>

theorem entry_mutations_owned:
  fixes sv :: "(('v, 'c) run, 'c) entry_service"
  assumes "\<forall>k scope ref. reads_only (sv_resolve sv k scope ref)" and "writes s = []"
  shows "owned_write sv args (\<lambda>path existing c. \<exists>merged query. only_requested args existing merged \<and>
           c = hc_put_with_query (sv_client sv) path query (Some (JObj (time_entry_put_payload merged))))
         (snd (update_entry sv (recorded api) now args s)) \<and>
       owned_write sv args (\<lambda>path existing c. c = hc_delete (sv_client sv) path) (snd (delete_entry sv (recorded api) args s))"
  using assms by (intro conjI update_owned delete_owned)

definition demo_entry :: tracked_entry where
  "demo_entry = \<lparr>en_id = ''e1'', en_description = ''old'', en_project = ''p1'', en_project_name = [], en_task = [], en_tags = [],
     en_billable = False, en_billable_present = True, en_custom = JNull, en_type = [], en_user = ''u1'',
     en_start = ''2026-01-05T09:00:00Z'', en_end = []\<rparr>"

definition demo_entries :: "((unit, unit) run, unit) entry_service" where
  "demo_entries = \<lparr>sv_client = new_client ''k'' host_main 0 0, sv_workspace = ''w1'', sv_zone = None,
     sv_load_zone = (\<lambda>_. None), sv_here = utc_location, sv_entry = (\<lambda>_. Some demo_entry), sv_entries = (\<lambda>_. None),
     sv_user = (\<lambda>_. Some ''u1''), sv_project_billable = (\<lambda>_. None), sv_forces_projects = (\<lambda>_. None),
     sv_resolve = (\<lambda>_ _ _. of_result (Inr ''p2''))\<rparr>"

definition demo_state :: "(unit, unit) run tool_state" where
  "demo_state = \<lparr>ts_workspace_cache = [], ts_user_cache = None, ts_world = ([], ())\<rparr>"

definition demo_edit :: members where
  "demo_edit = [(''entry_id'', JStr ''e1''), (''description'', JStr ''new'')]"

lemma demo_writes:
  "map fst (writes (snd (update_entry demo_entries (recorded (\<lambda>_ w. (Inr JNull, w))) 0 demo_edit demo_state))) =
     [hc_put_with_query (new_client ''k'' host_main 0 0) ''/workspaces/w1/time-entries/e1'' []
        (Some (JObj (time_entry_put_payload (demo_entry\<lparr>en_description := ''new''\<rparr>))))]"
  "map fst (writes (snd (delete_entry demo_entries (recorded (\<lambda>_ w. (Inr JNull, w))) demo_edit demo_state))) =
     [hc_delete (new_client ''k'' host_main 0 0) ''/workspaces/w1/time-entries/e1'']"
  by code_simp+

theorem entry_mutations_owned_witness:
  "owned_write demo_entries demo_edit (\<lambda>path existing c. \<exists>merged query. only_requested demo_edit existing merged \<and>
       c = hc_put_with_query (sv_client demo_entries) path query (Some (JObj (time_entry_put_payload merged))))
     (snd (update_entry demo_entries (recorded (\<lambda>_ w. (Inr JNull, w))) 0 demo_edit demo_state)) \<and>
   length (writes (snd (update_entry demo_entries (recorded (\<lambda>_ w. (Inr JNull, w))) 0 demo_edit demo_state))) = 1 \<and>
   length (writes (snd (delete_entry demo_entries (recorded (\<lambda>_ w. (Inr JNull, w))) demo_edit demo_state))) = 1"
proof -
  have "\<forall>k scope ref. reads_only (sv_resolve demo_entries k scope ref)" by (simp add: demo_entries_def reads)
  moreover have "writes demo_state = []" by (simp add: writes_def made_def demo_state_def)
  ultimately show ?thesis
    using entry_mutations_owned [of demo_entries demo_state demo_edit "\<lambda>_ w. (Inr JNull, w)" 0]
      arg_cong [OF demo_writes(1), of length] arg_cong [OF demo_writes(2), of length] by simp
qed

end
