(* ===== verification/Spec2Isabelle.thy ===== *)
theory Spec2Isabelle
  imports MergePatch JsonSchema Safety Resolve CircuitBreaker ClockifyErrors HttpClient RateLimit
    McpTypes Resources ToolRegistry AuditLog ToolDispatch Inflight ResponseGuard Prompts Server Money TimeParse LruCache DeltaSync WeeklyEmit Pagination Webhooks RawApi BreakerRecovery Config ResolveCache TimesheetReview
    EntryWrites
begin

text \<open>
  A verification library for \<open>go-clockify\<close>, an MCP server (JSON-RPC 2.0 over a line-oriented stream)
  that gives a model host access to the Clockify time-tracking API. The names of the definitions are
  those of the Go code in snake case; every file below is under \<open>internal/\<close>.

  \<^bold>\<open>The program and how its parts interact.\<close> A line of input is decoded and handed to the protocol
  engine (\<open>mcp/server.go\<close>), which checks the handshake, answers \<open>initialize\<close>, \<open>tools/list\<close>, \<open>prompts/*\<close> and
  \<open>resources/*\<close>, and starts a \<open>tools/call\<close>. The call goes through dispatch (\<open>mcp/tools.go\<close>): registry,
  schema validation, confirmation of risky calls, rate limits, the handler, the audit log and the size
  guard of the result. A handler (\<open>tools/\<close>) reads its arguments, resolves names to IDs, builds a checked
  path and calls the HTTP client (\<open>clockify/client.go\<close>), which retries under a circuit breaker; the
  result is scrubbed and enveloped. A mutation of a time entry then publishes resource updates: full
  documents or merge patches against the last emitted one, for the entry and its weekly reports.

  \<^bold>\<open>Theories.\<close>

  Foundations, the part of Go's library that the code uses:
  \<^item> \<open>GoPrelude\<close>: results as sums, fixed-width integers as \<open>int\<close> with wrap-around, the collections of lemmas;
  \<^item> \<open>GoStrings\<close>: \<open>strings\<close> and \<open>strconv\<close> over byte strings; \<open>GoFloat\<close>, \<open>FloatBounds\<close>: \<open>float64\<close> as the
    rational it stands for, with one rounding per operation and the error of that rounding;
  \<^item> \<open>GoTime\<close>, \<open>GoCalendar\<close>: instants in nanoseconds, zones as a parameter, the proleptic Gregorian
    calendar and its correctness;
  \<^item> \<open>GoNetip\<close>, \<open>GoUrl\<close>: \<open>net/netip\<close> and \<open>net/url\<close>;
  \<^item> \<open>Json\<close>: decoded JSON values, objects as lists of members in iteration order.

  The protocol side:
  \<^item> \<open>JsonSchema\<close> (\<open>jsonschema/validator.go\<close>): the argument validator, where an error points, and its
    independence of Go's map order;
  \<^item> \<open>Safety\<close> (\<open>safety/\<close>): confirmation tokens; the locale \<open>confirmation_store\<close> states the contract and is
    interpreted on the store of \<open>token.go\<close>;
  \<^item> \<open>RateLimit\<close> (\<open>mcp/risk.go\<close>, \<open>rate_limit.go\<close>): risk masks on 32-bit words, the token bucket, the two
    semaphores (locale \<open>counting_semaphore\<close>, one interpretation per channel);
  \<^item> \<open>McpTypes\<close> (\<open>mcp/types.go\<close>), \<open>ToolRegistry\<close> (registry, cursors, the two caches of \<open>tools/list\<close>; locale
    \<open>memoised_view\<close>), \<open>AuditLog\<close> (\<open>mcp/audit_log.go\<close>), \<open>ResponseGuard\<close> (\<open>mcp/response_size_guard.go\<close>),
    \<open>Prompts\<close> (\<open>mcp/prompts.go\<close>), \<open>Inflight\<close> (cancellation and progress in \<open>mcp/server.go\<close>), \<open>Resources\<close>
    (\<open>mcp/resources.go\<close>, \<open>notifier_hub.go\<close>);
  \<^item> \<open>ToolDispatch\<close> (\<open>mcp/tools.go\<close>): one call from the registry to the audit record, and the interleavings
    of many as the step relation \<open>dispatch_step\<close>;
  \<^item> \<open>Server\<close> (\<open>mcp/server.go\<close>): the engine that composes all of these.

  The upstream side:
  \<^item> \<open>Resolve\<close> (\<open>resolve/\<close>, \<open>paths/\<close>, \<open>dryrun/\<close>), \<open>ResolveCache\<close> (\<open>tools/resolve_cache.go\<close>);
  \<^item> \<open>CircuitBreaker\<close>, \<open>BreakerRecovery\<close> (\<open>clockify/circuit_breaker.go\<close>): the state machine as
    \<open>breaker_step\<close>, its invariant, and that it can always be closed again;
  \<^item> \<open>ClockifyErrors\<close> (\<open>clockify/errors.go\<close>): error translation and redaction;
  \<^item> \<open>HttpClient\<close> (\<open>clockify/client.go\<close>, \<open>endpoint.go\<close>): retries, limits, the host fence;
  \<^item> \<open>Money\<close> (\<open>clockify/money.go\<close>, \<open>tools/money.go\<close>), \<open>TimeParse\<close> (\<open>timeparse/\<close>, \<open>tools/helpers_dates.go\<close>),
    \<open>Config\<close> (\<open>config/oneuser.go\<close>).

  The tool handlers (\<open>tools/\<close>):
  \<^item> \<open>ToolResult\<close> (\<open>common.go\<close>: arguments, the sanitised envelope), \<open>Pagination\<close> (\<open>helpers_pagination.go\<close>);
  \<^item> \<open>RawApi\<close> (\<open>oneuser_raw_api.go\<close>, \<open>raw_allowlist.go\<close>), \<open>WebhookGate\<close> and \<open>Webhooks\<close> (\<open>webhooks.go\<close>);
  \<^item> \<open>LruCache\<close> (\<open>resource_cache.go\<close>), \<open>MergePatch\<close> (\<open>jsonmergepatch/\<close>), \<open>DeltaSync\<close> (\<open>resources.go\<close>): the
    locale \<open>baseline_store\<close> is what the emitters need of the cache, interpreted on the LRU list;
  \<^item> \<open>WeeklyReport\<close>, \<open>WeeklyEmit\<close> (\<open>reports.go\<close>, \<open>resources.go\<close>): the roll-ups and their incremental update.
  \<^item> \<open>TimesheetReview\<close> (\<open>timesheet_workflows.go\<close>): gaps and overlaps of tracked time, the overlap check of
    \<open>clockify_log_work\<close>; \<open>EntryWrites\<close> (\<open>entries.go\<close>, \<open>workflows.go\<close>, \<open>firstslice_data.go\<close>, \<open>users.go\<close>): the
    handlers that change time entries, run against a recorded Clockify so that what they write can be stated.

  \<^bold>\<open>State and effects.\<close> A struct that changes is a record, an operation returns it updated; a handler that
  calls Clockify is a function of the responses it will see, or returns the list of calls it makes. A
  \<open>map\<close> whose iteration order shows is a list of members, and the properties quantify over the order.
  Errors are constructors, in the left summand of a result, instead of formatted texts. A mutex is the
  atomicity of the operation it guards; goroutines interleave at the steps of a relation
  (\<open>ToolDispatch\<close>) or as an arbitrary sequence of events (\<open>Inflight\<close>, \<open>Resources\<close>, \<open>DeltaSync\<close>).

  \<^bold>\<open>Bounds and fuel.\<close> Loops that the code bounds keep the code's bound: 1000 pages of a scan, the retry
  budget of a request, 1024 entries before a sweep. Where a recursion is not structural its termination
  is proved by a measure; the parser of IPv6 groups takes 8 as fuel, one for each group an address can
  have. Instants, durations and counts are unbounded where no product can overflow, and written with
  the wrap-around of \<open>int64\<close> where one can (\<open>Money\<close>, \<open>GoTime\<close>, \<open>Config\<close>).

  \<^bold>\<open>Parameters.\<close> Code outside the repository that cannot be computed here is an argument: SHA-256 and the
  JSON encoder (with injectivity as a hypothesis, where a property needs it), the regular-expression
  engine, the DNS resolver, the time-zone database, the network, clock readings, random tokens and the
  generated table of raw routes. Letter case is mapped on ASCII letters only; other bytes stay as they
  are.

  \<^bold>\<open>Not modelled.\<close> The process and its I/O (\<open>cmd/clockify-mcp\<close>, \<open>runtime/build.go\<close>, the writer goroutine, the
  scanner, files and sockets), tracing, metrics and log output; the regular expressions of
  \<open>logging/redact.go\<close> and the stack cleaning of \<open>mcp/panic.go\<close>; tool schemas and descriptions, which are
  literal data; the handlers and views of \<open>tools/\<close> not named above, which copy fields between an upstream
  object and a result; the fake server of the tests and the scripts.
\<close>

end
